(* ===== verification/Stack_Base.thy ===== *)
theory Stack_Base
  imports Main "HOL-Library.Word"
begin

text \<open>
  Shared vocabulary of the development: the values a failing or panicking operation
  returns, checked machine arithmetic, bounded vectors, the contract of the futures
  combinator the stack composes its tasks with, and two locales for components that
  are driven by sequences of operations (an invariant kept by every operation, and a
  functional refinement to an abstract component).
\<close>

named_theorems stack_simps \<open>unfolding rules shared by the component proofs\<close>
named_theorems stack_inv \<open>invariant introduction rules shared by the component proofs\<close>

section \<open>Errors and panics\<close>

text \<open>
  The error codes the crate raises by itself, and \<open>Ext_Error\<close> for a code raised by
  code the crate calls (\<^verbatim>\<open>rs-matter\<close>, \<^verbatim>\<open>edge-nal\<close>, a driver).
\<close>

datatype error = StdIoError | NoNetworkInterface | InvalidAction | Ext_Error nat

datatype panic =
    Out_Of_Bump_Memory
  | Assertion_Failed
  | Range_Panic
  | Arith_Overflow
  | Unwrap_Failed
  | Invalid_Mac_Length

type_synonym 'a res = "error + 'a"

definition and_then :: "'e + 'a \<Rightarrow> ('a \<Rightarrow> 'e + 'b) \<Rightarrow> 'e + 'b" where
  "and_then r f = (case r of Inl e \<Rightarrow> Inl e | Inr x \<Rightarrow> f x)"

lemma and_then_simps [simp]:
  "and_then (Inl e) f = Inl e"
  "and_then (Inr x) f = f x"
  by (simp_all add: and_then_def)

lemma and_then_Inr_iff: "and_then r f = Inr y \<longleftrightarrow> (\<exists>x. r = Inr x \<and> f x = Inr y)"
  by (cases r) auto

lemma and_then_Inl_iff:
  "and_then r f = Inl e \<longleftrightarrow> r = Inl e \<or> (\<exists>x. r = Inr x \<and> f x = Inl e)"
  by (cases r) auto

lemma and_then_assoc: "and_then (and_then r f) g = and_then r (\<lambda>x. and_then (f x) g)"
  by (cases r) auto

section \<open>Actions\<close>

text \<open>
  Asynchronous code that runs a sequence of calls is a function of the state of the world
  (sockets, drivers, the stack) that returns the world after it, with a panic, an error
  (the \<open>?\<close> operator returns at the first one) or a result.
\<close>

type_synonym ('w, 'a) act = "'w \<Rightarrow> (panic + 'a res) \<times> 'w"

definition act_ok :: "'a \<Rightarrow> ('w, 'a) act" where
  "act_ok x w = (Inr (Inr x), w)"

definition act_err :: "error \<Rightarrow> ('w, 'a) act" where
  "act_err e w = (Inr (Inl e), w)"

definition act_panic :: "panic \<Rightarrow> ('w, 'a) act" where
  "act_panic p w = (Inl p, w)"

definition act_then :: "('w, 'a) act \<Rightarrow> ('a \<Rightarrow> ('w, 'b) act) \<Rightarrow> ('w, 'b) act" where
  "act_then m k w =
     (case m w of
        (Inl p, w) \<Rightarrow> (Inl p, w)
      | (Inr (Inl e), w) \<Rightarrow> (Inr (Inl e), w)
      | (Inr (Inr x), w) \<Rightarrow> k x w)"

text \<open>The panicking operations above, and calls of other code with an error type of their own.\<close>

definition act_of :: "panic + 'a \<Rightarrow> ('w, 'a) act" where
  "act_of r w = (map_sum id Inr r, w)"

definition act_map_err :: "('e \<Rightarrow> error) \<Rightarrow> ('w \<Rightarrow> ('e + 'a) \<times> 'w) \<Rightarrow> ('w, 'a) act" where
  "act_map_err f m w = (case m w of (r, w) \<Rightarrow> (Inr (map_sum f id r), w))"

lemma act_simps [simp]:
  "act_ok x w = (Inr (Inr x), w)"
  "act_err e w = (Inr (Inl e), w)"
  "act_panic p w = (Inl p, w)"
  "act_of (Inr x) w = (Inr (Inr x), w)"
  "act_of (Inl p) w = (Inl p, w)"
  by (simp_all add: act_ok_def act_err_def act_panic_def act_of_def)

lemma act_then_cases [simp]:
  "m w = (Inl p, w') \<Longrightarrow> act_then m k w = (Inl p, w')"
  "m w = (Inr (Inl e), w') \<Longrightarrow> act_then m k w = (Inr (Inl e), w')"
  "m w = (Inr (Inr x), w') \<Longrightarrow> act_then m k w = k x w'"
  by (simp_all add: act_then_def)

lemma act_map_err_cases [simp]:
  "m w = (Inl e, w') \<Longrightarrow> act_map_err f m w = (Inr (Inl (f e)), w')"
  "m w = (Inr x, w') \<Longrightarrow> act_map_err f m w = (Inr (Inr x), w')"
  by (simp_all add: act_map_err_def)

lemma act_then_assoc:
  "act_then (act_then m k) h = act_then m (\<lambda>x. act_then (k x) h)"
  by (rule ext) (simp add: act_then_def split: prod.splits sum.splits)

section \<open>Machine arithmetic of the target\<close>

text \<open>
  \<open>usize\<close> values are naturals below \<open>2 ^ 64\<close>; an addition that would leave the range
  and a subtraction that would go below zero are panics of the checked build.
\<close>

definition usize_max :: nat where
  "usize_max = 2 ^ 64 - 1"

definition usize_add :: "nat \<Rightarrow> nat \<Rightarrow> panic + nat" where
  "usize_add a b = (if a + b \<le> usize_max then Inr (a + b) else Inl Arith_Overflow)"

definition usize_sub :: "nat \<Rightarrow> nat \<Rightarrow> panic + nat" where
  "usize_sub a b = (if b \<le> a then Inr (a - b) else Inl Arith_Overflow)"

lemma usize_sub_ok [simp]: "b \<le> a \<Longrightarrow> usize_sub a b = Inr (a - b)"
  by (simp add: usize_sub_def)

lemma usize_add_ok [simp]: "a + b \<le> usize_max \<Longrightarrow> usize_add a b = Inr (a + b)"
  by (simp add: usize_add_def)

text \<open>IP addresses are kept at their width; the unspecified address is \<open>0\<close>.\<close>

type_synonym ipv4 = "32 word"
type_synonym ipv6 = "128 word"

section \<open>Bounded vectors\<close>

text \<open>
  \<open>Vec<T, N>\<close> of the stack is a vector of fixed capacity: a push onto a full one
  returns the element as the error.
\<close>

definition vec_push :: "nat \<Rightarrow> 'a list \<Rightarrow> 'a \<Rightarrow> 'a + 'a list" where
  "vec_push cap xs x = (if length xs < cap then Inr (xs @ [x]) else Inl x)"

lemma vec_push_Inr_iff:
  "vec_push cap xs x = Inr ys \<longleftrightarrow> length xs < cap \<and> ys = xs @ [x]"
  by (auto simp: vec_push_def)

section \<open>The futures combinator\<close>

text \<open>
  \<open>select\<close>, \<open>select3\<close>, \<open>select4\<close> followed by \<open>coalesce\<close> come from \<^verbatim>\<open>rs-matter\<close>. A
  poll of the combined future is a function of what its children return when polled
  (\<open>None\<close> for pending): pending exactly when every child is, and otherwise ready with
  the output of a child that is ready. Which one wins when several are ready is left open.
\<close>

definition select_contract :: "('r option list \<Rightarrow> 'r option) \<Rightarrow> bool" where
  "select_contract sel \<longleftrightarrow>
     (\<forall>rs. (sel rs = None \<longleftrightarrow> (\<forall>r \<in> set rs. r = None)) \<and>
           (\<forall>r. sel rs = Some r \<longrightarrow> Some r \<in> set rs))"

definition select_first :: "'r option list \<Rightarrow> 'r option" where
  "select_first rs = (case filter (\<lambda>r. r \<noteq> None) rs of [] \<Rightarrow> None | r # _ \<Rightarrow> r)"

lemma select_contract_None:
  "select_contract sel \<Longrightarrow> sel rs = None \<longleftrightarrow> (\<forall>r \<in> set rs. r = None)"
  by (simp add: select_contract_def)

lemma select_contract_Some:
  "select_contract sel \<Longrightarrow> sel rs = Some r \<Longrightarrow> Some r \<in> set rs"
  by (simp add: select_contract_def)

lemma select4_None:
  "select_contract sel \<Longrightarrow>
   sel [a, b, c, d] = None \<longleftrightarrow> a = None \<and> b = None \<and> c = None \<and> d = None"
  by (simp add: select_contract_None)

lemma select2_None:
  "select_contract sel \<Longrightarrow> sel [a, b] = None \<longleftrightarrow> a = None \<and> b = None"
  by (simp add: select_contract_None)

lemma select_contract_first: "select_contract select_first"
proof -
  have "(select_first rs = None \<longleftrightarrow> (\<forall>r \<in> set rs. r = None)) \<and>
        (\<forall>r. select_first rs = Some r \<longrightarrow> Some r \<in> set rs)" for rs :: "'a option list"
  proof (induction rs)
    case Nil
    then show ?case by (simp add: select_first_def)
  next
    case (Cons a rs)
    then show ?case by (cases a) (simp_all add: select_first_def)
  qed
  then show ?thesis by (simp add: select_contract_def)
qed

section \<open>Components driven by operations\<close>

text \<open>
  An operation either panics (\<open>Inl\<close>) or yields the next state. \<open>run_ops\<close> performs a
  list of operations, \<open>ops_allowed\<close> says that each of them is performed in a state that
  meets its precondition (the safety contract of an \<open>unsafe\<close> operation, say).
\<close>

text \<open>
  The same form serves for an asynchronous task: one evaluation of the await point it is at,
  given what it observes there, either completes it (\<open>Inl\<close>) or leaves it pending in a state.
\<close>

type_synonym ('s, 'o, 'r) task = "'s \<Rightarrow> 'o \<Rightarrow> 'r + 's"

fun run_ops :: "('s \<Rightarrow> 'o \<Rightarrow> 'p + 's) \<Rightarrow> 's \<Rightarrow> 'o list \<Rightarrow> 'p + 's" where
  "run_ops step s [] = Inr s"
| "run_ops step s (x # xs) = and_then (step s x) (\<lambda>s'. run_ops step s' xs)"

fun ops_allowed :: "('s \<Rightarrow> 'o \<Rightarrow> 'p + 's) \<Rightarrow> ('s \<Rightarrow> 'o \<Rightarrow> bool) \<Rightarrow> 's \<Rightarrow> 'o list \<Rightarrow> bool" where
  "ops_allowed step pre s [] = True"
| "ops_allowed step pre s (x # xs) =
     (pre s x \<and> (case step s x of Inl p \<Rightarrow> True | Inr s' \<Rightarrow> ops_allowed step pre s' xs))"

lemma run_ops_append:
  "run_ops step s (xs @ ys) = and_then (run_ops step s xs) (\<lambda>s'. run_ops step s' ys)"
  by (induction xs arbitrary: s) (simp_all add: and_then_assoc)

lemma ops_allowed_True [simp]: "ops_allowed step (\<lambda>_ _. True) s xs"
  by (induction xs arbitrary: s) (simp_all split: sum.split)

locale op_machine =
  fixes step :: "'s \<Rightarrow> 'o \<Rightarrow> 'p + 's"
    and pre :: "'s \<Rightarrow> 'o \<Rightarrow> bool"
    and inv :: "'s \<Rightarrow> bool"
  assumes step_inv: "inv s \<Longrightarrow> pre s x \<Longrightarrow> step s x = Inr s' \<Longrightarrow> inv s'"
begin

lemma run_inv:
  "inv s \<Longrightarrow> ops_allowed step pre s xs \<Longrightarrow> run_ops step s xs = Inr s' \<Longrightarrow> inv s'"
proof (induction xs arbitrary: s)
  case Nil
  then show ?case by simp
next
  case (Cons x xs)
  then obtain t where t: "step s x = Inr t" and r: "run_ops step t xs = Inr s'"
    by (auto simp: and_then_Inr_iff)
  from Cons.prems t have "inv t" and "ops_allowed step pre t xs"
    by (auto intro: step_inv)
  then show ?case using r by (rule Cons.IH)
qed

end

text \<open>A component that refines an abstract one: the abstraction commutes with every step.\<close>

locale op_refinement = op_machine step pre inv
  for step :: "'s \<Rightarrow> 'o \<Rightarrow> 'p + 's" and pre inv +
  fixes abs :: "'s \<Rightarrow> 'a"
    and astep :: "'a \<Rightarrow> 'o \<Rightarrow> 'a"
  assumes step_abs: "inv s \<Longrightarrow> pre s x \<Longrightarrow> step s x = Inr s' \<Longrightarrow> abs s' = astep (abs s) x"
begin

lemma run_abs:
  "inv s \<Longrightarrow> ops_allowed step pre s xs \<Longrightarrow> run_ops step s xs = Inr s' \<Longrightarrow>
   abs s' = foldl astep (abs s) xs"
proof (induction xs arbitrary: s)
  case Nil
  then show ?case by simp
next
  case (Cons x xs)
  then obtain t where t: "step s x = Inr t" and r: "run_ops step t xs = Inr s'"
    by (auto simp: and_then_Inr_iff)
  from Cons.prems t have "inv t" and "ops_allowed step pre t xs"
    by (auto intro: step_inv)
  then have "abs s' = foldl astep (abs t) xs" using r by (rule Cons.IH)
  moreover have "abs t = astep (abs s) x"
    using Cons.prems t by (auto intro: step_abs)
  ultimately show ?case by simp
qed

end

end
