(* ===== verification/Bump.thy ===== *)
theory Bump
  imports Stack_Base
begin

text \<open>
  The bump allocator of \<^verbatim>\<open>src/src/bump.rs\<close>: layouts, byte slices and their split at the
  alignment of a type (\<open>align_to\<close>, the slice method of the standard library that
  \<open>align_min\<close> calls), the state \<open>Inner\<close>, and \<open>align_min\<close>, \<open>reserve\<close> and \<open>reset\<close>.
  The lemmas give \<open>align_min\<close> and \<open>reserve\<close> in closed form, which shows that none of
  their assertions, slice bounds or subtractions can panic, and that "Out of bump
  memory" is raised exactly when the padded object does not fit.
\<close>

section \<open>Layouts and slices\<close>

record layout =
  lsize :: nat
  lalign :: nat

text \<open>What the language guarantees of every type: the size is a multiple of the alignment.\<close>

definition wf_layout :: "layout \<Rightarrow> bool" where
  "wf_layout T \<longleftrightarrow> 0 < lalign T \<and> lalign T dvd lsize T"

text \<open>
  A slice of bytes is an address and a length; a typed slice has a pointer (dangling for
  an empty one that points to no memory) and a number of elements.
\<close>

datatype ptr = Dangling | Addr nat

record slice =
  s_addr :: nat
  s_len :: nat

record tslice =
  t_ptr :: ptr
  t_len :: nat

definition empty_tslice :: tslice where
  "empty_tslice = \<lparr>t_ptr = Dangling, t_len = 0\<rparr>"

text \<open>The distance from an address to the next multiple of the alignment.\<close>

definition align_pad :: "layout \<Rightarrow> nat \<Rightarrow> nat" where
  "align_pad T a = (lalign T - a mod lalign T) mod lalign T"

definition align_to :: "layout \<Rightarrow> slice \<Rightarrow> slice \<times> tslice \<times> slice" where
  "align_to T buf =
     (let off = align_pad T (s_addr buf)
      in if s_len buf < off
         then (buf, empty_tslice, \<lparr>s_addr = s_addr buf + s_len buf, s_len = 0\<rparr>)
         else let rest = s_len buf - off;
                  n = rest div lsize T;
                  a = s_addr buf + off
              in (\<lparr>s_addr = s_addr buf, s_len = off\<rparr>,
                  \<lparr>t_ptr = Addr a, t_len = n\<rparr>,
                  \<lparr>s_addr = a + n * lsize T, s_len = rest mod lsize T\<rparr>))"

definition split_at_mut :: "slice \<Rightarrow> nat \<Rightarrow> panic + (slice \<times> slice)" where
  "split_at_mut buf n =
     (if n \<le> s_len buf
      then Inr (\<lparr>s_addr = s_addr buf, s_len = n\<rparr>,
                \<lparr>s_addr = s_addr buf + n, s_len = s_len buf - n\<rparr>)
      else Inl Range_Panic)"

definition slice_to :: "tslice \<Rightarrow> nat \<Rightarrow> panic + tslice" where
  "slice_to t n = (if n \<le> t_len t then Inr (t\<lparr>t_len := n\<rparr>) else Inl Range_Panic)"

definition check_that :: "bool \<Rightarrow> panic + unit" where
  "check_that b = (if b then Inr () else Inl Assertion_Failed)"

section \<open>The allocator state\<close>

text \<open>
  \<open>Bump<N>\<close> holds an \<open>Inner<N>\<close>: the arena of \<open>N\<close> bytes (here its address, its size and
  its bytes, \<open>None\<close> for uninitialized) and the offset of the first unused byte. The
  memory is indexed by address.
\<close>

type_synonym byte = "8 word"

record bump =
  b_base :: nat
  b_size :: nat
  b_mem :: "nat \<Rightarrow> byte option"
  b_offset :: nat

text \<open>\<open>Inner::new\<close> leaves the arena uninitialized, \<open>Inner::init\<close> zeroes it in place.\<close>

definition bump_new :: "nat \<Rightarrow> nat \<Rightarrow> bump" where
  "bump_new base N = \<lparr>b_base = base, b_size = N, b_mem = (\<lambda>_. None), b_offset = 0\<rparr>"

definition bump_init :: "nat \<Rightarrow> nat \<Rightarrow> bump" where
  "bump_init base N =
     \<lparr>b_base = base, b_size = N,
      b_mem = (\<lambda>a. if base \<le> a \<and> a < base + N then Some 0 else None), b_offset = 0\<rparr>"

definition bump_reset :: "bump \<Rightarrow> bump" where
  "bump_reset b = b\<lparr>b_offset := 0\<rparr>"

text \<open>The arena lies in the address space, and the offset is within the arena.\<close>

definition bump_ok :: "bump \<Rightarrow> bool" where
  "bump_ok b \<longleftrightarrow> b_base b + b_size b \<le> usize_max \<and> b_offset b \<le> b_size b"

section \<open>align_min and reserve\<close>

definition align_min :: "layout \<Rightarrow> slice \<Rightarrow> nat \<Rightarrow> panic + (tslice \<times> slice)" where
  "align_min T buf cnt =
     (if cnt = 0 \<or> lsize T = 0 then Inr (empty_tslice, buf)
      else let (lead0, t_buf, _) = align_to T buf
           in if t_len t_buf < cnt then Inl Out_Of_Bump_Memory
              else and_then (slice_to t_buf cnt) (\<lambda>t_buf.
                   and_then (split_at_mut buf (s_len lead0 + t_len t_buf * lsize T)) (\<lambda>(buf0, remaining).
                   let (lead, t_buf, t_rest) = align_to T buf0
                   in and_then (check_that (s_len lead0 = s_len lead)) (\<lambda>_.
                      and_then (check_that (t_len t_buf = cnt)) (\<lambda>_.
                      and_then (check_that (s_len t_rest = 0)) (\<lambda>_.
                      Inr (t_buf, remaining)))))))"

text \<open>
  \<open>N - offset\<close> is computed twice by the code, for the log line and for the slice; both
  are the checked subtraction.
\<close>

definition reserve :: "layout \<Rightarrow> bump \<Rightarrow> panic + (ptr \<times> bump)" where
  "reserve T b =
     (let offset = b_offset b
      in and_then (usize_sub (b_size b) offset) (\<lambda>free.
         let remaining = \<lparr>s_addr = b_base b + offset, s_len = free\<rparr>;
             remaining_len = s_len remaining
         in and_then (align_min T remaining 1) (\<lambda>(t_buf, r_buf).
            and_then (usize_add offset remaining_len) (\<lambda>end_pos.
            and_then (usize_sub end_pos (s_len r_buf)) (\<lambda>offset'.
            Inr (t_ptr t_buf, b\<lparr>b_offset := offset'\<rparr>))))))"

section \<open>Closed forms\<close>

lemma align_pad_less: "0 < lalign T \<Longrightarrow> align_pad T a < lalign T"
  by (simp add: align_pad_def)

lemma align_pad_dvd:
  assumes "0 < lalign T"
  shows "lalign T dvd a + align_pad T a"
proof (cases "a mod lalign T = 0")
  case True
  then show ?thesis by (simp add: align_pad_def mod_eq_0_iff_dvd)
next
  case False
  with assms have "align_pad T a = lalign T - a mod lalign T"
    by (simp add: align_pad_def)
  moreover have "a mod lalign T < lalign T" using assms by simp
  ultimately have "a + align_pad T a = (a div lalign T) * lalign T + lalign T"
    using div_mult_mod_eq [of a "lalign T"] by linarith
  then show ?thesis by simp
qed

lemma align_pad_aligned: "lalign T dvd a \<Longrightarrow> align_pad T a = 0"
  by (simp add: align_pad_def)

text \<open>The reference definition: what a request takes from the arena, padding included.\<close>

definition need :: "layout \<Rightarrow> nat \<Rightarrow> nat" where
  "need T a = (if lsize T = 0 then 0 else align_pad T a + lsize T)"

lemma align_min_closed:
  assumes "0 < lsize T"
  shows "align_min T buf 1 =
    (if need T (s_addr buf) \<le> s_len buf
     then Inr (\<lparr>t_ptr = Addr (s_addr buf + align_pad T (s_addr buf)), t_len = 1\<rparr>,
               \<lparr>s_addr = s_addr buf + need T (s_addr buf),
                s_len = s_len buf - need T (s_addr buf)\<rparr>)
     else Inl Out_Of_Bump_Memory)"
proof -
  let ?p = "align_pad T (s_addr buf)"
  consider (short) "s_len buf < ?p" | (small) "?p \<le> s_len buf" "s_len buf - ?p < lsize T"
    | (fits) "?p \<le> s_len buf" "lsize T \<le> s_len buf - ?p"
    by linarith
  then show ?thesis
  proof cases
    case short
    then show ?thesis using assms
      by (simp add: align_min_def align_to_def need_def empty_tslice_def)
  next
    case small
    then show ?thesis using assms
      by (simp add: align_min_def align_to_def need_def Let_def)
  next
    case fits
    then have "0 < (s_len buf - ?p) div lsize T"
      using assms by (simp add: div_greater_zero_iff)
    then have "\<not> (s_len buf - ?p) div lsize T < 1" by simp
    with fits show ?thesis using assms
      by (simp add: align_min_def align_to_def need_def Let_def slice_to_def
          split_at_mut_def check_that_def)
  qed
qed

lemma align_min_zst: "lsize T = 0 \<Longrightarrow> align_min T buf cnt = Inr (empty_tslice, buf)"
  by (simp add: align_min_def)

definition reserve_ptr :: "layout \<Rightarrow> nat \<Rightarrow> ptr" where
  "reserve_ptr T a = (if lsize T = 0 then Dangling else Addr (a + align_pad T a))"

lemma reserve_closed:
  assumes "bump_ok b"
  shows "reserve T b =
    (if need T (b_base b + b_offset b) \<le> b_size b - b_offset b
     then Inr (reserve_ptr T (b_base b + b_offset b),
               b\<lparr>b_offset := b_offset b + need T (b_base b + b_offset b)\<rparr>)
     else Inl Out_Of_Bump_Memory)"
proof -
  from assms have le: "b_offset b \<le> b_size b" and bd: "b_size b \<le> usize_max"
    by (auto simp: bump_ok_def)
  show ?thesis
  proof (cases "lsize T = 0")
    case True
    with le bd show ?thesis
      by (simp add: reserve_def align_min_zst need_def empty_tslice_def reserve_ptr_def)
  next
    case False
    with le bd show ?thesis
      by (simp add: reserve_def align_min_closed [unfolded One_nat_def] reserve_ptr_def Let_def)
  qed
qed

lemma reserve_ok: "bump_ok b \<Longrightarrow> reserve T b = Inr (p, b') \<Longrightarrow> bump_ok b'"
  by (auto simp: reserve_closed bump_ok_def split: if_splits)

lemma reserve_frame:
  "bump_ok b \<Longrightarrow> reserve T b = Inr (p, b') \<Longrightarrow>
   b_base b' = b_base b \<and> b_size b' = b_size b \<and> b_mem b' = b_mem b \<and>
   b_offset b \<le> b_offset b'"
  by (auto simp: reserve_closed split: if_splits)

lemma bump_new_ok: "base + N \<le> usize_max \<Longrightarrow> bump_ok (bump_new base N)"
  by (simp add: bump_ok_def bump_new_def)

lemma bump_init_ok: "base + N \<le> usize_max \<Longrightarrow> bump_ok (bump_init base N)"
  by (simp add: bump_ok_def bump_init_def)

lemma bump_reset_ok: "bump_ok b \<Longrightarrow> bump_ok (bump_reset b)"
  by (simp add: bump_ok_def bump_reset_def)

end
