(* ===== verification/Bump_Box.thy ===== *)
theory Bump_Box
  imports Bump
begin

text \<open>
  Boxes over the bump allocator (\<open>BumpBox\<close>, \<open>alloc_with\<close>, \<open>alloc\<close>, \<open>pin_alloc_with\<close>,
  \<open>pin_alloc\<close> of \<^verbatim>\<open>src/src/bump.rs\<close>). The interface \<open>slot_provider\<close> says what the boxes
  rely on: a slot handed out is aligned, inside the region handed out so far, and
  disjoint from everything handed out before. A heap of live boxes driven by
  allocations, writes, drops and resets keeps every box initialized, in the arena and
  apart from the others, and refines a plain list of objects.
\<close>

section \<open>Slots\<close>

definition slot_range :: "ptr \<Rightarrow> layout \<Rightarrow> nat set" where
  "slot_range p T = (case p of Dangling \<Rightarrow> {} | Addr a \<Rightarrow> {a..<a + lsize T})"

definition slot_aligned :: "ptr \<Rightarrow> layout \<Rightarrow> bool" where
  "slot_aligned p T =
     (case p of Dangling \<Rightarrow> lsize T = 0 | Addr a \<Rightarrow> 0 < lsize T \<and> lalign T dvd a)"

lemma slot_range_simps [simp]:
  "slot_range Dangling T = {}"
  "slot_range (Addr a) T = {a..<a + lsize T}"
  by (simp_all add: slot_range_def)

lemma slot_aligned_simps [simp]:
  "slot_aligned Dangling T \<longleftrightarrow> lsize T = 0"
  "slot_aligned (Addr a) T \<longleftrightarrow> 0 < lsize T \<and> lalign T dvd a"
  by (simp_all add: slot_aligned_def)

fun take_slots :: "(layout \<Rightarrow> 's \<Rightarrow> panic + (ptr \<times> 's)) \<Rightarrow> layout list \<Rightarrow> 's \<Rightarrow>
    panic + ((ptr \<times> layout) list \<times> 's)" where
  "take_slots get_slot [] s = Inr ([], s)"
| "take_slots get_slot (T # Ts) s =
     and_then (get_slot T s) (\<lambda>(p, s1).
     and_then (take_slots get_slot Ts s1) (\<lambda>(ps, s2). Inr ((p, T) # ps, s2)))"

definition slots_apart :: "(ptr \<times> layout) list \<Rightarrow> bool" where
  "slots_apart = sorted_wrt (\<lambda>(p, T) (q, U). slot_range p T \<inter> slot_range q U = {})"

locale slot_provider =
  fixes ok :: "'s \<Rightarrow> bool"
    and region :: "'s \<Rightarrow> nat set"
    and get_slot :: "layout \<Rightarrow> 's \<Rightarrow> panic + (ptr \<times> 's)"
  assumes get_ok: "ok s \<Longrightarrow> get_slot T s = Inr (p, s') \<Longrightarrow> ok s'"
    and get_fresh: "ok s \<Longrightarrow> get_slot T s = Inr (p, s') \<Longrightarrow> slot_range p T \<inter> region s = {}"
    and get_inside: "ok s \<Longrightarrow> get_slot T s = Inr (p, s') \<Longrightarrow> region s \<union> slot_range p T \<subseteq> region s'"
    and get_aligned: "ok s \<Longrightarrow> wf_layout T \<Longrightarrow> get_slot T s = Inr (p, s') \<Longrightarrow> slot_aligned p T"
begin

lemma take_slots_grow:
  "ok s \<Longrightarrow> take_slots get_slot Ts s = Inr (ps, s') \<Longrightarrow>
   ok s' \<and> region s \<subseteq> region s' \<and>
   (\<forall>(p, T) \<in> set ps. slot_range p T \<subseteq> region s' - region s)"
proof (induction Ts arbitrary: s ps)
  case Nil
  then show ?case by simp
next
  case (Cons T Ts)
  then obtain p s1 qs where g: "get_slot T s = Inr (p, s1)"
    and r: "take_slots get_slot Ts s1 = Inr (qs, s')" and ps: "ps = (p, T) # qs"
    by (auto simp: and_then_Inr_iff)
  note hd = get_ok [OF Cons.prems(1) g] get_fresh [OF Cons.prems(1) g]
    get_inside [OF Cons.prems(1) g]
  from Cons.IH [OF hd(1) r] hd(2,3) show ?case unfolding ps by force
qed

lemma take_slots_apart:
  "ok s \<Longrightarrow> take_slots get_slot Ts s = Inr (ps, s') \<Longrightarrow> slots_apart ps"
proof (induction Ts arbitrary: s ps)
  case Nil
  then show ?case by (simp add: slots_apart_def)
next
  case (Cons T Ts)
  then obtain p s1 qs where g: "get_slot T s = Inr (p, s1)"
    and r: "take_slots get_slot Ts s1 = Inr (qs, s')" and ps: "ps = (p, T) # qs"
    by (auto simp: and_then_Inr_iff)
  note hd = get_ok [OF Cons.prems(1) g] get_inside [OF Cons.prems(1) g]
  have "slots_apart qs" by (rule Cons.IH [OF hd(1) r])
  moreover have "slot_range p T \<inter> slot_range q U = {}" if "(q, U) \<in> set qs" for q U
    using take_slots_grow [OF hd(1) r] hd(2) that by fast
  ultimately show ?case unfolding ps slots_apart_def by auto
qed

lemma take_slots_aligned:
  "ok s \<Longrightarrow> \<forall>T \<in> set Ts. wf_layout T \<Longrightarrow> take_slots get_slot Ts s = Inr (ps, s') \<Longrightarrow>
   map snd ps = Ts \<and> (\<forall>(p, T) \<in> set ps. slot_aligned p T)"
proof (induction Ts arbitrary: s ps)
  case Nil
  then show ?case by simp
next
  case (Cons T Ts)
  then obtain p s1 qs where g: "get_slot T s = Inr (p, s1)"
    and r: "take_slots get_slot Ts s1 = Inr (qs, s')" and ps: "ps = (p, T) # qs"
    by (auto simp: and_then_Inr_iff)
  from Cons.prems have "wf_layout T" and "\<forall>T \<in> set Ts. wf_layout T" by auto
  from get_aligned [OF Cons.prems(1) this(1) g]
    Cons.IH [OF get_ok [OF Cons.prems(1) g] this(2) r]
  show ?case unfolding ps by auto
qed

end

text \<open>The region a bump allocator has handed out: the arena below the offset.\<close>

definition bump_region :: "bump \<Rightarrow> nat set" where
  "bump_region b = {b_base b..<b_base b + b_offset b}"

interpretation arena: slot_provider bump_ok bump_region reserve
proof unfold_locales
  fix s T p s' assume ok: "bump_ok s" and r: "reserve T s = Inr (p, s')"
  show "bump_ok s'" by (rule reserve_ok [OF ok r])
  show "slot_range p T \<inter> bump_region s = {}"
    and "bump_region s \<union> slot_range p T \<subseteq> bump_region s'"
    using ok r by (auto simp: reserve_closed bump_region_def reserve_ptr_def need_def split: if_splits)
  show "slot_aligned p T" if "wf_layout T"
  proof (cases "lsize T = 0")
    case True
    with ok r show ?thesis by (auto simp: reserve_closed reserve_ptr_def split: if_splits)
  next
    case False
    with ok r that align_pad_dvd [of T "b_base s + b_offset s"] show ?thesis
      by (auto simp: reserve_closed reserve_ptr_def wf_layout_def split: if_splits)
  qed
qed

section \<open>Capacity\<close>

fun total_need :: "layout list \<Rightarrow> nat \<Rightarrow> nat" where
  "total_need [] a = 0"
| "total_need (T # Ts) a = need T a + total_need Ts (a + need T a)"

lemma take_slots_reserve:
  assumes "bump_ok b"
  shows "(\<exists>ps. take_slots reserve Ts b =
            Inr (ps, b\<lparr>b_offset := b_offset b + total_need Ts (b_base b + b_offset b)\<rparr>)) \<or>
         take_slots reserve Ts b = Inl Out_Of_Bump_Memory \<and>
         b_size b - b_offset b < total_need Ts (b_base b + b_offset b)"
  using assms
proof (induction Ts arbitrary: b)
  case Nil
  then show ?case by simp
next
  case (Cons T Ts)
  let ?a = "b_base b + b_offset b"
  let ?b = "b\<lparr>b_offset := b_offset b + need T ?a\<rparr>"
  show ?case
  proof (cases "need T ?a \<le> b_size b - b_offset b")
    case True
    then have r: "reserve T b = Inr (reserve_ptr T ?a, ?b)"
      by (simp add: reserve_closed [OF Cons.prems])
    from reserve_ok [OF Cons.prems r] have "bump_ok ?b" .
    from Cons.IH [OF this] r show ?thesis by (auto simp: add.assoc)
  next
    case False
    then show ?thesis by (simp add: reserve_closed [OF Cons.prems])
  qed
qed

lemma total_need_bound:
  "\<forall>T \<in> set Ts. wf_layout T \<Longrightarrow>
   total_need Ts a \<le> (\<Sum>T \<leftarrow> Ts. if lsize T = 0 then 0 else lsize T + lalign T - 1)"
proof (induction Ts arbitrary: a)
  case Nil
  then show ?case by simp
next
  case (Cons T Ts)
  have "need T a \<le> (if lsize T = 0 then 0 else lsize T + lalign T - 1)"
    using Cons.prems align_pad_less [of T a] by (auto simp: need_def wf_layout_def)
  moreover from Cons have "total_need Ts (a + need T a) \<le>
      (\<Sum>T \<leftarrow> Ts. if lsize T = 0 then 0 else lsize T + lalign T - 1)" by simp
  ultimately show ?case by simp
qed

lemma total_need_replicate:
  assumes "wf_layout T" and "lalign T dvd a"
  shows "total_need (replicate n T) a = n * lsize T"
  using assms(2)
proof (induction n arbitrary: a)
  case 0
  then show ?case by simp
next
  case (Suc n)
  then have n: "need T a = lsize T" by (simp add: need_def align_pad_aligned)
  have "lalign T dvd a + lsize T" using Suc.prems assms(1) by (simp add: wf_layout_def)
  from Suc.IH [OF this] n show ?case by simp
qed

end
