(* ===== verification/Bump_Heap.thy ===== *)
theory Bump_Heap
  imports Bump_Box
begin

text \<open>
  Objects in the arena. An object is the bytes of its value; \<open>BumpBox\<close> is the pointer to
  its slot. \<open>alloc_with\<close> reserves the slot first and runs the constructing closure
  afterwards, outside the allocator lock, so the closure may itself allocate; the
  heap of live boxes of the second half is what the safe callers of the allocator see.
\<close>

section \<open>Boxes\<close>

record bbox =
  bx_ptr :: ptr
  bx_layout :: layout

datatype pinned = Pinned bbox

definition into_pin :: "bbox \<Rightarrow> pinned" where
  "into_pin bx = Pinned bx"

fun store_bytes :: "(nat \<Rightarrow> byte option) \<Rightarrow> nat \<Rightarrow> byte list \<Rightarrow> (nat \<Rightarrow> byte option)" where
  "store_bytes m a [] = m"
| "store_bytes m a (x # xs) = store_bytes (m(a := Some x)) (Suc a) xs"

definition write_slot :: "ptr \<Rightarrow> byte list \<Rightarrow> bump \<Rightarrow> bump" where
  "write_slot p v b =
     (case p of Dangling \<Rightarrow> b | Addr a \<Rightarrow> b\<lparr>b_mem := store_bytes (b_mem b) a v\<rparr>)"

definition read_slot :: "ptr \<Rightarrow> layout \<Rightarrow> bump \<Rightarrow> byte option list" where
  "read_slot p T b =
     (case p of Dangling \<Rightarrow> [] | Addr a \<Rightarrow> map (b_mem b) [a..<a + lsize T])"

type_synonym constructor = "bump \<Rightarrow> panic + (byte list \<times> bump)"

definition alloc_with :: "layout \<Rightarrow> constructor \<Rightarrow> bump \<Rightarrow> panic + (bbox \<times> bump)" where
  "alloc_with T f b =
     and_then (reserve T b) (\<lambda>(slot, b1).
     and_then (f b1) (\<lambda>(obj, b2).
     Inr (\<lparr>bx_ptr = slot, bx_layout = T\<rparr>, write_slot slot obj b2)))"

definition alloc :: "layout \<Rightarrow> byte list \<Rightarrow> bump \<Rightarrow> panic + (bbox \<times> bump)" where
  "alloc T obj b = alloc_with T (\<lambda>b. Inr (obj, b)) b"

definition pin_alloc_with :: "layout \<Rightarrow> constructor \<Rightarrow> bump \<Rightarrow> panic + (pinned \<times> bump)" where
  "pin_alloc_with T f b = and_then (alloc_with T f b) (\<lambda>(bx, b'). Inr (into_pin bx, b'))"

definition pin_alloc :: "layout \<Rightarrow> byte list \<Rightarrow> bump \<Rightarrow> panic + (pinned \<times> bump)" where
  "pin_alloc T obj b = and_then (alloc T obj b) (\<lambda>(bx, b'). Inr (into_pin bx, b'))"

text \<open>
  \<open>Deref\<close> and \<open>DerefMut\<close> read and overwrite the object in place; \<open>Drop\<close> runs the
  destructor of the contained object (\<open>destroy\<close>, of the object's type) and gives
  no memory back.
\<close>

definition box_deref :: "bump \<Rightarrow> bbox \<Rightarrow> byte option list" where
  "box_deref b bx = read_slot (bx_ptr bx) (bx_layout bx) b"

definition box_deref_mut :: "bbox \<Rightarrow> byte list \<Rightarrow> bump \<Rightarrow> bump" where
  "box_deref_mut bx v b = write_slot (bx_ptr bx) v b"

definition box_drop :: "(byte option list \<Rightarrow> 'w \<Rightarrow> 'w) \<Rightarrow> bbox \<Rightarrow> bump \<times> 'w \<Rightarrow> bump \<times> 'w" where
  "box_drop destroy bx = (\<lambda>(b, w). (b, destroy (box_deref b bx) w))"

section \<open>Memory lemmas\<close>

lemma store_bytes_apply:
  "store_bytes m a v x = (if a \<le> x \<and> x < a + length v then Some (v ! (x - a)) else m x)"
proof (induction v arbitrary: m a x)
  case Nil
  then show ?case by auto
next
  case (Cons y v)
  show ?case
  proof (cases "x = a")
    case True
    then show ?thesis by (simp add: Cons.IH)
  next
    case False
    then show ?thesis by (auto simp: Cons.IH nth_Cons' Suc_le_eq)
  qed
qed

lemma read_slot_write:
  "length v = lsize T \<Longrightarrow> slot_aligned p T \<Longrightarrow> read_slot p T (write_slot p v b) = map Some v"
  by (cases p) (auto simp: read_slot_def write_slot_def store_bytes_apply intro: nth_equalityI)

lemma read_slot_frame:
  "slot_range p T \<inter> slot_range q U = {} \<Longrightarrow> length v = lsize U \<Longrightarrow>
   read_slot p T (write_slot q v b) = read_slot p T b"
  by (cases p; cases q)
    (auto simp: read_slot_def write_slot_def store_bytes_apply disjoint_iff)

lemma write_slot_frame [simp]:
  "b_base (write_slot p v b) = b_base b"
  "b_size (write_slot p v b) = b_size b"
  "b_offset (write_slot p v b) = b_offset b"
  by (cases p; simp add: write_slot_def)+

lemma bump_ok_write [simp]: "bump_ok (write_slot p v b) = bump_ok b"
  by (simp add: bump_ok_def)

lemma bump_region_write [simp]: "bump_region (write_slot p v b) = bump_region b"
  by (simp add: bump_region_def)

lemma read_slot_mem: "b_mem b' = b_mem b \<Longrightarrow> read_slot p T b' = read_slot p T b"
  by (simp add: read_slot_def split: ptr.split)

lemma alloc_Inr:
  "alloc T v b = Inr (bx, b') \<longleftrightarrow>
   (\<exists>p b1. reserve T b = Inr (p, b1) \<and> bx = \<lparr>bx_ptr = p, bx_layout = T\<rparr> \<and> b' = write_slot p v b1)"
  by (auto simp: alloc_def alloc_with_def and_then_Inr_iff)

lemma pin_alloc_Inr:
  "pin_alloc T v b = Inr (Pinned bx, b') \<longleftrightarrow> alloc T v b = Inr (bx, b')"
  by (auto simp: pin_alloc_def into_pin_def and_then_Inr_iff)

section \<open>The heap of live boxes\<close>

text \<open>
  What safe code can do with the allocator: allocate an object, overwrite the object of
  a box it holds, drop a box, and - the \<open>unsafe\<close> one, whose contract is that no box is
  alive - reset the arena.
\<close>

record heap =
  h_bump :: bump
  h_boxes :: "bbox list"

datatype heap_op = Op_Alloc layout "byte list" | Op_Write nat "byte list" | Op_Drop nat | Op_Reset

fun heap_step :: "heap \<Rightarrow> heap_op \<Rightarrow> panic + heap" where
  "heap_step h (Op_Alloc T v) =
     and_then (alloc T v (h_bump h)) (\<lambda>(bx, b). Inr \<lparr>h_bump = b, h_boxes = h_boxes h @ [bx]\<rparr>)"
| "heap_step h (Op_Write i v) =
     Inr (h\<lparr>h_bump := box_deref_mut (h_boxes h ! i) v (h_bump h)\<rparr>)"
| "heap_step h (Op_Drop i) =
     Inr (h\<lparr>h_bump := fst (box_drop (\<lambda>_ w. w) (h_boxes h ! i) (h_bump h, ())),
            h_boxes := take i (h_boxes h) @ drop (Suc i) (h_boxes h)\<rparr>)"
| "heap_step h Op_Reset = Inr (h\<lparr>h_bump := bump_reset (h_bump h)\<rparr>)"

fun heap_pre :: "heap \<Rightarrow> heap_op \<Rightarrow> bool" where
  "heap_pre h (Op_Alloc T v) \<longleftrightarrow> wf_layout T \<and> length v = lsize T"
| "heap_pre h (Op_Write i v) \<longleftrightarrow>
     i < length (h_boxes h) \<and> length v = lsize (bx_layout (h_boxes h ! i))"
| "heap_pre h (Op_Drop i) \<longleftrightarrow> i < length (h_boxes h)"
| "heap_pre h Op_Reset \<longleftrightarrow> h_boxes h = []"

definition box_slot :: "bbox \<Rightarrow> ptr \<times> layout" where
  "box_slot bx = (bx_ptr bx, bx_layout bx)"

definition box_valid :: "bump \<Rightarrow> bbox \<Rightarrow> bool" where
  "box_valid b bx \<longleftrightarrow>
     slot_aligned (bx_ptr bx) (bx_layout bx) \<and>
     slot_range (bx_ptr bx) (bx_layout bx) \<subseteq> bump_region b \<and>
     (\<exists>v. length v = lsize (bx_layout bx) \<and> box_deref b bx = map Some v)"

definition heap_inv :: "heap \<Rightarrow> bool" where
  "heap_inv h \<longleftrightarrow>
     bump_ok (h_bump h) \<and> (\<forall>bx \<in> set (h_boxes h). box_valid (h_bump h) bx) \<and>
     slots_apart (map box_slot (h_boxes h))"

text \<open>The abstract heap: the objects of the live boxes, in the order of allocation.\<close>

definition heap_objects :: "heap \<Rightarrow> byte list list" where
  "heap_objects h = map (\<lambda>bx. map the (box_deref (h_bump h) bx)) (h_boxes h)"

fun objects_step :: "byte list list \<Rightarrow> heap_op \<Rightarrow> byte list list" where
  "objects_step vs (Op_Alloc T v) = vs @ [v]"
| "objects_step vs (Op_Write i v) = vs[i := v]"
| "objects_step vs (Op_Drop i) = take i vs @ drop (Suc i) vs"
| "objects_step vs Op_Reset = vs"

lemma slots_apart_snoc:
  "slots_apart (ps @ [(q, U)]) \<longleftrightarrow>
   slots_apart ps \<and> (\<forall>(p, T) \<in> set ps. slot_range p T \<inter> slot_range q U = {})"
  by (auto simp: slots_apart_def sorted_wrt_append)

lemma slots_apart_nth:
  "slots_apart ps \<Longrightarrow> i < length ps \<Longrightarrow> j < length ps \<Longrightarrow> i \<noteq> j \<Longrightarrow>
   ps ! i = (p, T) \<Longrightarrow> ps ! j = (q, U) \<Longrightarrow> slot_range p T \<inter> slot_range q U = {}"
  unfolding slots_apart_def sorted_wrt_iff_nth_less
  by (cases i j rule: linorder_cases) fastforce+

lemma slots_apart_delete:
  assumes "slots_apart ps"
  shows "slots_apart (take i ps @ drop (Suc i) ps)"
proof (cases "i < length ps")
  case True
  then have "ps = take i ps @ ps ! i # drop (Suc i) ps" by (rule id_take_nth_drop)
  with assms have "slots_apart (take i ps @ ps ! i # drop (Suc i) ps)" by simp
  then show ?thesis by (auto simp: slots_apart_def sorted_wrt_append)
next
  case False
  with assms show ?thesis by simp
qed

lemma box_valid_mono:
  assumes "box_valid b bx" and "bump_region b \<subseteq> bump_region b'"
    and "box_deref b' bx = box_deref b bx"
  shows "box_valid b' bx"
  using assms by (auto simp: box_valid_def)

text \<open>What an allocation does to the boxes that are already alive, and to the new one.\<close>

lemma alloc_box:
  assumes ok: "bump_ok b" and T: "wf_layout T" "length v = lsize T"
    and a: "alloc T v b = Inr (bx, b')"
  shows "bump_ok b'" and "bump_region b \<subseteq> bump_region b'"
    and "box_valid b' bx" and "box_deref b' bx = map Some v"
    and "slot_range (bx_ptr bx) (bx_layout bx) \<inter> bump_region b = {}"
proof -
  from a obtain p b1 where r: "reserve T b = Inr (p, b1)"
    and bx: "bx = \<lparr>bx_ptr = p, bx_layout = T\<rparr>" and b': "b' = write_slot p v b1"
    by (auto simp: alloc_Inr)
  note facts = arena.get_ok [OF ok r] arena.get_fresh [OF ok r]
    arena.get_inside [OF ok r] arena.get_aligned [OF ok T(1) r]
  show "bump_ok b'" and "bump_region b \<subseteq> bump_region b'"
    and "slot_range (bx_ptr bx) (bx_layout bx) \<inter> bump_region b = {}"
    using facts by (auto simp: bx b')
  show d: "box_deref b' bx = map Some v"
    using facts(4) T(2) by (simp add: box_deref_def bx b' read_slot_write)
  show "box_valid b' bx"
    unfolding box_valid_def
  proof (intro conjI)
    show "slot_aligned (bx_ptr bx) (bx_layout bx)" using facts(4) by (simp add: bx)
    show "slot_range (bx_ptr bx) (bx_layout bx) \<subseteq> bump_region b'"
      using facts(3) by (simp add: bx b')
    show "\<exists>v. length v = lsize (bx_layout bx) \<and> box_deref b' bx = map Some v"
      using d T(2) by (auto simp: bx)
  qed
qed

lemma alloc_other:
  assumes ok: "bump_ok b" and T: "wf_layout T" "length v = lsize T"
    and a: "alloc T v b = Inr (bx, b')"
    and old: "slot_range (bx_ptr by) (bx_layout by) \<subseteq> bump_region b"
  shows "box_deref b' by = box_deref b by"
proof -
  from a obtain p b1 where r: "reserve T b = Inr (p, b1)"
    and bx: "bx = \<lparr>bx_ptr = p, bx_layout = T\<rparr>" and b': "b' = write_slot p v b1"
    by (auto simp: alloc_Inr)
  have "slot_range (bx_ptr by) (bx_layout by) \<inter> slot_range p T = {}"
    using old arena.get_fresh [OF ok r] by auto
  with T(2) have "box_deref b' by = box_deref b1 by"
    by (simp add: box_deref_def b' read_slot_frame)
  also have "\<dots> = box_deref b by"
    using reserve_frame [OF ok r] by (simp add: box_deref_def read_slot_mem [of b1 b])
  finally show ?thesis .
qed

lemma write_other:
  assumes "slots_apart (map box_slot bs)" and "i < length bs" and "j < length bs" and "i \<noteq> j"
    and "length v = lsize (bx_layout (bs ! i))"
  shows "box_deref (box_deref_mut (bs ! i) v b) (bs ! j) = box_deref b (bs ! j)"
proof -
  have "slot_range (bx_ptr (bs ! j)) (bx_layout (bs ! j)) \<inter>
        slot_range (bx_ptr (bs ! i)) (bx_layout (bs ! i)) = {}"
    by (rule slots_apart_nth [OF assms(1), of j i])
      (use assms in \<open>simp_all add: box_slot_def\<close>)
  with assms(5) show ?thesis
    by (simp add: box_deref_def box_deref_mut_def read_slot_frame)
qed

lemma write_same:
  assumes "box_valid b bx" and "length v = lsize (bx_layout bx)"
  shows "box_deref (box_deref_mut bx v b) bx = map Some v"
  using assms by (simp add: box_deref_def box_deref_mut_def box_valid_def read_slot_write)

lemma write_valid:
  assumes "heap_inv h" and "i < length (h_boxes h)" and "j < length (h_boxes h)"
    and "length v = lsize (bx_layout (h_boxes h ! i))"
  shows "box_valid (box_deref_mut (h_boxes h ! i) v (h_bump h)) (h_boxes h ! j)"
proof (cases "j = i")
  case True
  have "box_valid (h_bump h) (h_boxes h ! i)" using assms by (simp add: heap_inv_def)
  with write_same [OF this assms(4)] assms(4) show ?thesis
    unfolding True by (auto simp: box_valid_def box_deref_mut_def)
next
  case False
  have "box_valid (h_bump h) (h_boxes h ! j)" using assms by (simp add: heap_inv_def)
  moreover have "box_deref (box_deref_mut (h_boxes h ! i) v (h_bump h)) (h_boxes h ! j) =
      box_deref (h_bump h) (h_boxes h ! j)"
    by (rule write_other) (use assms False in \<open>auto simp: heap_inv_def\<close>)
  ultimately show ?thesis by (simp add: box_valid_def box_deref_mut_def)
qed

lemma bump_ok_deref_mut [simp]: "bump_ok (box_deref_mut bx v b) = bump_ok b"
  by (simp add: box_deref_mut_def)

lemma box_drop_bump [simp]: "fst (box_drop d bx (b, w)) = b"
  by (simp add: box_drop_def)

section \<open>Every operation keeps the invariant and refines the list of objects\<close>

lemma heap_step_alloc:
  assumes inv: "heap_inv h" and pre: "heap_pre h (Op_Alloc T v)"
    and st: "heap_step h (Op_Alloc T v) = Inr h'"
  shows "heap_inv h'" and "heap_objects h' = heap_objects h @ [v]"
proof -
  from st obtain bx b' where a: "alloc T v (h_bump h) = Inr (bx, b')"
    and h': "h' = \<lparr>h_bump = b', h_boxes = h_boxes h @ [bx]\<rparr>"
    by (auto simp: and_then_Inr_iff)
  from inv have ok: "bump_ok (h_bump h)"
    and val: "\<forall>bx \<in> set (h_boxes h). box_valid (h_bump h) bx"
    and ap: "slots_apart (map box_slot (h_boxes h))"
    by (auto simp: heap_inv_def)
  from pre have T: "wf_layout T" "length v = lsize T" by auto
  note new = alloc_box [OF ok T a]
  have old: "box_deref b' by = box_deref (h_bump h) by" if "by \<in> set (h_boxes h)" for "by"
    using val that by (intro alloc_other [OF ok T a]) (auto simp: box_valid_def)
  have "box_valid b' by" if "by \<in> set (h_boxes h)" for "by"
    using val that by (intro box_valid_mono [OF _ new(2) old]) auto
  moreover have "slots_apart (map box_slot (h_boxes h) @ [box_slot bx])"
    using ap val new(5) unfolding box_slot_def slots_apart_snoc
    by (fastforce simp: box_valid_def)
  ultimately show "heap_inv h'" using new(1,3) by (auto simp: heap_inv_def h')
  show "heap_objects h' = heap_objects h @ [v]"
    using old new(4) by (simp add: heap_objects_def h' o_def)
qed

lemma heap_step_write:
  assumes inv: "heap_inv h" and pre: "heap_pre h (Op_Write i v)"
    and st: "heap_step h (Op_Write i v) = Inr h'"
  shows "heap_inv h'" and "heap_objects h' = (heap_objects h)[i := v]"
proof -
  let ?b = "box_deref_mut (h_boxes h ! i) v (h_bump h)"
  from st have h': "h' = h\<lparr>h_bump := ?b\<rparr>" by simp
  from pre have i: "i < length (h_boxes h)" and v: "length v = lsize (bx_layout (h_boxes h ! i))"
    by auto
  have "box_valid ?b bx" if "bx \<in> set (h_boxes h)" for bx
    using that write_valid [OF inv i _ v] by (auto simp: in_set_conv_nth)
  then show "heap_inv h'" using inv by (auto simp: heap_inv_def h')
  have "box_valid (h_bump h) (h_boxes h ! i)" using inv i by (simp add: heap_inv_def)
  note same = write_same [OF this v]
  have other: "box_deref ?b (h_boxes h ! j) = box_deref (h_bump h) (h_boxes h ! j)"
    if "j < length (h_boxes h)" "j \<noteq> i" for j
    using inv that v i by (intro write_other) (auto simp: heap_inv_def)
  show "heap_objects h' = (heap_objects h)[i := v]"
    using i same other
    by (intro nth_equalityI) (auto simp: heap_objects_def h' nth_list_update o_def)
qed

lemma heap_step_drop:
  assumes inv: "heap_inv h" and st: "heap_step h (Op_Drop i) = Inr h'"
  shows "heap_inv h'"
    and "heap_objects h' = take i (heap_objects h) @ drop (Suc i) (heap_objects h)"
proof -
  from st have h': "h' = h\<lparr>h_boxes := take i (h_boxes h) @ drop (Suc i) (h_boxes h)\<rparr>"
    by simp
  have "slots_apart (map box_slot (take i (h_boxes h) @ drop (Suc i) (h_boxes h)))"
    using slots_apart_delete [of "map box_slot (h_boxes h)" i] inv
    by (simp add: heap_inv_def take_map drop_map)
  with inv show "heap_inv h'"
    by (auto simp: heap_inv_def h' dest: in_set_takeD in_set_dropD)
  show "heap_objects h' = take i (heap_objects h) @ drop (Suc i) (heap_objects h)"
    by (simp add: heap_objects_def h' take_map drop_map)
qed

lemma heap_step_reset:
  assumes "heap_inv h" and "heap_pre h Op_Reset" and "heap_step h Op_Reset = Inr h'"
  shows "heap_inv h'" and "heap_objects h' = heap_objects h"
  using assms by (auto simp: heap_inv_def heap_objects_def bump_reset_ok)

lemma heap_step_sound:
  assumes "heap_inv h" and "heap_pre h x" and "heap_step h x = Inr h'"
  shows "heap_inv h' \<and> heap_objects h' = objects_step (heap_objects h) x"
proof (cases x)
  case (Op_Alloc T v)
  with assms heap_step_alloc [of h T v h'] show ?thesis by simp
next
  case (Op_Write i v)
  with assms heap_step_write [of h i v h'] show ?thesis by simp
next
  case (Op_Drop i)
  with assms heap_step_drop [of h i h'] show ?thesis by simp
next
  case Op_Reset
  with assms heap_step_reset [of h h'] show ?thesis by simp
qed

interpretation heap: op_refinement heap_step heap_pre heap_inv heap_objects objects_step
  by unfold_locales (use heap_step_sound in blast)+

definition heap_init :: "nat \<Rightarrow> nat \<Rightarrow> heap" where
  "heap_init base N = \<lparr>h_bump = bump_init base N, h_boxes = []\<rparr>"

lemma heap_init_inv: "base + N \<le> usize_max \<Longrightarrow> heap_inv (heap_init base N)"
  by (simp add: heap_inv_def heap_init_def bump_init_ok slots_apart_def)

lemma heap_init_objects [simp]: "heap_objects (heap_init base N) = []"
  by (simp add: heap_objects_def heap_init_def)

lemma heap_inv_disjoint:
  assumes "heap_inv h" and "i < length (h_boxes h)" and "j < length (h_boxes h)" and "i \<noteq> j"
  shows "slot_range (bx_ptr (h_boxes h ! i)) (bx_layout (h_boxes h ! i)) \<inter>
         slot_range (bx_ptr (h_boxes h ! j)) (bx_layout (h_boxes h ! j)) = {}"
  by (rule slots_apart_nth [of "map box_slot (h_boxes h)" i j])
    (use assms in \<open>simp_all add: heap_inv_def box_slot_def\<close>)

end
