(* ===== verification/Bump_Spec.thy ===== *)
theory Bump_Spec
  imports Bump_Heap
begin

text \<open>
  What the bump allocator promises to the stack: the exact outcome of a reservation, the
  separation and integrity of live boxes over any use of the allocator, re-entrant
  construction, the only panic, and how much arena a list of allocations needs.
\<close>

lemmas bump_eval =
  alloc_def alloc_with_def reserve_def align_min_def align_to_def align_pad_def Let_def
  slice_to_def split_at_mut_def check_that_def usize_max_def box_deref_mut_def write_slot_def
  box_drop_def heap_init_def bump_init_def bump_new_def wf_layout_def bump_ok_def

section \<open>Reservation\<close>

text \<open>
  C17. A reservation from an allocator in order succeeds exactly when the object with the
  padding its alignment asks for fits into the rest of the arena; the slot is the first
  aligned address past everything handed out, the offset moves past the object, and
  nothing else changes. Otherwise it is the documented panic - never one of the
  assertions, slice bounds or subtractions on the way.
\<close>

theorem reserve_exact:
  assumes "bump_ok b"
  shows "reserve T b =
    (let a = b_base b + b_offset b;
         n = (if lsize T = 0 then 0 else align_pad T a + lsize T)
     in if n \<le> b_size b - b_offset b
        then Inr (if lsize T = 0 then Dangling else Addr (a + align_pad T a),
                  b\<lparr>b_offset := b_offset b + n\<rparr>)
        else Inl Out_Of_Bump_Memory)"
  unfolding reserve_closed [OF assms] need_def reserve_ptr_def Let_def ..

theorem reserve_exact_witness:
  "reserve \<lparr>lsize = 8, lalign = 8\<rparr> ((bump_new 65539 64)\<lparr>b_offset := 3\<rparr>) =
     Inr (Addr 65544, (bump_new 65539 64)\<lparr>b_offset := 13\<rparr>) \<and>
   reserve \<lparr>lsize = 64, lalign = 8\<rparr> (bump_new 65539 64) = Inl Out_Of_Bump_Memory"
proof -
  have "bump_ok ((bump_new 65539 64)\<lparr>b_offset := 3\<rparr>)" and "bump_ok (bump_new 65539 64)"
    by (simp_all add: bump_eval)
  from reserve_exact [OF this(1), of "\<lparr>lsize = 8, lalign = 8\<rparr>"]
    reserve_exact [OF this(2), of "\<lparr>lsize = 64, lalign = 8\<rparr>"]
  show ?thesis by (simp add: bump_new_def align_pad_def Let_def)
qed

section \<open>The heap of boxes\<close>

definition sample_ops :: "heap_op list" where
  "sample_ops =
     [Op_Alloc \<lparr>lsize = 3, lalign = 1\<rparr> [1, 1, 1],
      Op_Alloc \<lparr>lsize = 8, lalign = 8\<rparr> [2, 0, 0, 0, 0, 0, 0, 0],
      Op_Write 0 [1, 10, 1],
      Op_Alloc \<lparr>lsize = 10, lalign = 2\<rparr> [3, 0, 3, 0, 3, 0, 3, 0, 3, 0],
      Op_Write 1 [3, 0, 0, 0, 0, 0, 0, 0],
      Op_Write 0 [1, 10, 20]]"

lemma sample_ops_allowed: "ops_allowed heap_step heap_pre (heap_init 65539 64) sample_ops"
  by (simp add: sample_ops_def bump_eval)

lemma sample_ops_run: "\<exists>h. run_ops heap_step (heap_init 65539 64) sample_ops = Inr h"
  by (simp add: sample_ops_def bump_eval)

text \<open>
  C16. Whatever safe callers do - allocate, write through a box, drop a box, and reset
  once no box is left - the objects they read back through their boxes are those of a
  plain list of objects under the same operations: an allocation appends its object, a
  write changes exactly the object written, a drop removes exactly one.
\<close>

theorem heap_refines_objects:
  assumes "base + N \<le> usize_max"
    and "ops_allowed heap_step heap_pre (heap_init base N) xs"
    and "run_ops heap_step (heap_init base N) xs = Inr h"
  shows "heap_objects h = foldl objects_step [] xs"
  using heap.run_abs [OF heap_init_inv [OF assms(1)] assms(2,3)] by simp

theorem heap_refines_objects_witness:
  "\<exists>h. run_ops heap_step (heap_init 65539 64) sample_ops = Inr h \<and>
       heap_objects h =
         [[1, 10, 20], [3, 0, 0, 0, 0, 0, 0, 0], [3, 0, 3, 0, 3, 0, 3, 0, 3, 0]]"
proof -
  obtain h where h: "run_ops heap_step (heap_init 65539 64) sample_ops = Inr h"
    using sample_ops_run ..
  have "65539 + 64 \<le> usize_max" by (simp add: usize_max_def)
  from heap_refines_objects [OF this sample_ops_allowed h] h show ?thesis
    by (auto simp: sample_ops_def)
qed

text \<open>
  C18. In every state such callers can reach, each live box is aligned for its type, lies
  inside the part of the arena already handed out, is fully initialized, and no two live
  boxes share a byte.
\<close>

theorem heap_boxes_separate:
  assumes "base + N \<le> usize_max"
    and "ops_allowed heap_step heap_pre (heap_init base N) xs"
    and "run_ops heap_step (heap_init base N) xs = Inr h"
  shows "(\<forall>bx \<in> set (h_boxes h). box_valid (h_bump h) bx) \<and>
    (\<forall>i < length (h_boxes h). \<forall>j < length (h_boxes h). i \<noteq> j \<longrightarrow>
       slot_range (bx_ptr (h_boxes h ! i)) (bx_layout (h_boxes h ! i)) \<inter>
       slot_range (bx_ptr (h_boxes h ! j)) (bx_layout (h_boxes h ! j)) = {})"
proof -
  have "heap_inv h" by (rule heap.run_inv [OF heap_init_inv [OF assms(1)] assms(2,3)])
  then show ?thesis using heap_inv_disjoint by (auto simp: heap_inv_def)
qed

theorem heap_boxes_separate_witness:
  "\<exists>h. run_ops heap_step (heap_init 65539 64) sample_ops = Inr h \<and>
       length (h_boxes h) = 3 \<and> (\<forall>bx \<in> set (h_boxes h). box_valid (h_bump h) bx)"
proof -
  obtain h where h: "run_ops heap_step (heap_init 65539 64) sample_ops = Inr h"
    using sample_ops_run ..
  have u: "65539 + 64 \<le> usize_max" by (simp add: usize_max_def)
  have "length (h_boxes h) = 3" using h by (auto simp: sample_ops_def bump_eval)
  with h heap_boxes_separate [OF u sample_ops_allowed h] show ?thesis by blast
qed

lemma heap_step_panic:
  assumes "heap_inv h" and "heap_step h x = Inl p"
  shows "p = Out_Of_Bump_Memory"
proof (cases x)
  case (Op_Alloc T v)
  with assms reserve_closed [of "h_bump h" T] show ?thesis
    by (auto simp: heap_inv_def alloc_def alloc_with_def and_then_Inl_iff split: if_splits)
qed (use assms in auto)

lemma heap_run_panic:
  "heap_inv h \<Longrightarrow> ops_allowed heap_step heap_pre h xs \<Longrightarrow> run_ops heap_step h xs = Inl p \<Longrightarrow>
   p = Out_Of_Bump_Memory"
proof (induction xs arbitrary: h)
  case Nil
  then show ?case by simp
next
  case (Cons x xs)
  show ?case
  proof (cases "heap_step h x")
    case (Inl q)
    with Cons.prems heap_step_panic [OF Cons.prems(1) Inl] show ?thesis by simp
  next
    case (Inr t)
    with Cons.prems have "heap_inv t" and "ops_allowed heap_step heap_pre t xs"
      and "run_ops heap_step t xs = Inl p"
      by (auto intro: heap.step_inv)
    then show ?thesis by (rule Cons.IH)
  qed
qed

text \<open>
  The only panic that callers who keep to the preconditions can meet is the documented
  one for lack of bump memory: no assertion of \<open>align_min\<close>, no slice index and no
  arithmetic of the allocator ever fails.
\<close>

theorem heap_only_panic:
  assumes "base + N \<le> usize_max"
    and "ops_allowed heap_step heap_pre (heap_init base N) xs"
    and "run_ops heap_step (heap_init base N) xs = Inl p"
  shows "p = Out_Of_Bump_Memory"
  by (rule heap_run_panic [OF heap_init_inv [OF assms(1)] assms(2,3)])

theorem heap_only_panic_witness:
  "run_ops heap_step (heap_init 65539 8) sample_ops = Inl Out_Of_Bump_Memory"
proof -
  have u: "65539 + 8 \<le> usize_max" by (simp add: usize_max_def)
  have a: "ops_allowed heap_step heap_pre (heap_init 65539 8) sample_ops"
    by (simp add: sample_ops_def bump_eval)
  obtain p where r: "run_ops heap_step (heap_init 65539 8) sample_ops = Inl p"
    by (simp add: sample_ops_def bump_eval)
  from heap_only_panic [OF u a r] r show ?thesis by simp
qed

section \<open>Re-entrant construction\<close>

text \<open>
  The contract of a constructing closure: it leaves the allocator in order, hands out at
  most new memory, and does not write into memory handed out before it was called.
\<close>

definition constructor_ok :: "layout \<Rightarrow> constructor \<Rightarrow> bool" where
  "constructor_ok T f \<longleftrightarrow>
     (\<forall>b v b'. bump_ok b \<longrightarrow> f b = Inr (v, b') \<longrightarrow>
        length v = lsize T \<and> bump_ok b' \<and> bump_region b \<subseteq> bump_region b' \<and>
        (\<forall>x \<in> bump_region b. b_mem b' x = b_mem b x))"

lemma write_slot_mem:
  "x \<notin> slot_range p T \<Longrightarrow> length v = lsize T \<Longrightarrow> b_mem (write_slot p v b) x = b_mem b x"
  by (cases p) (auto simp: write_slot_def store_bytes_apply)

text \<open>
  C38. A closure that builds its object may itself allocate from the same arena (it runs
  outside the allocator lock): the object it returns ends up, intact, in an aligned slot
  of its own, and every byte handed out earlier or by the closure itself keeps its value.
\<close>

theorem alloc_with_reentrant:
  assumes "bump_ok b" and "wf_layout T" and "constructor_ok T f"
    and "alloc_with T f b = Inr (bx, b')"
  shows "bump_ok b' \<and> bump_region b \<subseteq> bump_region b' \<and> slot_aligned (bx_ptr bx) T \<and>
    slot_range (bx_ptr bx) T \<inter> bump_region b = {} \<and>
    (\<exists>b1 b2 v. reserve T b = Inr (bx_ptr bx, b1) \<and> f b1 = Inr (v, b2) \<and>
       box_deref b' bx = map Some v \<and>
       (\<forall>x \<in> bump_region b. b_mem b' x = b_mem b x) \<and>
       (\<forall>x \<in> bump_region b2 - slot_range (bx_ptr bx) T. b_mem b' x = b_mem b2 x))"
proof -
  from assms(4) obtain p b1 v b2 where r: "reserve T b = Inr (p, b1)"
    and f: "f b1 = Inr (v, b2)" and bx: "bx = \<lparr>bx_ptr = p, bx_layout = T\<rparr>"
    and b': "b' = write_slot p v b2"
    by (auto simp: alloc_with_def and_then_Inr_iff)
  note g = arena.get_ok [OF assms(1) r] arena.get_fresh [OF assms(1) r]
    arena.get_inside [OF assms(1) r] arena.get_aligned [OF assms(1,2) r]
    reserve_frame [OF assms(1) r]
  have c: "length v = lsize T" "bump_ok b2" "bump_region b1 \<subseteq> bump_region b2"
    "\<forall>x \<in> bump_region b1. b_mem b2 x = b_mem b1 x"
    using assms(3) g(1) f unfolding constructor_ok_def by blast+
  have "box_deref b' bx = map Some v"
    using c(1) g(4) by (simp add: box_deref_def bx b' read_slot_write)
  moreover have "b_mem b' x = b_mem b x" if "x \<in> bump_region b" for x
  proof -
    from that g(2,3) have "x \<notin> slot_range p T" "x \<in> bump_region b1" by auto
    with c(1,4) g(5) show ?thesis by (simp add: b' write_slot_mem)
  qed
  moreover have "b_mem b' x = b_mem b2 x" if "x \<notin> slot_range p T" for x
    using that c(1) by (simp add: b' write_slot_mem)
  ultimately show ?thesis using r f c(2,3) g(2-4) by (auto simp: bx b')
qed

text \<open>A closure that allocates a nested object first is within the contract.\<close>

definition nested_ctor :: constructor where
  "nested_ctor b =
     and_then (alloc \<lparr>lsize = 4, lalign = 4\<rparr> [9, 9, 9, 9] b) (\<lambda>(bx, b'). Inr ([7, 7], b'))"

lemma nested_ctor_ok: "constructor_ok \<lparr>lsize = 2, lalign = 2\<rparr> nested_ctor"
proof -
  let ?U = "\<lparr>lsize = 4, lalign = 4\<rparr>"
  have "length v = 2 \<and> bump_ok b' \<and> bump_region b \<subseteq> bump_region b' \<and>
      (\<forall>x \<in> bump_region b. b_mem b' x = b_mem b x)"
    if ok: "bump_ok b" and n: "nested_ctor b = Inr (v, b')" for b v b'
  proof -
    from n obtain bx where a: "alloc ?U [9, 9, 9, 9] b = Inr (bx, b')" and v: "v = [7, 7]"
      by (auto simp: nested_ctor_def and_then_Inr_iff)
    from a obtain p b1 where r: "reserve ?U b = Inr (p, b1)" and b': "b' = write_slot p [9, 9, 9, 9] b1"
      by (auto simp: alloc_Inr)
    have "b_mem b' x = b_mem b x" if "x \<in> bump_region b" for x
      using that arena.get_fresh [OF ok r] reserve_frame [OF ok r]
      by (auto simp: b' intro: write_slot_mem [of _ p ?U, THEN trans])
    with alloc_box [OF ok _ _ a] show ?thesis by (simp add: v wf_layout_def)
  qed
  then show ?thesis by (simp add: constructor_ok_def)
qed

theorem alloc_with_reentrant_witness:
  "\<exists>bx b'. alloc_with \<lparr>lsize = 2, lalign = 2\<rparr> nested_ctor (bump_init 64 16) = Inr (bx, b') \<and>
     bump_ok b' \<and> slot_aligned (bx_ptr bx) \<lparr>lsize = 2, lalign = 2\<rparr>"
proof -
  have ok: "bump_ok (bump_init 64 16)" by (simp add: bump_eval)
  have wf: "wf_layout \<lparr>lsize = 2, lalign = 2\<rparr>" by (simp add: wf_layout_def)
  obtain bx b' where a:
    "alloc_with \<lparr>lsize = 2, lalign = 2\<rparr> nested_ctor (bump_init 64 16) = Inr (bx, b')"
    by (simp add: nested_ctor_def bump_eval)
  from alloc_with_reentrant [OF ok wf nested_ctor_ok a] a show ?thesis by blast
qed

section \<open>Capacity\<close>

text \<open>
  A list of allocations succeeds exactly when the padded sizes, each padding taken at
  the address the allocation starts from, fit into the rest of the arena; in particular
  it never panics when the rest of the arena has room for every size plus the largest
  padding of its alignment.
\<close>

theorem allocations_fit_iff:
  assumes "bump_ok b" and "\<forall>T \<in> set Ts. wf_layout T"
  shows "(isl (take_slots reserve Ts b) \<longleftrightarrow>
            b_size b - b_offset b < total_need Ts (b_base b + b_offset b)) \<and>
    ((\<Sum>T \<leftarrow> Ts. if lsize T = 0 then 0 else lsize T + lalign T - 1) \<le> b_size b - b_offset b
       \<longrightarrow> \<not> isl (take_slots reserve Ts b))"
proof -
  have "isl (take_slots reserve Ts b) \<longleftrightarrow>
      b_size b - b_offset b < total_need Ts (b_base b + b_offset b)"
  proof
    assume "isl (take_slots reserve Ts b)"
    with take_slots_reserve [OF assms(1), of Ts]
    show "b_size b - b_offset b < total_need Ts (b_base b + b_offset b)" by auto
  next
    assume lt: "b_size b - b_offset b < total_need Ts (b_base b + b_offset b)"
    show "isl (take_slots reserve Ts b)"
    proof (rule ccontr)
      assume "\<not> isl (take_slots reserve Ts b)"
      with take_slots_reserve [OF assms(1), of Ts] obtain ps where
        r: "take_slots reserve Ts b =
          Inr (ps, b\<lparr>b_offset := b_offset b + total_need Ts (b_base b + b_offset b)\<rparr>)"
        by auto
      from arena.take_slots_grow [OF assms(1) r] lt show False by (auto simp: bump_ok_def)
    qed
  qed
  with total_need_bound [OF assms(2), of "b_base b + b_offset b"] show ?thesis by auto
qed

theorem allocations_fit_iff_witness:
  "\<not> isl (take_slots reserve (replicate 16 \<lparr>lsize = 4, lalign = 4\<rparr>) (bump_new 64 64)) \<and>
   isl (take_slots reserve (replicate 16 \<lparr>lsize = 4, lalign = 4\<rparr>) (bump_new 66 64))"
proof -
  let ?T = "\<lparr>lsize = 4, lalign = 4\<rparr>"
  have ok: "bump_ok (bump_new 64 64)" "bump_ok (bump_new 66 64)" by (simp_all add: bump_eval)
  have wf: "\<forall>T \<in> set (replicate 16 ?T). wf_layout T" by (simp add: wf_layout_def)
  have "total_need (replicate 16 ?T) 64 = 64"
    using total_need_replicate [of ?T 64 16] by (simp add: wf_layout_def)
  moreover have "total_need (replicate 16 ?T) 66 = 66"
  proof -
    have "replicate 16 ?T = ?T # replicate 15 ?T" by (simp add: numeral_eq_Suc)
    moreover have "total_need (replicate 15 ?T) 72 = 60"
      using total_need_replicate [of ?T 72 15] by (simp add: wf_layout_def)
    ultimately show ?thesis by (simp add: need_def align_pad_def)
  qed
  ultimately show ?thesis
    using allocations_fit_iff [OF ok(1) wf] allocations_fit_iff [OF ok(2) wf]
    by (simp add: bump_new_def)
qed

lemma take_slots_same_arena:
  assumes "bump_ok b1" and "b_base b1 = b_base b2" and "b_size b1 = b_size b2"
    and "b_offset b1 = b_offset b2"
  shows "map_sum id fst (take_slots reserve Ts b1) = map_sum id fst (take_slots reserve Ts b2)"
  using assms
proof (induction Ts arbitrary: b1 b2)
  case Nil
  then show ?case by simp
next
  case (Cons T Ts)
  have ok2: "bump_ok b2" using Cons.prems by (simp add: bump_ok_def)
  let ?n = "need T (b_base b1 + b_offset b1)"
  show ?case
  proof (cases "?n \<le> b_size b1 - b_offset b1")
    case True
    let ?c1 = "b1\<lparr>b_offset := b_offset b1 + ?n\<rparr>" and ?c2 = "b2\<lparr>b_offset := b_offset b1 + ?n\<rparr>"
    have r: "reserve T b1 = Inr (reserve_ptr T (b_base b1 + b_offset b1), ?c1)"
      "reserve T b2 = Inr (reserve_ptr T (b_base b1 + b_offset b1), ?c2)"
      using True Cons.prems by (simp_all add: reserve_closed ok2)
    have "map_sum id fst (take_slots reserve Ts ?c1) = map_sum id fst (take_slots reserve Ts ?c2)"
      using Cons.prems by (intro Cons.IH reserve_ok [OF _ r(1)]) simp_all
    then show ?thesis
      by (cases "take_slots reserve Ts ?c1"; cases "take_slots reserve Ts ?c2") (auto simp: r)
  next
    case False
    with Cons.prems show ?thesis by (simp add: reserve_closed ok2)
  qed
qed

text \<open>
  After a reset the allocator behaves as a new one of the same arena: any list of
  allocations gets the very same slots, or fails, as it would from a new allocator.
\<close>

theorem reset_makes_available:
  assumes "bump_ok b"
  shows "map_sum id fst (take_slots reserve Ts (bump_reset b)) =
         map_sum id fst (take_slots reserve Ts (bump_new (b_base b) (b_size b)))"
  by (rule take_slots_same_arena)
    (use bump_reset_ok [OF assms] in \<open>simp_all add: bump_reset_def bump_new_def\<close>)

theorem reset_makes_available_witness:
  "map_sum id fst (take_slots reserve [\<lparr>lsize = 8, lalign = 8\<rparr>] (bump_reset ((bump_new 64 8)\<lparr>b_offset := 8\<rparr>)))
   = Inr [(Addr 64, \<lparr>lsize = 8, lalign = 8\<rparr>)]"
proof -
  have ok: "bump_ok ((bump_new 64 8)\<lparr>b_offset := 8\<rparr>)" by (simp add: bump_eval)
  have "map_sum id fst (take_slots reserve [\<lparr>lsize = 8, lalign = 8\<rparr>] (bump_new 64 8)) =
      Inr [(Addr 64, \<lparr>lsize = 8, lalign = 8\<rparr>)]"
    by (simp add: bump_eval)
  with reset_makes_available [OF ok, of "[\<lparr>lsize = 8, lalign = 8\<rparr>]"] show ?thesis
    by (simp add: bump_new_def)
qed

end
