(* ===== verification/Reseeding.thy ===== *)
theory Reseeding
  imports Stack_Base
begin

text \<open>
  The reseeding generator of \<^verbatim>\<open>src/src/rand/reseeding.rs\<close> and its constructor in
  \<^verbatim>\<open>src/src/rand.rs\<close>. The wrapped generator (\<open>'r\<close>), the reseeder (\<open>'t\<close>) and the
  seeding of one from the other are code of other crates: \<open>seed\<close> stands for
  \<open>R::try_from_rng(&mut reseeder)\<close>, \<open>gen\<close> for a generating call on the wrapped generator.
  The byte counter is a signed 64-bit word, as in the code; the lemmas show it never
  wraps and that it implements a plain count of the bytes since the last reseed.
\<close>

section \<open>The generator\<close>

record ('r, 't) reseeding_rng =
  rr_inner :: 'r
  rr_reseeder :: 't
  rr_threshold :: "64 word"
  rr_until :: "64 word"

type_synonym ('r, 't, 'e) seeder = "'t \<Rightarrow> ('e + 'r) \<times> 't"

definition i64_max :: "64 word" where
  "i64_max = 0x7FFFFFFFFFFFFFFF"

definition rng_new ::
    "('r, 't, 'e) seeder \<Rightarrow> 64 word \<Rightarrow> 't \<Rightarrow> 'e + ('r, 't) reseeding_rng" where
  "rng_new seed threshold reseeder =
     (let threshold = (if threshold = 0 \<or> i64_max < threshold then i64_max else threshold)
      in case seed reseeder of
           (Inl e, _) \<Rightarrow> Inl e
         | (Inr inner, reseeder) \<Rightarrow>
             Inr \<lparr>rr_inner = inner, rr_reseeder = reseeder,
                  rr_threshold = threshold, rr_until = threshold\<rparr>)"

definition reseed ::
    "('r, 't, 'e) seeder \<Rightarrow> ('r, 't) reseeding_rng \<Rightarrow> ('e + unit) \<times> ('r, 't) reseeding_rng" where
  "reseed seed g =
     (case seed (rr_reseeder g) of
        (Inl e, t) \<Rightarrow> (Inl e, g\<lparr>rr_reseeder := t\<rparr>)
      | (Inr r, t) \<Rightarrow>
          (Inr (), g\<lparr>rr_inner := r, rr_reseeder := t, rr_until := rr_threshold g\<rparr>))"

definition reseed_at_threshold ::
    "('r, 't, 'e) seeder \<Rightarrow> ('r, 't) reseeding_rng \<Rightarrow> ('r, 't) reseeding_rng" where
  "reseed_at_threshold seed g =
     (case reseed seed g of
        (Inl e, g) \<Rightarrow> g\<lparr>rr_until := rr_threshold g\<rparr>
      | (Inr _, g) \<Rightarrow> g)"

definition before_generate ::
    "('r, 't, 'e) seeder \<Rightarrow> 64 word \<Rightarrow> ('r, 't) reseeding_rng \<Rightarrow> ('r, 't) reseeding_rng" where
  "before_generate seed num_bytes g =
     (let g = (if rr_until g \<le>s 0 then reseed_at_threshold seed g else g)
      in g\<lparr>rr_until := rr_until g - num_bytes\<rparr>)"

text \<open>The three generating calls differ in the bytes they account for and in the call they forward.\<close>

definition forward ::
    "('r \<Rightarrow> 'o \<times> 'r) \<Rightarrow> ('r, 't) reseeding_rng \<Rightarrow> 'o \<times> ('r, 't) reseeding_rng" where
  "forward gen g = (case gen (rr_inner g) of (out, r) \<Rightarrow> (out, g\<lparr>rr_inner := r\<rparr>))"

definition try_next_u32 ::
    "('r, 't, 'e) seeder \<Rightarrow> ('r \<Rightarrow> ('x + 32 word) \<times> 'r) \<Rightarrow> ('r, 't) reseeding_rng \<Rightarrow>
     ('x + 32 word) \<times> ('r, 't) reseeding_rng" where
  "try_next_u32 seed gen g = forward gen (before_generate seed 4 g)"

definition try_next_u64 ::
    "('r, 't, 'e) seeder \<Rightarrow> ('r \<Rightarrow> ('x + 64 word) \<times> 'r) \<Rightarrow> ('r, 't) reseeding_rng \<Rightarrow>
     ('x + 64 word) \<times> ('r, 't) reseeding_rng" where
  "try_next_u64 seed gen g = forward gen (before_generate seed 8 g)"

definition try_fill_bytes ::
    "('r, 't, 'e) seeder \<Rightarrow> (8 word list \<Rightarrow> 'r \<Rightarrow> (('x + unit) \<times> 8 word list) \<times> 'r) \<Rightarrow>
     8 word list \<Rightarrow> ('r, 't) reseeding_rng \<Rightarrow>
     (('x + unit) \<times> 8 word list) \<times> ('r, 't) reseeding_rng" where
  "try_fill_bytes seed gen dest g =
     forward (gen dest) (before_generate seed (word_of_nat (length dest)) g)"

definition rng_clone ::
    "('r \<Rightarrow> 'r) \<Rightarrow> ('t \<Rightarrow> 't) \<Rightarrow> ('r, 't) reseeding_rng \<Rightarrow> ('r, 't) reseeding_rng" where
  "rng_clone clone_inner clone_reseeder g =
     \<lparr>rr_inner = clone_inner (rr_inner g), rr_reseeder = clone_reseeder (rr_reseeder g),
      rr_threshold = rr_threshold g, rr_until = 0\<rparr>"

text \<open>\<open>reseeding_csprng\<close>: the wrapped generator is ChaCha12, seeded from the given source.\<close>

definition reseeding_csprng ::
    "('chacha12, 't, 'e) seeder \<Rightarrow> 't \<Rightarrow> 64 word \<Rightarrow> 'e + ('chacha12, 't) reseeding_rng" where
  "reseeding_csprng chacha12_seed trng reseed_threshold =
     rng_new chacha12_seed reseed_threshold trng"

section \<open>The counter as a count of bytes\<close>

text \<open>
  The threshold is positive as a signed number, and the counter never exceeds it. The
  abstraction is the number of bytes generated since the counter was last set.
\<close>

definition rng_inv :: "('r, 't) reseeding_rng \<Rightarrow> bool" where
  "rng_inv g \<longleftrightarrow> 0 < sint (rr_threshold g) \<and> sint (rr_until g) \<le> sint (rr_threshold g)"

definition bytes_used :: "('r, 't) reseeding_rng \<Rightarrow> int" where
  "bytes_used g = sint (rr_threshold g) - sint (rr_until g)"

text \<open>A slice is at most \<open>isize::MAX\<close> bytes long.\<close>

definition request_ok :: "nat \<Rightarrow> bool" where
  "request_ok n \<longleftrightarrow> n < 2 ^ 63"

lemma sint64_bounds: "- (2 ^ 63) \<le> sint (x :: 64 word)" "sint (x :: 64 word) < 2 ^ 63"
  using sint_ge [of x] sint_lt [of x] by simp_all

lemma sint_of_request: "request_ok n \<Longrightarrow> sint (word_of_nat n :: 64 word) = int n"
  by (simp add: request_ok_def sint_uint unsigned_of_nat take_bit_nat_eq_self
      signed_take_bit_int_eq_self_iff signed_take_bit_eq_if_positive
      signed_take_bit_int_eq_self)

lemma sint_minus_exact:
  assumes "- (2 ^ 63) \<le> sint x - sint y" and "sint x - sint y < 2 ^ 63"
  shows "sint (x - y :: 64 word) = sint x - sint y"
proof -
  have "sint (x - y) = signed_take_bit 63 (sint x - sint y)"
    by (simp add: sint_word_ariths)
  with assms show ?thesis by (simp add: signed_take_bit_int_eq_self)
qed

lemma sint_i64_max: "sint i64_max = 2 ^ 63 - 1"
  by (simp add: i64_max_def)

lemma uint_i64_max: "uint i64_max = 2 ^ 63 - 1"
  by (simp add: i64_max_def)

lemma sint_eq_uint_small: "uint (x :: 64 word) < 2 ^ 63 \<Longrightarrow> sint x = uint x"
  unfolding sint_uint by (rule signed_take_bit_int_eq_self) (simp_all add: order_trans [of _ 0])

lemma rng_new_inv:
  assumes "rng_new seed t rs = Inr g"
  shows "rng_inv g" and "bytes_used g = 0"
    and "sint (rr_threshold g) = (if t = 0 \<or> 2 ^ 63 - 1 < uint t then 2 ^ 63 - 1 else uint t)"
proof -
  have lt: "i64_max < t \<longleftrightarrow> 2 ^ 63 - 1 < uint t" by (simp add: word_less_def uint_i64_max)
  have thr: "rr_threshold g = (if t = 0 \<or> i64_max < t then i64_max else t)"
    and un: "rr_until g = rr_threshold g"
    using assms by (auto simp: rng_new_def Let_def split: prod.splits sum.splits)
  show s: "sint (rr_threshold g) = (if t = 0 \<or> 2 ^ 63 - 1 < uint t then 2 ^ 63 - 1 else uint t)"
    using lt by (simp add: thr sint_i64_max sint_eq_uint_small)
  have "t \<noteq> 0 \<Longrightarrow> 0 < uint t" by (simp add: word_neq_0_conv word_less_def)
  with s un show "rng_inv g" by (auto simp: rng_inv_def split: if_splits)
  show "bytes_used g = 0" by (simp add: bytes_used_def un)
qed

lemma reseed_at_threshold_simps [simp]:
  "rr_threshold (reseed_at_threshold seed g) = rr_threshold g"
  "rr_until (reseed_at_threshold seed g) = rr_threshold g"
  by (simp_all add: reseed_at_threshold_def reseed_def split: prod.splits sum.splits)

text \<open>The account of one generating call: whether a reseed is due, and the count after it.\<close>

definition reseed_due :: "('r, 't) reseeding_rng \<Rightarrow> bool" where
  "reseed_due g \<longleftrightarrow> rr_until g \<le>s 0"

lemma reseed_due_iff: "reseed_due g \<longleftrightarrow> sint (rr_threshold g) \<le> bytes_used g"
  by (simp add: reseed_due_def bytes_used_def word_sle_eq)

lemma before_generate_account:
  fixes g :: "('r, 't) reseeding_rng" and seed :: "('r, 't, 'e) seeder"
  assumes "rng_inv g" and "request_ok n"
  defines "g' \<equiv> before_generate seed (word_of_nat n) g"
  shows "sint (rr_until g') =
           (if reseed_due g then sint (rr_threshold g) else sint (rr_until g)) - int n"
    and "rr_threshold g' = rr_threshold g"
    and "rng_inv g'"
    and "bytes_used g' = (if reseed_due g then int n else bytes_used g + int n)"
proof -
  let ?u = "if reseed_due g then rr_threshold g else rr_until g"
  have un: "rr_until g' = ?u - word_of_nat n" and th: "rr_threshold g' = rr_threshold g"
    by (simp_all add: g'_def before_generate_def reseed_due_def Let_def)
  have pos: "0 < sint ?u"
    using assms(1) by (auto simp: rng_inv_def reseed_due_def word_sle_eq)
  have n: "int n < 2 ^ 63" using assms(2) by (simp add: request_ok_def)
  have "sint (?u - word_of_nat n) = sint ?u - int n"
    using pos n sint64_bounds(2) [of ?u]
    by (subst sint_minus_exact) (auto simp: sint_of_request [OF assms(2)])
  with un show eq: "sint (rr_until g') =
      (if reseed_due g then sint (rr_threshold g) else sint (rr_until g)) - int n"
    by simp
  show "rr_threshold g' = rr_threshold g" by (fact th)
  with eq assms(1) show "rng_inv g'" by (auto simp: rng_inv_def)
  from eq show "bytes_used g' = (if reseed_due g then int n else bytes_used g + int n)"
    by (simp add: bytes_used_def th)
qed

lemma forward_account [simp]:
  "rr_until (snd (forward gen g)) = rr_until g"
  "rr_threshold (snd (forward gen g)) = rr_threshold g"
  by (simp_all add: forward_def split: prod.split)

section \<open>Requests\<close>

text \<open>
  A use of the generator as a list of requests: the three generating calls, and a manual
  \<open>reseed\<close>. The generating calls of the wrapped generator are given together.
\<close>

record ('r, 'x) inner_gen =
  gen_u32 :: "'r \<Rightarrow> ('x + 32 word) \<times> 'r"
  gen_u64 :: "'r \<Rightarrow> ('x + 64 word) \<times> 'r"
  gen_fill :: "8 word list \<Rightarrow> 'r \<Rightarrow> (('x + unit) \<times> 8 word list) \<times> 'r"

datatype rng_request = Req_U32 | Req_U64 | Req_Fill "8 word list" | Req_Reseed

fun rng_step ::
    "('r, 't, 'e) seeder \<Rightarrow> ('r, 'x) inner_gen \<Rightarrow> ('r, 't) reseeding_rng \<Rightarrow> rng_request \<Rightarrow>
     panic + ('r, 't) reseeding_rng" where
  "rng_step seed ops g Req_U32 = Inr (snd (try_next_u32 seed (gen_u32 ops) g))"
| "rng_step seed ops g Req_U64 = Inr (snd (try_next_u64 seed (gen_u64 ops) g))"
| "rng_step seed ops g (Req_Fill dest) = Inr (snd (try_fill_bytes seed (gen_fill ops) dest g))"
| "rng_step seed ops g Req_Reseed = Inr (snd (reseed seed g))"

fun request_bytes :: "rng_request \<Rightarrow> nat" where
  "request_bytes Req_U32 = 4"
| "request_bytes Req_U64 = 8"
| "request_bytes (Req_Fill dest) = length dest"
| "request_bytes Req_Reseed = 0"

definition rng_pre :: "('r, 't) reseeding_rng \<Rightarrow> rng_request \<Rightarrow> bool" where
  "rng_pre g q \<longleftrightarrow> request_ok (request_bytes q)"

lemma rng_step_generate:
  assumes "q \<noteq> Req_Reseed" and "rng_step seed ops g q = Inr g'"
  shows "rr_until g' = rr_until (before_generate seed (word_of_nat (request_bytes q)) g)"
    and "rr_threshold g' = rr_threshold (before_generate seed (word_of_nat (request_bytes q)) g)"
  using assms
  by (cases q; auto simp: try_next_u32_def try_next_u64_def try_fill_bytes_def)+

lemma reseed_account:
  assumes "rng_inv g"
  shows "rng_inv (snd (reseed seed g))"
    and "rr_threshold (snd (reseed seed g)) = rr_threshold g"
    and "bytes_used (snd (reseed seed g)) =
         (if isl (fst (reseed seed g)) then bytes_used g else 0)"
  using assms by (auto simp: reseed_def rng_inv_def bytes_used_def split: prod.splits sum.splits)

lemma rng_step_inv:
  assumes "rng_inv g" and "rng_pre g q" and "rng_step seed ops g q = Inr g'"
  shows "rng_inv g' \<and> rr_threshold g' = rr_threshold g"
proof (cases "q = Req_Reseed")
  case True
  with assms reseed_account [OF assms(1), of seed] show ?thesis by auto
next
  case False
  note eq = rng_step_generate [OF False assms(3)]
  note acc = before_generate_account [OF assms(1), of "request_bytes q" seed]
  from acc(2,3) assms(2) eq show ?thesis by (simp add: rng_pre_def rng_inv_def)
qed

interpretation rng: op_machine "rng_step seed ops" rng_pre rng_inv
  for seed ops
  by unfold_locales (use rng_step_inv in blast)

end
