(* ===== verification/Reseeding_Spec.thy ===== *)
theory Reseeding_Spec
  imports Reseeding
begin

text \<open>
  What the reseeding generator promises: it serves requests as a generator that is replaced by a
  fresh one on an exact schedule over unbounded counts of bytes, the signed counter never wraps, a
  failing reseeder never stops generation, and a clone is reseeded on its first use.
\<close>

section \<open>The schedule of reseeds\<close>

text \<open>
  The reference: with a threshold \<open>t\<close> and \<open>u\<close> bytes used since the last reseed, a request
  of \<open>n\<close> bytes is preceded by a reseed exactly when the bytes used have reached the
  threshold.
\<close>

fun schedule :: "int \<Rightarrow> int \<Rightarrow> nat list \<Rightarrow> bool list" where
  "schedule t u [] = []"
| "schedule t u (n # ns) =
     (t \<le> u) # schedule t (if t \<le> u then int n else u + int n) ns"

lemma schedule_quiet:
  "True \<notin> set (schedule t u ns) \<longleftrightarrow> ns = [] \<or> u + int (sum_list (butlast ns)) < t"
proof (induction ns arbitrary: u)
  case Nil
  then show ?case by simp
next
  case (Cons n ns)
  show ?case
  proof (cases "t \<le> u")
    case True
    then show ?thesis by simp
  next
    case False
    then show ?thesis by (auto simp: Cons.IH add.assoc)
  qed
qed

text \<open>The generating calls with what they return.\<close>

datatype 'x rng_response =
    Resp_U32 "'x + 32 word"
  | Resp_U64 "'x + 64 word"
  | Resp_Fill "('x + unit) \<times> 8 word list"
  | Resp_Reseed

fun rng_respond ::
    "('r, 't, 'e) seeder \<Rightarrow> ('r, 'x) inner_gen \<Rightarrow> ('r, 't) reseeding_rng \<Rightarrow> rng_request \<Rightarrow>
     'x rng_response \<times> ('r, 't) reseeding_rng" where
  "rng_respond seed ops g Req_U32 = map_prod Resp_U32 id (try_next_u32 seed (gen_u32 ops) g)"
| "rng_respond seed ops g Req_U64 = map_prod Resp_U64 id (try_next_u64 seed (gen_u64 ops) g)"
| "rng_respond seed ops g (Req_Fill dest) = map_prod Resp_Fill id (try_fill_bytes seed (gen_fill ops) dest g)"
| "rng_respond seed ops g Req_Reseed = (Resp_Reseed, snd (reseed seed g))"

lemma rng_respond_step: "rng_step seed ops g q = Inr (snd (rng_respond seed ops g q))"
  by (cases q) simp_all

fun rng_trace ::
    "('r, 't, 'e) seeder \<Rightarrow> ('r, 'x) inner_gen \<Rightarrow> ('r, 't) reseeding_rng \<Rightarrow> rng_request list \<Rightarrow>
     'x rng_response list \<times> ('r, 't) reseeding_rng" where
  "rng_trace seed ops g [] = ([], g)"
| "rng_trace seed ops g (q # qs) =
     (let (x, g) = rng_respond seed ops g q; (xs, g) = rng_trace seed ops g qs in (x # xs, g))"

text \<open>
  The reference generator serves every request from a wrapped generator by itself. A mark before a
  request is a turn of the reseeder: a seed it gives replaces the wrapped generator, a failure
  leaves it.
\<close>

fun inner_respond :: "('r, 'x) inner_gen \<Rightarrow> 'r \<Rightarrow> rng_request \<Rightarrow> 'x rng_response \<times> 'r" where
  "inner_respond ops r Req_U32 = map_prod Resp_U32 id (gen_u32 ops r)"
| "inner_respond ops r Req_U64 = map_prod Resp_U64 id (gen_u64 ops r)"
| "inner_respond ops r (Req_Fill dest) = map_prod Resp_Fill id (gen_fill ops dest r)"
| "inner_respond ops r Req_Reseed = (Resp_Reseed, r)"

definition reseed_turn :: "('r, 't, 'e) seeder \<Rightarrow> 'r \<times> 't \<Rightarrow> 'r \<times> 't" where
  "reseed_turn seed = (\<lambda>(r, t). case seed t of (Inl _, t') \<Rightarrow> (r, t') | (Inr r', t') \<Rightarrow> (r', t'))"

fun serve_marked ::
    "('r, 't, 'e) seeder \<Rightarrow> ('r, 'x) inner_gen \<Rightarrow> 'r \<times> 't \<Rightarrow> (bool \<times> rng_request) list \<Rightarrow>
     'x rng_response list \<times> 'r \<times> 't" where
  "serve_marked seed ops rt [] = ([], rt)"
| "serve_marked seed ops rt ((due, q) # qs) =
     (let (r, t) = (if due then reseed_turn seed rt else rt);
          (x, r) = inner_respond ops r q;
          (xs, rt) = serve_marked seed ops (r, t) qs
      in (x # xs, rt))"

lemma forward_eq:
  "forward gen g = (fst (gen (rr_inner g)), g\<lparr>rr_inner := snd (gen (rr_inner g))\<rparr>)"
  by (simp add: forward_def split: prod.split)

lemma before_generate_turn:
  "(rr_inner (before_generate seed n g), rr_reseeder (before_generate seed n g)) =
   (if reseed_due g then reseed_turn seed (rr_inner g, rr_reseeder g) else (rr_inner g, rr_reseeder g))"
  by (auto simp: before_generate_def reseed_due_def reseed_at_threshold_def reseed_def reseed_turn_def Let_def
      split: prod.splits sum.splits)

lemma rng_respond_inner:
  assumes "q \<noteq> Req_Reseed" and "rng_respond seed ops g q = (x, g')"
  defines "h \<equiv> before_generate seed (word_of_nat (request_bytes q)) g"
  shows "inner_respond ops (rr_inner h) q = (x, rr_inner g')" and "rr_reseeder g' = rr_reseeder h"
  using assms(1,2) unfolding h_def
  by (cases q; auto simp: try_next_u32_def try_next_u64_def try_fill_bytes_def forward_eq map_prod_def
      split: prod.splits)+

lemma rng_trace_serves:
  assumes "rng_inv g" and "\<forall>q \<in> set qs. q \<noteq> Req_Reseed \<and> request_ok (request_bytes q)"
    and "rng_trace seed ops g qs = (xs, g')"
  shows "serve_marked seed ops (rr_inner g, rr_reseeder g)
      (zip (schedule (sint (rr_threshold g)) (bytes_used g) (map request_bytes qs)) qs) =
    (xs, rr_inner g', rr_reseeder g')"
  using assms
proof (induction qs arbitrary: g xs)
  case Nil
  then show ?case by simp
next
  case (Cons q qs)
  obtain x h where h: "rng_respond seed ops g q = (x, h)" by fastforce
  then obtain ys where r: "rng_trace seed ops h qs = (ys, g')" and xs: "xs = x # ys"
    using Cons.prems(3) by (auto split: prod.splits)
  from Cons.prems have q: "q \<noteq> Req_Reseed" "request_ok (request_bytes q)" by auto
  from rng_respond_step [of seed ops g q] h have st: "rng_step seed ops g q = Inr h" by simp
  note eq = rng_step_generate [OF q(1) st]
  note acc = before_generate_account [OF Cons.prems(1) q(2), of seed]
  have inv: "rng_inv h" using acc(3) eq by (simp add: rng_inv_def)
  have th: "rr_threshold h = rr_threshold g" using acc(2) eq by simp
  have us: "bytes_used h = (if sint (rr_threshold g) \<le> bytes_used g
      then int (request_bytes q) else bytes_used g + int (request_bytes q))"
    using acc(4) eq by (simp add: bytes_used_def reseed_due_iff)
  from Cons.IH [OF inv _ r] Cons.prems(2) have
    "serve_marked seed ops (rr_inner h, rr_reseeder h)
       (zip (schedule (sint (rr_threshold g)) (bytes_used h) (map request_bytes qs)) qs) =
     (ys, rr_inner g', rr_reseeder g')"
    by (simp add: th)
  with us rng_respond_inner [OF q(1) h]
    before_generate_turn [of seed "word_of_nat (request_bytes q)" g, unfolded reseed_due_iff]
  show ?case by (auto simp: xs split: prod.splits if_splits)
qed

text \<open>A sample: a generator that counts up from its seed, and a reseeder that counts the seeds given.\<close>

definition count_seed :: "(64 word, nat, nat) seeder" where
  "count_seed t = (Inr (1000 * word_of_nat t), Suc t)"

definition no_seed :: "(64 word, nat, nat) seeder" where
  "no_seed t = (Inl 7, Suc t)"

definition count_gen :: "(64 word, nat) inner_gen" where
  "count_gen =
     \<lparr>gen_u32 = (\<lambda>r. (Inr (ucast r), r + 1)), gen_u64 = (\<lambda>r. (Inr r, r + 1)),
      gen_fill = (\<lambda>d r. ((Inr (), map (\<lambda>_. ucast r) d), r + 1))\<rparr>"

lemmas rng_eval =
  count_seed_def no_seed_def count_gen_def rng_new_def reseed_def reseed_at_threshold_def
  before_generate_def forward_def try_next_u32_def try_next_u64_def try_fill_bytes_def
  i64_max_def Let_def request_ok_def

text \<open>
  C30. A new generator with a threshold up to \<open>i64::MAX\<close> is, over any list of generating requests,
  a generator that is replaced by a fresh one at the requests that the schedule marks, and at no
  other: every response is the one of the wrapped generator that is in place, from the state its
  own calls have left it in; at a mark the reseeder is asked once, the generator made from its seed
  takes over before the request is served, and a reseeder that fails leaves the old one in place.
  The schedule is the one of the reference over unbounded integers: the bytes since the last mark
  have reached the threshold.
\<close>

theorem reseeds_on_schedule:
  assumes "rng_new seed t rs = Inr g" and "0 < t" and "uint t < 2 ^ 63"
    and "\<forall>q \<in> set qs. q \<noteq> Req_Reseed \<and> request_ok (request_bytes q)"
  shows "\<exists>r rs'. seed rs = (Inr r, rs') \<and>
    (case rng_trace seed ops g qs of
       (xs, g') \<Rightarrow>
         serve_marked seed ops (r, rs') (zip (schedule (uint t) 0 (map request_bytes qs)) qs) =
           (xs, rr_inner g', rr_reseeder g'))"
proof -
  note new = rng_new_inv [OF assms(1)]
  from assms(1) have "seed rs = (Inr (rr_inner g), rr_reseeder g)"
    by (auto simp: rng_new_def Let_def split: prod.splits sum.splits)
  moreover have "sint (rr_threshold g) = uint t" using new(3) assms(2,3) by auto
  ultimately show ?thesis
    using rng_trace_serves [OF new(1) assms(4), of seed ops] new(2) by (auto split: prod.split)
qed

theorem reseeds_on_schedule_witness:
  "\<exists>g. rng_new count_seed 10 0 = Inr g \<and>
     fst (rng_trace count_seed count_gen g [Req_U64, Req_U32, Req_U64, Req_U32, Req_U64]) =
       [Resp_U64 (Inr 0), Resp_U32 (Inr 1), Resp_U64 (Inr 1000), Resp_U32 (Inr 1001), Resp_U64 (Inr 2000)]"
proof -
  obtain g where g: "rng_new count_seed 10 0 = Inr g" by (simp add: rng_eval)
  let ?qs = "[Req_U64, Req_U32, Req_U64, Req_U32, Req_U64]"
  have "\<forall>q \<in> set ?qs. q \<noteq> Req_Reseed \<and> request_ok (request_bytes q)"
    by (simp add: request_ok_def)
  from reseeds_on_schedule [OF g _ _ this, of count_gen] g show ?thesis
    by (cases "rng_trace count_seed count_gen g ?qs")
      (auto simp: count_seed_def count_gen_def reseed_turn_def)
qed

text \<open>
  A threshold of zero is documented as one that never reseeds; it is the largest threshold there is,
  and the generator reseeds after that many bytes.
\<close>

lemma zero_threshold_is_largest: "rng_new seed 0 rs = rng_new seed i64_max rs"
  by (simp add: rng_new_def i64_max_def)

section \<open>The counter\<close>

text \<open>
  The generators a program can hold: a new one, one after a request, a clone of one.
\<close>

inductive reachable_rng ::
    "('r, 't, 'e) seeder \<Rightarrow> ('r, 'x) inner_gen \<Rightarrow> ('r, 't) reseeding_rng \<Rightarrow> bool"
  for seed ops where
  reach_new: "rng_new seed t rs = Inr g \<Longrightarrow> reachable_rng seed ops g"
| reach_step: "reachable_rng seed ops g \<Longrightarrow> rng_pre g q \<Longrightarrow>
     rng_step seed ops g q = Inr g' \<Longrightarrow> reachable_rng seed ops g'"
| reach_clone: "reachable_rng seed ops g \<Longrightarrow> reachable_rng seed ops (rng_clone ci cr g)"

lemma reachable_rng_inv: "reachable_rng seed ops g \<Longrightarrow> rng_inv g"
proof (induction rule: reachable_rng.induct)
  case (reach_new t rs g)
  then show ?case by (rule rng_new_inv)
next
  case (reach_step g q g')
  then show ?case by (blast intro: rng.step_inv)
next
  case (reach_clone g ci cr)
  then show ?case by (simp add: rng_inv_def rng_clone_def)
qed

text \<open>
  C31. In every generator a program can hold, the subtraction on the signed 64-bit
  counter is exact for every request a slice can make: it never wraps, so the counter is
  the threshold minus the bytes used and a reseed is due exactly when it is not positive.
\<close>

theorem counter_never_wraps:
  assumes "reachable_rng seed ops g" and "request_ok n"
  shows "sint (rr_until (before_generate seed (word_of_nat n) g)) =
      (if sint (rr_until g) \<le> 0 then sint (rr_threshold g) else sint (rr_until g)) - int n \<and>
    0 < sint (rr_threshold g) \<and> sint (rr_until g) \<le> sint (rr_threshold g)"
proof -
  have inv: "rng_inv g" by (rule reachable_rng_inv [OF assms(1)])
  then show ?thesis
    using before_generate_account(1) [OF inv assms(2), of seed]
    by (simp add: rng_inv_def reseed_due_def word_sle_eq)
qed

theorem counter_never_wraps_witness:
  "\<exists>g. reachable_rng count_seed count_gen g \<and>
     sint (rr_until (before_generate count_seed (word_of_nat (2 ^ 63 - 1)) g)) = 2 - 2 ^ 63"
proof -
  obtain g where g: "rng_new count_seed 1 0 = Inr g" by (simp add: rng_eval)
  then have r: "reachable_rng count_seed count_gen g" by (rule reach_new)
  have n: "request_ok (2 ^ 63 - 1)" by (simp add: request_ok_def)
  from g have "sint (rr_until g) = 1" by (auto simp: rng_eval)
  with counter_never_wraps [OF r n] have
    "sint (rr_until (before_generate count_seed (word_of_nat (2 ^ 63 - 1)) g)) = 2 - 2 ^ 63"
    by simp
  with r show ?thesis by blast
qed

section \<open>Failing reseeders and clones\<close>

text \<open>
  C32. When a reseed falls due and the reseeder fails, the call still returns what the
  wrapped generator returns from its current state, and the next attempt comes after
  another threshold worth of bytes; a manual reseed that fails reports the error and
  changes neither the wrapped generator nor the counter.
\<close>

theorem reseed_failure_continues:
  assumes "rng_inv g" and "reseed_due g" and "seed (rr_reseeder g) = (Inl e, t)"
  shows "try_next_u64 seed gen g =
      (fst (gen (rr_inner g)),
       g\<lparr>rr_inner := snd (gen (rr_inner g)), rr_reseeder := t,
         rr_until := rr_threshold g - 8\<rparr>) \<and>
    bytes_used (snd (try_next_u64 seed gen g)) = 8 \<and>
    reseed seed g = (Inl e, g\<lparr>rr_reseeder := t\<rparr>)"
proof -
  have "before_generate seed 8 g = g\<lparr>rr_reseeder := t, rr_until := rr_threshold g - 8\<rparr>"
    using assms(2,3)
    by (simp add: before_generate_def reseed_due_def reseed_at_threshold_def reseed_def)
  moreover have "bytes_used (before_generate seed 8 g) = 8"
    using before_generate_account(4) [OF assms(1), of 8 seed] assms(2)
    by (simp add: request_ok_def)
  ultimately show ?thesis using assms(3)
    by (simp add: try_next_u64_def forward_def reseed_def bytes_used_def split: prod.split)
qed

theorem reseed_failure_continues_witness:
  "fst (try_next_u64 no_seed (gen_u64 count_gen)
      \<lparr>rr_inner = 42, rr_reseeder = 3, rr_threshold = 16, rr_until = 0\<rparr>) = Inr 42"
proof -
  let ?g = "\<lparr>rr_inner = 42 :: 64 word, rr_reseeder = 3 :: nat, rr_threshold = 16, rr_until = 0\<rparr>"
  have "rng_inv ?g" and "reseed_due ?g" and "no_seed (rr_reseeder ?g) = (Inl 7, 4)"
    by (simp_all add: rng_inv_def reseed_due_def no_seed_def)
  from reseed_failure_continues [where seed = no_seed and gen = "gen_u64 count_gen", OF this] show ?thesis by (simp add: count_gen_def)
qed

text \<open>
  The first generating call on a clone always goes to the (cloned) reseeder: with a
  seed it returns the first output of a generator made from that seed, and without one it
  returns the very output the original would return next from its own state.
\<close>

theorem clone_first_use:
  assumes "rng_inv g"
  shows "fst (try_next_u64 seed gen (rng_clone ci cr g)) =
    (case seed (cr (rr_reseeder g)) of
       (Inr r, _) \<Rightarrow> fst (gen r)
     | (Inl _, _) \<Rightarrow> fst (gen (ci (rr_inner g)))) \<and>
    rr_reseeder (snd (try_next_u64 seed gen (rng_clone ci cr g))) =
      snd (seed (cr (rr_reseeder g))) \<and>
    bytes_used (snd (try_next_u64 seed gen (rng_clone ci cr g))) = 8"
proof -
  let ?c = "rng_clone ci cr g"
  have inv: "rng_inv ?c" and due: "reseed_due ?c"
    using assms by (simp_all add: rng_inv_def rng_clone_def reseed_due_def)
  have "bytes_used (snd (try_next_u64 seed gen ?c)) = 8"
    using before_generate_account(4) [OF inv, of 8 seed] due
    by (simp add: request_ok_def try_next_u64_def bytes_used_def)
  moreover have "fst (try_next_u64 seed gen ?c) =
      (case seed (cr (rr_reseeder g)) of
         (Inr r, _) \<Rightarrow> fst (gen r) | (Inl _, _) \<Rightarrow> fst (gen (ci (rr_inner g)))) \<and>
    rr_reseeder (snd (try_next_u64 seed gen ?c)) = snd (seed (cr (rr_reseeder g)))"
    by (auto simp: try_next_u64_def forward_def before_generate_def rng_clone_def
        reseed_at_threshold_def reseed_def split: prod.splits sum.splits)
  ultimately show ?thesis by blast
qed

theorem clone_first_use_witness:
  "fst (try_next_u64 count_seed (gen_u64 count_gen) (rng_clone id id
      \<lparr>rr_inner = 42, rr_reseeder = 3, rr_threshold = 16, rr_until = 16\<rparr>)) = Inr 3000 \<and>
   fst (try_next_u64 no_seed (gen_u64 count_gen) (rng_clone id id
      \<lparr>rr_inner = 42, rr_reseeder = 3, rr_threshold = 16, rr_until = 16\<rparr>)) = Inr 42"
proof -
  let ?g = "\<lparr>rr_inner = 42 :: 64 word, rr_reseeder = 3 :: nat, rr_threshold = 16, rr_until = 16\<rparr>"
  have "rng_inv ?g" by (simp add: rng_inv_def)
  from clone_first_use [OF this, of count_seed "gen_u64 count_gen" id id]
    clone_first_use [OF this, of no_seed "gen_u64 count_gen" id id]
  show ?thesis by (simp add: count_gen_def count_seed_def no_seed_def)
qed

end
