(* ===== verification/Rng_Adaptor.thy ===== *)
theory Rng_Adaptor
  imports Reseeding
begin

text \<open>
  \<open>RngAdaptor\<close> of \<^verbatim>\<open>src/src/rand.rs\<close>: a newtype that gives a random source of one version
  of the random-number traits the methods of the other, in both directions. The source
  is a record of the calls the traits have; the interface \<open>rng_view\<close> says that one source
  answers every call as another does on the state seen through it.
\<close>

section \<open>The adaptor\<close>

record ('g, 'e) try_rng =
  t_next_u32 :: "'g \<Rightarrow> ('e + 32 word) \<times> 'g"
  t_next_u64 :: "'g \<Rightarrow> ('e + 64 word) \<times> 'g"
  t_fill_bytes :: "8 word list \<Rightarrow> 'g \<Rightarrow> (('e + unit) \<times> 8 word list) \<times> 'g"

record 'g rng_core =
  c_next_u32 :: "'g \<Rightarrow> 32 word \<times> 'g"
  c_next_u64 :: "'g \<Rightarrow> 64 word \<times> 'g"
  c_fill_bytes :: "8 word list \<Rightarrow> 'g \<Rightarrow> 8 word list \<times> 'g"

datatype 'g rng_adaptor = RngAdaptor 'g

definition adaptor_new :: "'g \<Rightarrow> 'g rng_adaptor" where
  "adaptor_new rng = RngAdaptor rng"

fun into_inner :: "'g rng_adaptor \<Rightarrow> 'g" where
  "into_inner (RngAdaptor rng) = rng"

fun on_inner :: "('g \<Rightarrow> 'o \<times> 'g) \<Rightarrow> 'g rng_adaptor \<Rightarrow> 'o \<times> 'g rng_adaptor" where
  "on_inner f (RngAdaptor rng) = (case f rng of (out, rng) \<Rightarrow> (out, RngAdaptor rng))"

text \<open>\<open>TryRng for RngAdaptor<T>\<close> over a 0.9 source, and \<open>RngCore for RngAdaptor<T>\<close> over a 0.10 one.\<close>

definition adaptor_try_rng :: "('g, 'e) try_rng \<Rightarrow> ('g rng_adaptor, 'e) try_rng" where
  "adaptor_try_rng src =
     \<lparr>t_next_u32 = on_inner (t_next_u32 src),
      t_next_u64 = on_inner (t_next_u64 src),
      t_fill_bytes = (\<lambda>dest. on_inner (t_fill_bytes src dest))\<rparr>"

definition adaptor_rng_core :: "'g rng_core \<Rightarrow> 'g rng_adaptor rng_core" where
  "adaptor_rng_core src =
     \<lparr>c_next_u32 = on_inner (c_next_u32 src),
      c_next_u64 = on_inner (c_next_u64 src),
      c_fill_bytes = (\<lambda>dest. on_inner (c_fill_bytes src dest))\<rparr>"

section \<open>Sources seen through another\<close>

datatype rng_call = Call_U32 | Call_U64 | Call_Fill "8 word list"

datatype 'e rng_answer = Answer_U32 "'e + 32 word" | Answer_U64 "'e + 64 word"
  | Answer_Fill "('e + unit) \<times> 8 word list"

fun ask :: "('g, 'e) try_rng \<Rightarrow> rng_call \<Rightarrow> 'g \<Rightarrow> 'e rng_answer \<times> 'g" where
  "ask src Call_U32 g = map_prod Answer_U32 id (t_next_u32 src g)"
| "ask src Call_U64 g = map_prod Answer_U64 id (t_next_u64 src g)"
| "ask src (Call_Fill dest) g = map_prod Answer_Fill id (t_fill_bytes src dest g)"

fun ask_all :: "('g, 'e) try_rng \<Rightarrow> rng_call list \<Rightarrow> 'g \<Rightarrow> 'e rng_answer list \<times> 'g" where
  "ask_all src [] g = ([], g)"
| "ask_all src (c # cs) g =
     (case ask src c g of (a, g) \<Rightarrow> (case ask_all src cs g of (as, g) \<Rightarrow> (a # as, g)))"

text \<open>An infallible source, as the fallible one that never fails.\<close>

definition lift_core :: "'g rng_core \<Rightarrow> ('g, 'e) try_rng" where
  "lift_core src =
     \<lparr>t_next_u32 = (\<lambda>g. map_prod Inr id (c_next_u32 src g)),
      t_next_u64 = (\<lambda>g. map_prod Inr id (c_next_u64 src g)),
      t_fill_bytes = (\<lambda>dest g. map_prod (\<lambda>d. (Inr (), d)) id (c_fill_bytes src dest g))\<rparr>"

locale rng_view =
  fixes outer :: "('h, 'e) try_rng"
    and inner :: "('g, 'e) try_rng"
    and view :: "'h \<Rightarrow> 'g"
  assumes view_ask: "map_prod id view (ask outer c h) = ask inner c (view h)"
begin

lemma view_ask_all: "map_prod id view (ask_all outer cs h) = ask_all inner cs (view h)"
proof (induction cs arbitrary: h)
  case Nil
  then show ?case by simp
next
  case (Cons c cs)
  obtain a h' where o: "ask outer c h = (a, h')" by fastforce
  then have i: "ask inner c (view h) = (a, view h')"
    using view_ask [of c h] by simp
  from Cons.IH [of h'] show ?case by (auto simp: o i split: prod.splits)
qed

end

interpretation adapted: rng_view "adaptor_try_rng src" src into_inner
  for src
proof unfold_locales
  fix c and h :: "'a rng_adaptor"
  show "map_prod id into_inner (ask (adaptor_try_rng src) c h) = ask src c (into_inner h)"
    by (cases h; cases c) (simp_all add: adaptor_try_rng_def split: prod.split)
qed

lemma on_inner_lift:
  "map_prod f id (on_inner k h) = on_inner (\<lambda>g. map_prod f id (k g)) h"
  by (cases h) (simp split: prod.split)

lemma lift_adaptor: "lift_core (adaptor_rng_core src) = adaptor_try_rng (lift_core src)"
  by (simp add: lift_core_def adaptor_rng_core_def adaptor_try_rng_def on_inner_lift)

interpretation adapted_core: rng_view "lift_core (adaptor_rng_core src)" "lift_core src" into_inner
  for src
  unfolding lift_adaptor by (rule adapted.rng_view_axioms)

text \<open>
  In both directions the adaptor is transparent: any sequence of calls on an adapted
  source returns exactly what the same calls on the bare source return, bytes and errors
  alike, and unwrapping it afterwards gives the source in the state those calls leave it.
\<close>

theorem adaptor_transparent:
  "map_prod id into_inner (ask_all (adaptor_try_rng src) cs (adaptor_new g)) = ask_all src cs g \<and>
   map_prod id into_inner (ask_all (lift_core (adaptor_rng_core src')) cs (adaptor_new g')) =
     ask_all (lift_core src') cs g'"
  using adapted.view_ask_all [of src cs "adaptor_new g"]
    adapted_core.view_ask_all [of src' cs "adaptor_new g'"]
  by (simp add: adaptor_new_def)

end
