(* ===== verification/Config.thy ===== *)
theory Config
  imports Stack_Base
begin

text \<open>
  The sizing constants of \<^verbatim>\<open>src/src/lib.rs\<close>: each is chosen by a \<open>cfg_if!\<close> chain over the
  enabled cargo features, the first enabled one of the chain winning, with a default.
\<close>

section \<open>The feature chains\<close>

fun cfg_chain :: "(string \<times> nat) list \<Rightarrow> nat \<Rightarrow> string set \<Rightarrow> nat" where
  "cfg_chain [] d F = d"
| "cfg_chain ((f, n) # fs) d F = (if f \<in> F then n else cfg_chain fs d F)"

definition subscriptions_chain :: "(string \<times> nat) list" where
  "subscriptions_chain =
     [(''max-subscriptions-32'', 32), (''max-subscriptions-16'', 16),
      (''max-subscriptions-8'', 8), (''max-subscriptions-7'', 7),
      (''max-subscriptions-6'', 6), (''max-subscriptions-5'', 5),
      (''max-subscriptions-4'', 4), (''max-subscriptions-3'', 3),
      (''max-subscriptions-2'', 2), (''max-subscriptions-1'', 1)]"

definition max_subscriptions :: "string set \<Rightarrow> nat" where
  "max_subscriptions = cfg_chain subscriptions_chain 3"

definition events_ringbuf_chain :: "(string \<times> nat) list" where
  "events_ringbuf_chain =
     [(''events-ringbuf-size-2048'', 2048), (''events-ringbuf-size-1024'', 1024),
      (''events-ringbuf-size-512'', 512), (''events-ringbuf-size-256'', 256),
      (''events-ringbuf-size-128'', 128), (''events-ringbuf-size-64'', 64),
      (''events-ringbuf-size-0'', 0)]"

definition events_ringbuf_size :: "string set \<Rightarrow> nat" where
  "events_ringbuf_size = cfg_chain events_ringbuf_chain 256"

definition im_buffers_chain :: "(string \<times> nat) list" where
  "im_buffers_chain =
     [(''max-im-buffers-64'', 64), (''max-im-buffers-32'', 32),
      (''max-im-buffers-16'', 16), (''max-im-buffers-10'', 10),
      (''max-im-buffers-9'', 9), (''max-im-buffers-8'', 8), (''max-im-buffers-7'', 7),
      (''max-im-buffers-6'', 6), (''max-im-buffers-5'', 5), (''max-im-buffers-4'', 4)]"

definition max_im_buffers :: "string set \<Rightarrow> nat" where
  "max_im_buffers = cfg_chain im_buffers_chain 10"

definition responders_chain :: "(string \<times> nat) list" where
  "responders_chain =
     [(''max-responders-32'', 32), (''max-responders-16'', 16),
      (''max-responders-8'', 8), (''max-responders-7'', 7), (''max-responders-6'', 6),
      (''max-responders-5'', 5), (''max-responders-4'', 4), (''max-responders-3'', 3),
      (''max-responders-2'', 2), (''max-responders-1'', 1)]"

definition max_responders :: "string set \<Rightarrow> nat" where
  "max_responders = cfg_chain responders_chain 4"

definition max_busy_responders :: nat where
  "max_busy_responders = 2"

section \<open>The largest enabled feature wins\<close>

text \<open>
  The reference: the largest value among the enabled features of the chain, or the
  default when none of them is enabled.
\<close>

definition largest_enabled :: "(string \<times> nat) list \<Rightarrow> nat \<Rightarrow> string set \<Rightarrow> nat" where
  "largest_enabled fs d F =
     (if \<forall>(f, n) \<in> set fs. f \<notin> F then d else Max {n. \<exists>f \<in> F. (f, n) \<in> set fs})"

lemma finite_enabled: "finite {n. \<exists>f \<in> F. (f, n) \<in> set fs}"
  by (rule finite_subset [of _ "snd ` set fs"]) force+

lemma cfg_chain_largest:
  "sorted_wrt (\<ge>) (map snd fs) \<Longrightarrow> cfg_chain fs d F = largest_enabled fs d F"
proof (induction fs)
  case Nil
  then show ?case by (simp add: largest_enabled_def)
next
  case (Cons p fs)
  obtain f n where p: "p = (f, n)" by fastforce
  show ?case
  proof (cases "f \<in> F")
    case True
    have "Max {m. \<exists>g \<in> F. (g, m) \<in> set (p # fs)} = n"
      using True Cons.prems finite_enabled [of F "p # fs"]
      by (intro Max_eqI) (force simp: p)+
    moreover have "(\<forall>(g, m) \<in> set (p # fs). g \<notin> F) \<longleftrightarrow> False" using True by (auto simp: p)
    ultimately have "largest_enabled (p # fs) d F = n"
      unfolding largest_enabled_def by (simp only: if_False)
    with True show ?thesis by (simp add: p)
  next
    case False
    then have "{m. \<exists>g \<in> F. (g, m) \<in> set (p # fs)} = {m. \<exists>g \<in> F. (g, m) \<in> set fs}"
      by (auto simp: p)
    with False Cons show ?thesis by (simp add: largest_enabled_def p)
  qed
qed

text \<open>
  For each of the four sizes, whatever set of cargo features is enabled (several at
  once included, as feature unification makes happen), the size is the largest one
  enabled, and the default when none is.
\<close>

theorem sizes_largest_enabled:
  "max_subscriptions F = largest_enabled subscriptions_chain 3 F \<and>
   events_ringbuf_size F = largest_enabled events_ringbuf_chain 256 F \<and>
   max_im_buffers F = largest_enabled im_buffers_chain 10 F \<and>
   max_responders F = largest_enabled responders_chain 4 F"
  unfolding max_subscriptions_def events_ringbuf_size_def max_im_buffers_def max_responders_def
  by (intro conjI cfg_chain_largest)
    (simp_all add: subscriptions_chain_def events_ringbuf_chain_def im_buffers_chain_def
      responders_chain_def)

end
