(* ===== verification/Netif.thy ===== *)
theory Netif
  imports Stack_Base
begin

text \<open>
  The network interface state of \<open>run_oper_netif_mdns\<close> in \<^verbatim>\<open>src/src/lib.rs\<close>:
  \<open>NetifState\<close>, \<open>load_netif_state\<close>, \<open>wait_changed\<close> and the loop that restarts the mDNS
  task on every change. One enumeration of the interfaces by the driver is a snapshot:
  the interfaces it visits, in order, and the result it returns; the successive
  enumerations the loop makes are a list of snapshots.
\<close>

section \<open>Interface state\<close>

record netif_info =
  ni_name :: string
  ni_operational :: bool
  ni_ipv4_addrs :: "ipv4 list"
  ni_ipv6_addrs :: "ipv6 list"
  ni_hw_addr :: "8 word list"
  ni_netif_index :: "32 word"

record netif_state =
  ns_ipv6 :: "ipv6 list"
  ns_ipv4 :: ipv4
  ns_mac :: "8 word list"
  ns_operational :: bool
  ns_netif_index :: "32 word"

type_synonym snapshot = "netif_info list \<times> unit res"

definition max_netif_ipv6_addrs :: nat where
  "max_netif_ipv6_addrs = 4"

definition netif_state_new :: netif_state where
  "netif_state_new =
     \<lparr>ns_ipv6 = [], ns_ipv4 = 0, ns_mac = replicate 8 0, ns_operational = False,
      ns_netif_index = 0\<rparr>"

text \<open>The loop over the addresses: skip unspecified and known ones, stop when the vector is full.\<close>

fun collect_ipv6 :: "ipv6 list \<Rightarrow> ipv6 list \<Rightarrow> ipv6 list" where
  "collect_ipv6 [] acc = acc"
| "collect_ipv6 (a # as) acc =
     (if a = 0 \<or> a \<in> set acc then collect_ipv6 as acc
      else case vec_push max_netif_ipv6_addrs acc a of
             Inl _ \<Rightarrow> acc
           | Inr acc \<Rightarrow> collect_ipv6 as acc)"

definition visit_netif :: "netif_info \<Rightarrow> netif_state \<Rightarrow> netif_state" where
  "visit_netif ni st =
     (if ni_operational ni \<and> ni_ipv6_addrs ni \<noteq> []
      then st\<lparr>ns_operational := True,
              ns_ipv6 := collect_ipv6 (ni_ipv6_addrs ni) [],
              ns_ipv4 := (case ni_ipv4_addrs ni of [] \<Rightarrow> 0 | a # _ \<Rightarrow> a),
              ns_mac := ni_hw_addr ni,
              ns_netif_index := ni_netif_index ni\<rparr>
      else st)"

definition load_netif_state :: "snapshot \<Rightarrow> netif_state \<Rightarrow> unit res \<times> netif_state" where
  "load_netif_state snap st =
     (let st = st\<lparr>ns_operational := False, ns_ipv6 := [], ns_ipv4 := 0,
                   ns_mac := replicate 8 0\<rparr>
      in (snd snap, fold visit_netif (fst snap) st))"

section \<open>Waiting for a change, and the supervision loop\<close>

text \<open>
  \<open>None\<close>: the snapshots are used up and the wait is still pending. Otherwise the result,
  the state loaded last and the snapshots not used.
\<close>

fun wait_changed ::
    "netif_state \<Rightarrow> netif_state \<Rightarrow> snapshot list \<Rightarrow> (unit res \<times> netif_state \<times> snapshot list) option" where
  "wait_changed cur st [] = None"
| "wait_changed cur st (snap # snaps) =
     (case load_netif_state snap st of
        (Inl e, st) \<Rightarrow> Some (Inl e, st, snaps)
      | (Inr _, st) \<Rightarrow>
          if st \<noteq> cur then Some (Inr (), st, snaps) else wait_changed cur st snaps)"

lemma wait_changed_shorter:
  "wait_changed cur st snaps = Some (r, st', rest) \<Longrightarrow> length rest < length snaps"
  by (induction snaps arbitrary: st)
    (auto split: prod.splits sum.splits if_splits intro: less_SucI)

text \<open>
  What the mDNS task of an iteration does for the state the iteration runs with: it runs
  the responder with the addresses of that state, over and over, or sleeps forever when
  the interface is down. It never completes, so an iteration ends with the change.
\<close>

datatype mdns_activity =
    Mdns_Idle
  | Mdns_Run "8 word list" ipv4 "ipv6 list" "32 word"

definition mdns_task :: "bool \<Rightarrow> netif_state \<Rightarrow> panic + mdns_activity" where
  "mdns_task has_udp_bind st =
     (if ns_operational st
      then if has_udp_bind
           then Inr (Mdns_Run (ns_mac st) (ns_ipv4 st) (ns_ipv6 st) (ns_netif_index st))
           else Inl Unwrap_Failed
      else Inr Mdns_Idle)"

text \<open>
  The states the iterations of the loop run with, in order, and how the loop ended:
  \<open>None\<close> when it is still running at the end of the snapshots.
\<close>

function netif_loop ::
    "netif_state \<Rightarrow> snapshot list \<Rightarrow> netif_state list \<times> error option" where
  "netif_loop new_state snaps =
     (let cur_state = new_state
      in case wait_changed cur_state new_state snaps of
           None \<Rightarrow> ([cur_state], None)
         | Some (Inl e, _, _) \<Rightarrow> ([cur_state], Some e)
         | Some (Inr _, new_state, rest) \<Rightarrow>
             (case netif_loop new_state rest of (tr, r) \<Rightarrow> (cur_state # tr, r)))"
  by pat_completeness auto
termination
  by (relation "measure (\<lambda>(st, snaps). length snaps)") (auto dest: wait_changed_shorter)

declare netif_loop.simps [simp del]

fun run_oper_netif_mdns :: "snapshot list \<Rightarrow> netif_state list \<times> error option" where
  "run_oper_netif_mdns [] = ([], None)"
| "run_oper_netif_mdns (snap # snaps) =
     (case load_netif_state snap netif_state_new of
        (Inl e, _) \<Rightarrow> ([], Some e)
      | (Inr _, new_state) \<Rightarrow> netif_loop new_state snaps)"

section \<open>The addresses of an interface\<close>

text \<open>The reference: the specified addresses, first occurrences only, cut at the capacity.\<close>

definition first_occurrences :: "'a list \<Rightarrow> 'a list" where
  "first_occurrences xs = rev (remdups (rev xs))"

lemma first_occurrences_Nil [simp]: "first_occurrences [] = []"
  by (simp add: first_occurrences_def)

lemma first_occurrences_snoc:
  "first_occurrences (xs @ [x]) =
     (if x \<in> set xs then first_occurrences xs else first_occurrences xs @ [x])"
  by (simp add: first_occurrences_def)

lemma set_first_occurrences [simp]: "set (first_occurrences xs) = set xs"
  by (simp add: first_occurrences_def)

lemma distinct_first_occurrences [simp]: "distinct (first_occurrences xs)"
  by (simp add: first_occurrences_def)

lemma first_occurrences_prefix: "\<exists>zs. first_occurrences (xs @ ys) = first_occurrences xs @ zs"
proof (induction ys rule: rev_induct)
  case Nil
  then show ?case by simp
next
  case (snoc y ys)
  then obtain zs where "first_occurrences (xs @ ys) = first_occurrences xs @ zs" by blast
  then have "first_occurrences (xs @ ys @ [y]) =
      (if y \<in> set (xs @ ys) then first_occurrences xs @ zs else first_occurrences xs @ zs @ [y])"
    using first_occurrences_snoc [of "xs @ ys" y] by simp
  then show ?case by metis
qed

lemma collect_ipv6_general:
  assumes "length (first_occurrences bs) \<le> max_netif_ipv6_addrs"
  shows "collect_ipv6 as (first_occurrences bs) =
    take max_netif_ipv6_addrs (first_occurrences (bs @ filter (\<lambda>a. a \<noteq> 0) as))"
  using assms
proof (induction as arbitrary: bs)
  case Nil
  then show ?case by simp
next
  case (Cons a as)
  consider (skip) "a = 0" | (known) "a \<noteq> 0" "a \<in> set bs"
    | (full) "a \<noteq> 0" "a \<notin> set bs" "length (first_occurrences bs) = max_netif_ipv6_addrs"
    | (push) "a \<noteq> 0" "a \<notin> set bs" "length (first_occurrences bs) < max_netif_ipv6_addrs"
    using Cons.prems by fastforce
  then show ?case
  proof cases
    case skip
    with Cons show ?thesis by simp
  next
    case known
    then have "first_occurrences (bs @ [a]) = first_occurrences bs"
      by (simp add: first_occurrences_snoc)
    with known Cons.IH [of "bs @ [a]"] Cons.prems show ?thesis by simp
  next
    case full
    with first_occurrences_prefix [of bs "filter (\<lambda>a. a \<noteq> 0) (a # as)"] show ?thesis
      by (auto simp: vec_push_def)
  next
    case push
    then have "first_occurrences (bs @ [a]) = first_occurrences bs @ [a]"
      by (simp add: first_occurrences_snoc)
    with push Cons.IH [of "bs @ [a]"] show ?thesis by (simp add: vec_push_def)
  qed
qed

lemma collect_ipv6_closed:
  "collect_ipv6 as [] =
     take max_netif_ipv6_addrs (first_occurrences (filter (\<lambda>a. a \<noteq> 0) as))"
  using collect_ipv6_general [of "[]" as] by simp

end
