(* ===== verification/Netif_Spec.thy ===== *)
theory Netif_Spec
  imports Netif
begin

text \<open>
  What the supervision of the network interface promises: what a loaded state says of the
  interfaces enumerated, that the mDNS task runs with the state loaded last and is
  restarted on changes only, and what the responder may be given as addresses.
\<close>

section \<open>Loading\<close>

definition advertisable :: "netif_info \<Rightarrow> bool" where
  "advertisable ni \<longleftrightarrow> ni_operational ni \<and> ni_ipv6_addrs ni \<noteq> []"

lemma fold_visit_netif:
  "fold visit_netif nis st =
    (case rev (filter advertisable nis) of
       [] \<Rightarrow> st
     | ni # _ \<Rightarrow> visit_netif ni st)"
proof (induction nis rule: rev_induct)
  case Nil
  then show ?case by simp
next
  case (snoc ni nis)
  then show ?case
    by (auto simp: visit_netif_def advertisable_def split: list.split)
qed

definition netif_down :: "netif_state \<Rightarrow> netif_state" where
  "netif_down st = st\<lparr>ns_operational := False, ns_ipv6 := [], ns_ipv4 := 0, ns_mac := replicate 8 0\<rparr>"

lemma load_netif_state_alt:
  "load_netif_state snap st = (snd snap, fold visit_netif (fst snap) (netif_down st))"
  by (simp add: load_netif_state_def netif_down_def)

lemma rev_filter_hd: "rev (filter P xs) = y # ys \<Longrightarrow> y \<in> set xs \<and> P y"
proof -
  assume "rev (filter P xs) = y # ys"
  then have "y \<in> set (rev (filter P xs))" by simp
  then show ?thesis by simp
qed

lemma load_netif_state_closed:
  "load_netif_state (nis, r) st =
    (r, (case rev (filter advertisable nis) of
           [] \<Rightarrow> \<lparr>ns_ipv6 = [], ns_ipv4 = 0, ns_mac = replicate 8 0, ns_operational = False,
                  ns_netif_index = ns_netif_index st\<rparr>
         | ni # _ \<Rightarrow>
             \<lparr>ns_ipv6 = take 4 (first_occurrences (filter (\<lambda>a. a \<noteq> 0) (ni_ipv6_addrs ni))),
              ns_ipv4 = (case ni_ipv4_addrs ni of [] \<Rightarrow> 0 | a # _ \<Rightarrow> a),
              ns_mac = ni_hw_addr ni, ns_operational = True,
              ns_netif_index = ni_netif_index ni\<rparr>))"
proof (cases "rev (filter advertisable nis)")
  case Nil
  then show ?thesis
    by (simp add: load_netif_state_alt fold_visit_netif netif_down_def)
next
  case (Cons ni ms)
  then have "ni_operational ni \<and> ni_ipv6_addrs ni \<noteq> []"
    using rev_filter_hd [OF Cons] by (simp add: advertisable_def)
  with Cons show ?thesis
    by (simp add: load_netif_state_alt fold_visit_netif netif_down_def visit_netif_def
        collect_ipv6_closed max_netif_ipv6_addrs_def)
qed

text \<open>
  C33. A loaded state describes the last operational interface with an IPv6 address that
  the driver enumerated: its MAC, index and first IPv4 address, and of its IPv6 addresses
  the specified ones without repetitions, in their order, cut at the capacity of four.
  Without such an interface the state is down with no addresses (the index of the
  previous state stays).
\<close>

theorem load_netif_state_exact:
  "load_netif_state (nis, r) st =
    (r, (case rev (filter advertisable nis) of
           [] \<Rightarrow> \<lparr>ns_ipv6 = [], ns_ipv4 = 0, ns_mac = replicate 8 0, ns_operational = False,
                  ns_netif_index = ns_netif_index st\<rparr>
         | ni # _ \<Rightarrow>
             \<lparr>ns_ipv6 = take 4 (first_occurrences (filter (\<lambda>a. a \<noteq> 0) (ni_ipv6_addrs ni))),
              ns_ipv4 = (case ni_ipv4_addrs ni of [] \<Rightarrow> 0 | a # _ \<Rightarrow> a),
              ns_mac = ni_hw_addr ni, ns_operational = True,
              ns_netif_index = ni_netif_index ni\<rparr>))"
  by (rule load_netif_state_closed)

section \<open>Supervision\<close>

fun loaded_states :: "netif_state \<Rightarrow> snapshot list \<Rightarrow> netif_state list" where
  "loaded_states st [] = []"
| "loaded_states st (snap # snaps) =
     (let st' = snd (load_netif_state snap st) in st' # loaded_states st' snaps)"

lemma fst_load_netif_state [simp]: "fst (load_netif_state snap st) = snd snap"
  by (simp add: load_netif_state_def)

text \<open>Loading the same snapshot again changes nothing.\<close>

lemma load_again:
  "load_netif_state snap (snd (load_netif_state snap st)) = load_netif_state snap st"
proof (cases snap)
  case (Pair nis r)
  then show ?thesis by (simp add: load_netif_state_closed split: list.split)
qed

lemma netif_loop_Nil: "netif_loop cur [] = ([cur], None)"
  by (simp add: netif_loop.simps [of cur])

lemma netif_loop_ok:
  assumes "snd snap = Inr ()" and "st = snd (load_netif_state snap cur)"
  shows "netif_loop cur (snap # snaps) =
    (if st = cur then netif_loop cur snaps
     else (cur # fst (netif_loop st snaps), snd (netif_loop st snaps)))"
proof -
  have "load_netif_state snap cur = (Inr (), st)"
    using assms by (simp add: prod_eq_iff)
  then show ?thesis
    by (simp add: netif_loop.simps [of cur] split_beta)
qed

lemma netif_loop_err:
  assumes "snd snap = Inl e"
  shows "netif_loop cur (snap # snaps) = ([cur], Some e)"
proof -
  have "load_netif_state snap cur = (Inl e, snd (load_netif_state snap cur))"
    using assms by (simp add: prod_eq_iff)
  then show ?thesis
    by (auto simp: netif_loop.simps [of cur] split: prod.splits sum.splits)
qed

lemma remdups_adj_hd: "remdups_adj (x # y # ys) =
  (if y = x then remdups_adj (x # ys) else x # remdups_adj (y # ys))"
  by simp

lemma netif_loop_general:
  assumes "\<forall>snap \<in> set oks. snd snap = Inr ()"
  shows "netif_loop cur (oks @ rest) =
    (let tr = remdups_adj (cur # loaded_states cur oks);
         (tr', r) = netif_loop (last (cur # loaded_states cur oks)) rest
     in (butlast tr @ tr', r))"
  using assms
proof (induction oks arbitrary: cur)
  case Nil
  then show ?case by (simp split: prod.split)
next
  case (Cons snap oks)
  let ?st = "snd (load_netif_state snap cur)"
  from Cons.prems have ok: "snd snap = Inr ()" and oks: "\<forall>snap \<in> set oks. snd snap = Inr ()"
    by auto
  show ?case
  proof (cases "?st = cur")
    case True
    with Cons.IH [OF oks, of cur] show ?thesis
      by (simp add: netif_loop_ok [OF ok refl] Let_def)
  next
    case False
    have ne: "remdups_adj (?st # loaded_states ?st oks) \<noteq> []" by simp
    from False Cons.IH [OF oks, of ?st] ne show ?thesis
      by (simp add: netif_loop_ok [OF ok refl] Let_def split: prod.split)
  qed
qed

lemma remdups_adj_last: "butlast (remdups_adj xs) @ [last xs] = remdups_adj xs" if "xs \<noteq> []"
  using append_butlast_last_id [of "remdups_adj xs"] that by (simp add: last_remdups_adj)

lemma netif_supervision_general:
  assumes "\<forall>snap \<in> set oks. snd snap = Inr ()"
  shows "run_oper_netif_mdns oks = (remdups_adj (loaded_states netif_state_new oks), None) \<and>
    run_oper_netif_mdns (oks @ (nis, Inl e) # rest) =
      (remdups_adj (loaded_states netif_state_new oks), Some e)"
proof (cases oks)
  case Nil
  have "load_netif_state (nis, Inl e) netif_state_new =
      (Inl e, snd (load_netif_state (nis, Inl e) netif_state_new))"
    by (simp add: prod_eq_iff)
  with Nil show ?thesis by (auto split: prod.splits sum.splits)
next
  case (Cons snap snaps)
  obtain st where ld: "load_netif_state snap netif_state_new = (Inr (), st)"
    using assms Cons by (metis fst_load_netif_state list.set_intros(1) prod.collapse)
  have ok: "\<forall>snap \<in> set snaps. snd snap = Inr ()" using assms Cons by simp
  note last = remdups_adj_last [of "st # loaded_states st snaps"]
  have "netif_loop st snaps = (remdups_adj (st # loaded_states st snaps), None)"
    using netif_loop_general [OF ok, of st "[]"] last by (simp add: netif_loop_Nil Let_def)
  moreover have "netif_loop st (snaps @ (nis, Inl e) # rest) =
      (remdups_adj (st # loaded_states st snaps), Some e)"
    using netif_loop_general [OF ok, of st "(nis, Inl e) # rest"] last
    by (simp add: netif_loop_err Let_def)
  ultimately show ?thesis using ld Cons by simp
qed

lemma run_oper_netif_mdns_ok:
  "\<forall>snap \<in> set oks. snd snap = Inr () \<Longrightarrow>
   run_oper_netif_mdns oks = (remdups_adj (loaded_states netif_state_new oks), None)"
  using netif_supervision_general by blast

text \<open>
  The iterations of the loop are exactly the runs of equal loaded states: the mDNS
  task always runs with the state loaded last, is restarted when a loaded state differs
  from the one before and never otherwise. The loop runs as long as the driver enumerates
  without an error, and ends with the first error the driver returns.
\<close>

theorem netif_supervision:
  assumes "\<forall>snap \<in> set oks. snd snap = Inr ()"
  shows "run_oper_netif_mdns oks = (remdups_adj (loaded_states netif_state_new oks), None) \<and>
    run_oper_netif_mdns (oks @ (nis, Inl e) # rest) =
      (remdups_adj (loaded_states netif_state_new oks), Some e)"
  using assms by (rule netif_supervision_general)

definition sample_netif :: netif_info where
  "sample_netif =
     \<lparr>ni_name = ''eth0'', ni_operational = True, ni_ipv4_addrs = [],
      ni_ipv6_addrs = [0xFE80, 0, 0xFE80, 0x2001], ni_hw_addr = [1, 2, 3, 4, 5, 6, 0, 0],
      ni_netif_index = 2\<rparr>"

definition sample_up :: netif_state where
  "sample_up =
     \<lparr>ns_ipv6 = [0xFE80, 0x2001], ns_ipv4 = 0, ns_mac = [1, 2, 3, 4, 5, 6, 0, 0],
      ns_operational = True, ns_netif_index = 2\<rparr>"

lemmas netif_eval =
  load_netif_state_def visit_netif_def sample_netif_def sample_up_def netif_state_new_def
  max_netif_ipv6_addrs_def vec_push_def

theorem netif_supervision_witness:
  "run_oper_netif_mdns [([], Inr ()), ([sample_netif], Inr ()), ([sample_netif], Inr ()), ([], Inl StdIoError)]
   = ([netif_state_new, sample_up], Some StdIoError)"
proof -
  let ?oks = "[([], Inr ()), ([sample_netif], Inr ()), ([sample_netif], Inr ())]"
  have "\<forall>snap \<in> set ?oks. snd snap = Inr ()" by simp
  from netif_supervision [OF this, of "[]" StdIoError "[]"] show ?thesis
    by (simp add: netif_eval Let_def)
qed

section \<open>What the responder is given\<close>

definition addrs_ok :: "netif_state \<Rightarrow> bool" where
  "addrs_ok st \<longleftrightarrow>
     distinct (ns_ipv6 st) \<and> length (ns_ipv6 st) \<le> max_netif_ipv6_addrs \<and> 0 \<notin> set (ns_ipv6 st)"

lemma load_addrs_ok: "addrs_ok (snd (load_netif_state snap st))"
  by (cases snap) (auto simp: load_netif_state_closed addrs_ok_def max_netif_ipv6_addrs_def
      distinct_take dest: in_set_takeD split: list.split)

lemma load_source:
  assumes "ns_operational (snd (load_netif_state snap st))"
  shows "\<exists>ni \<in> set (fst snap). ni_operational ni \<and>
    ns_mac (snd (load_netif_state snap st)) = ni_hw_addr ni \<and>
    ns_netif_index (snd (load_netif_state snap st)) = ni_netif_index ni \<and>
    set (ns_ipv6 (snd (load_netif_state snap st))) \<subseteq> set (ni_ipv6_addrs ni)"
proof -
  obtain nis r where snap: "snap = (nis, r)" by fastforce
  with assms obtain ni ms where rv: "rev (filter advertisable nis) = ni # ms"
    by (auto simp: load_netif_state_closed split: list.splits)
  have "ni \<in> set nis" and "ni_operational ni"
    using rev_filter_hd [OF rv] by (auto simp: advertisable_def)
  with rv show ?thesis
    by (auto simp: snap load_netif_state_closed dest!: in_set_takeD intro!: bexI [of _ ni])
qed

lemma loaded_states_in:
  "st \<in> set (loaded_states st0 snaps) \<Longrightarrow> \<exists>snap \<in> set snaps. \<exists>st1. st = snd (load_netif_state snap st1)"
  by (induction snaps arbitrary: st0) (auto simp: Let_def)

text \<open>
  C34. Whatever the driver enumerates, an mDNS responder that is started is given the
  MAC, the index and only addresses of one operational interface the driver reported, at
  most four of them, all different and none unspecified; it is started only while such an
  interface is up.
\<close>

theorem mdns_addresses_valid:
  assumes "\<forall>snap \<in> set snaps. snd snap = Inr ()"
    and "st \<in> set (fst (run_oper_netif_mdns snaps))"
    and "mdns_task True st = Inr (Mdns_Run mac ip4 ip6 idx)"
  shows "distinct ip6 \<and> length ip6 \<le> 4 \<and> 0 \<notin> set ip6 \<and>
    (\<exists>snap \<in> set snaps. \<exists>ni \<in> set (fst snap). ni_operational ni \<and>
       mac = ni_hw_addr ni \<and> idx = ni_netif_index ni \<and> set ip6 \<subseteq> set (ni_ipv6_addrs ni))"
proof -
  from assms(2) have "st \<in> set (loaded_states netif_state_new snaps)"
    using run_oper_netif_mdns_ok [OF assms(1)] by simp
  then obtain snap st1 where snap: "snap \<in> set snaps" and st: "st = snd (load_netif_state snap st1)"
    using loaded_states_in by blast
  from assms(3) have up: "ns_operational st" and args: "mac = ns_mac st" "ip6 = ns_ipv6 st"
    "idx = ns_netif_index st"
    by (auto simp: mdns_task_def split: if_splits)
  from load_source [of snap st1] up snap load_addrs_ok [of snap st1] show ?thesis
    unfolding args st addrs_ok_def max_netif_ipv6_addrs_def by fast
qed

theorem mdns_addresses_valid_witness:
  "mdns_task True sample_up = Inr (Mdns_Run [1, 2, 3, 4, 5, 6, 0, 0] 0 [0xFE80, 0x2001] 2) \<and>
   distinct [0xFE80, 0x2001 :: ipv6]"
proof -
  have ok: "\<forall>snap \<in> set [([sample_netif], Inr ())]. snd snap = (Inr () :: unit res)" by simp
  have st: "sample_up \<in> set (fst (run_oper_netif_mdns [([sample_netif], Inr ())]))"
    by (simp add: netif_eval netif_loop_Nil)
  have m: "mdns_task True sample_up = Inr (Mdns_Run [1, 2, 3, 4, 5, 6, 0, 0] 0 [0xFE80, 0x2001] 2)"
    by (simp add: mdns_task_def sample_up_def)
  from mdns_addresses_valid [OF ok st m] m show ?thesis by blast
qed

end
