(* ===== verification/Udp.thy ===== *)
theory Udp
  imports Stack_Base
begin

text \<open>
  The UDP transport of \<^verbatim>\<open>src/src/udp.rs\<close> over an \<^verbatim>\<open>edge-nal\<close> socket, and the operational
  transport of \<open>MatterStack::run_oper_net\<close> (\<^verbatim>\<open>src/src/lib.rs\<close>) that is assembled from it.
  The socket's calls are parameters: functions of the world that return the world after
  them with an error of the socket's own type or a result.
\<close>

section \<open>Addresses\<close>

datatype ip_addr = IpAddr_V4 ipv4 | IpAddr_V6 ipv6

datatype sock_addr =
    Sock_V4 ipv4 "16 word"
  | Sock_V6 ipv6 "16 word" "32 word" "32 word"

text \<open>\<open>Address\<close> of \<^verbatim>\<open>rs-matter\<close>: UDP, or an address \<open>'o\<close> of one of its other transports.\<close>

datatype 'o address = Addr_Udp sock_addr | Addr_Other 'o

definition is_udp :: "'o address \<Rightarrow> bool" where
  "is_udp addr \<longleftrightarrow> (case addr of Addr_Udp _ \<Rightarrow> True | Addr_Other _ \<Rightarrow> False)"

lemma is_udp_simps [simp]: "is_udp (Addr_Udp r)" "\<not> is_udp (Addr_Other x)"
  by (simp_all add: is_udp_def)

type_synonym bytes = "8 word list"
type_synonym ('w, 'e, 'a) call = "'w \<Rightarrow> ('e + 'a) \<times> 'w"

section \<open>Unicast\<close>

definition udp_map_err :: "'e \<Rightarrow> error" where
  "udp_map_err e = StdIoError"

definition udp_send_to ::
    "(sock_addr \<Rightarrow> bytes \<Rightarrow> ('w, 'e, unit) call) \<Rightarrow> bytes \<Rightarrow> 'o address \<Rightarrow> ('w, unit) act" where
  "udp_send_to send data addr =
     (case addr of
        Addr_Udp remote \<Rightarrow> act_map_err udp_map_err (send remote data)
      | Addr_Other _ \<Rightarrow> act_err NoNetworkInterface)"

definition udp_wait_available :: "('w, 'e, unit) call \<Rightarrow> ('w, unit) act" where
  "udp_wait_available readable = act_map_err udp_map_err readable"

definition udp_recv_from ::
    "(bytes \<Rightarrow> ('w, 'e, nat \<times> sock_addr) call) \<Rightarrow> bytes \<Rightarrow> ('w, nat \<times> 'o address) act" where
  "udp_recv_from receive buffer =
     act_then (act_map_err udp_map_err (receive buffer))
       (\<lambda>(n, addr). act_ok (n, Addr_Udp addr))"

section \<open>Multicast\<close>

record ('w, 'e4, 'e6) multicast =
  mc_join_v4 :: "ipv4 \<Rightarrow> ipv4 \<Rightarrow> ('w, 'e4, unit) call"
  mc_leave_v4 :: "ipv4 \<Rightarrow> ipv4 \<Rightarrow> ('w, 'e4, unit) call"
  mc_m4_network :: ipv4
  mc_join_v6 :: "ipv6 \<Rightarrow> 32 word \<Rightarrow> ('w, 'e6, unit) call"
  mc_leave_v6 :: "ipv6 \<Rightarrow> 32 word \<Rightarrow> ('w, 'e6, unit) call"
  mc_m6_interface :: "32 word"

definition multicast_join :: "('w, 'e4, 'e6) multicast \<Rightarrow> ip_addr \<Rightarrow> ('w, unit) act" where
  "multicast_join m addr =
     (case addr of
        IpAddr_V4 remote \<Rightarrow> act_map_err udp_map_err (mc_join_v4 m remote (mc_m4_network m))
      | IpAddr_V6 remote \<Rightarrow> act_map_err udp_map_err (mc_join_v6 m remote (mc_m6_interface m)))"

definition multicast_leave :: "('w, 'e4, 'e6) multicast \<Rightarrow> ip_addr \<Rightarrow> ('w, unit) act" where
  "multicast_leave m addr =
     (case addr of
        IpAddr_V4 remote \<Rightarrow> act_map_err udp_map_err (mc_leave_v4 m remote (mc_m4_network m))
      | IpAddr_V6 remote \<Rightarrow> act_map_err udp_map_err (mc_leave_v6 m remote (mc_m6_interface m)))"

section \<open>The operational transport\<close>

text \<open>
  What \<open>split_multicast\<close> of a bound socket yields, and the two endpoints of a second
  transport (BTP) that may run beside it.
\<close>

record ('w, 'e) udp_socket =
  us_receive :: "bytes \<Rightarrow> ('w, 'e, nat \<times> sock_addr) call"
  us_send :: "sock_addr \<Rightarrow> bytes \<Rightarrow> ('w, 'e, unit) call"
  us_join_v4 :: "ipv4 \<Rightarrow> ipv4 \<Rightarrow> ('w, 'e, unit) call"
  us_leave_v4 :: "ipv4 \<Rightarrow> ipv4 \<Rightarrow> ('w, 'e, unit) call"
  us_join_v6 :: "ipv6 \<Rightarrow> 32 word \<Rightarrow> ('w, 'e, unit) call"
  us_leave_v6 :: "ipv6 \<Rightarrow> 32 word \<Rightarrow> ('w, 'e, unit) call"

type_synonym ('w, 'o) sender = "bytes \<Rightarrow> 'o address \<Rightarrow> ('w, unit) act"
type_synonym ('w, 'o) receiver = "bytes \<Rightarrow> ('w, nat \<times> 'o address) act"
type_synonym 'w joiner = "ip_addr \<Rightarrow> ('w, unit) act"

text \<open>
  The transport \<open>Matter::run\<close> is given. \<open>ChainedNetwork\<close> (\<^verbatim>\<open>rs-matter\<close>) takes the predicate
  that selects the first network; \<open>NoNetwork\<close> is its second multicast network.
\<close>

datatype ('w, 'o) send_net =
    Send_Udp "('w, 'o) sender"
  | Send_Chained "'o address \<Rightarrow> bool" "('w, 'o) sender" "('w, 'o) sender"

datatype ('w, 'o) recv_net =
    Recv_Udp "('w, 'o) receiver"
  | Recv_Chained "'o address \<Rightarrow> bool" "('w, 'o) receiver" "('w, 'o) receiver"

datatype ('w, 'o) mcast_net =
    Mcast_Udp "'w joiner" "'w joiner"
  | Mcast_Chained "'o address \<Rightarrow> bool" "'w joiner" "'w joiner"

record ('w, 'o) transport_net =
  tn_send :: "('w, 'o) send_net"
  tn_recv :: "('w, 'o) recv_net"
  tn_multicast :: "('w, 'o) mcast_net"

text \<open>
  The multicast half of the socket: groups of IPv4 on any interface, groups of IPv6 on the
  interface of the network.
\<close>

definition oper_multicast :: "('w, 'e) udp_socket \<Rightarrow> 32 word \<Rightarrow> ('w, 'e, 'e) multicast" where
  "oper_multicast socket net_interface =
     \<lparr>mc_join_v4 = us_join_v4 socket, mc_leave_v4 = us_leave_v4 socket, mc_m4_network = 0,
      mc_join_v6 = us_join_v6 socket, mc_leave_v6 = us_leave_v6 socket,
      mc_m6_interface = net_interface\<rparr>"

definition oper_transport ::
    "('w, 'e) udp_socket \<Rightarrow> 32 word \<Rightarrow> (('w, 'o) receiver \<times> ('w, 'o) sender) option \<Rightarrow>
     ('w, 'o) transport_net" where
  "oper_transport socket net_interface comm =
     (let multicast = oper_multicast socket net_interface;
          send = udp_send_to (us_send socket);
          recv = udp_recv_from (us_receive socket);
          join = multicast_join multicast;
          leave = multicast_leave multicast
      in case comm of
           Some (comm_recv, comm_send) \<Rightarrow>
             \<lparr>tn_send = Send_Chained is_udp send comm_send,
              tn_recv = Recv_Chained is_udp recv comm_recv,
              tn_multicast = Mcast_Chained is_udp join leave\<rparr>
         | None \<Rightarrow>
             \<lparr>tn_send = Send_Udp send, tn_recv = Recv_Udp recv,
              tn_multicast = Mcast_Udp join leave\<rparr>)"

text \<open>\<open>net_stack.udp_bind()\<close> is \<open>None\<close> for a network stack without UDP.\<close>

definition open_oper_net ::
    "16 word \<Rightarrow> (sock_addr \<Rightarrow> ('w, 'e, ('w, 'e) udp_socket) call) option \<Rightarrow> 32 word \<Rightarrow>
     (('w, 'o) receiver \<times> ('w, 'o) sender) option \<Rightarrow> ('w, ('w, 'o) transport_net) act" where
  "open_oper_net matter_port udp_bind net_interface comm =
     (case udp_bind of
        None \<Rightarrow> act_panic Unwrap_Failed
      | Some bind \<Rightarrow>
          act_then (act_map_err udp_map_err (bind (Sock_V6 0 matter_port 0 net_interface)))
            (\<lambda>socket. act_ok (oper_transport socket net_interface comm)))"

text \<open>
  \<open>run_transport\<close> is \<open>Matter::run\<close> over the transport, \<open>until\<close> the future given by the caller and
  \<open>select\<close> the combinator that runs two futures side by side until one of them ends.
\<close>

definition run_oper_net ::
    "(('w, unit) act \<Rightarrow> ('w, unit) act \<Rightarrow> ('w, unit) act) \<Rightarrow> (('w, 'o) transport_net \<Rightarrow> ('w, unit) act) \<Rightarrow>
     16 word \<Rightarrow> (sock_addr \<Rightarrow> ('w, 'e, ('w, 'e) udp_socket) call) option \<Rightarrow> 32 word \<Rightarrow>
     ('w, unit) act \<Rightarrow> (('w, 'o) receiver \<times> ('w, 'o) sender) option \<Rightarrow> ('w, unit) act" where
  "run_oper_net select run_transport matter_port udp_bind net_interface until comm =
     act_then (open_oper_net matter_port udp_bind net_interface comm)
       (\<lambda>net. select (run_transport net) until)"

lemmas udp_defs =
  udp_send_to_def udp_recv_from_def udp_wait_available_def multicast_join_def
  multicast_leave_def udp_map_err_def

end
