(* ===== verification/Mdns_Host.thy ===== *)
theory Mdns_Host
  imports Udp
begin

text \<open>
  \<open>impl Mdns for BuiltinMdns\<close> of \<^verbatim>\<open>src/src/mdns.rs\<close>: the host name derived from the MAC, and
  the calls that set the responder's socket up. The responder itself (\<open>BuiltinMdns::run\<close>) is
  code of \<^verbatim>\<open>rs-matter\<close> and a parameter, as are its port and multicast groups.
\<close>

section \<open>The host name\<close>

definition hex_digit :: "nat \<Rightarrow> char" where
  "hex_digit d = ''0123456789ABCDEF'' ! d"

text \<open>\<open>{:02X}\<close> of a byte\<close>

definition fmt_02X :: "8 word \<Rightarrow> string" where
  "fmt_02X b = [hex_digit (unat b div 16), hex_digit (unat b mod 16)]"

text \<open>\<open>write_unwrap!\<close> into a \<open>String<N>\<close>: a piece that does not fit is a panic.\<close>

definition write_str :: "nat \<Rightarrow> string \<Rightarrow> string \<Rightarrow> panic + string" where
  "write_str cap s piece =
     (if length s + length piece \<le> cap then Inr (s @ piece) else Inl Unwrap_Failed)"

fun write_unwrap :: "nat \<Rightarrow> string \<Rightarrow> string list \<Rightarrow> panic + string" where
  "write_unwrap cap s [] = Inr s"
| "write_unwrap cap s (p # ps) = and_then (write_str cap s p) (\<lambda>s. write_unwrap cap s ps)"

definition mac_hostname :: "8 word list \<Rightarrow> panic + string" where
  "mac_hostname mac =
     (let hostname = [] in
      if length mac = 6 then
        write_unwrap 16 hostname
          [fmt_02X (mac ! 0), fmt_02X (mac ! 1), fmt_02X (mac ! 2), fmt_02X (mac ! 3),
           fmt_02X (mac ! 4), fmt_02X (mac ! 5)]
      else if length mac = 8 then
        write_unwrap 16 hostname
          [fmt_02X (mac ! 0), fmt_02X (mac ! 1), fmt_02X (mac ! 2), fmt_02X (mac ! 3),
           fmt_02X (mac ! 4), fmt_02X (mac ! 5), fmt_02X (mac ! 6), fmt_02X (mac ! 7)]
      else Inl Invalid_Mac_Length)"

section \<open>Reading a host name back\<close>

definition hex_value :: "char \<Rightarrow> nat" where
  "hex_value c = (if of_char c < (58::nat) then of_char c - 48 else of_char c - 55)"

fun parse_mac :: "string \<Rightarrow> 8 word list" where
  "parse_mac (h # l # s) = of_nat (16 * hex_value h + hex_value l) # parse_mac s"
| "parse_mac _ = []"

lemma hex_value_digit: "d < 16 \<Longrightarrow> hex_value (hex_digit d) = d"
proof -
  have "\<forall>d \<in> set [0..<16]. hex_value (hex_digit d) = d"
    by (simp add: hex_value_def hex_digit_def upt_rec)
  then show "d < 16 \<Longrightarrow> hex_value (hex_digit d) = d" by simp
qed

lemma hex_digit_alphabet: "d < 16 \<Longrightarrow> hex_digit d \<in> set ''0123456789ABCDEF''"
  unfolding hex_digit_def by (rule nth_mem) simp

lemma unat_byte [simp]: "unat (b :: 8 word) < 256"
  using unsigned_less [of b] by simp

lemma parse_fmt_02X: "parse_mac (fmt_02X b @ s) = b # parse_mac s"
proof -
  have "unat b div 16 < 16"
    using unat_byte [of b] by (simp add: less_mult_imp_div_less)
  then have "16 * hex_value (hex_digit (unat b div 16)) + hex_value (hex_digit (unat b mod 16)) = unat b"
    by (simp add: hex_value_digit)
  moreover have "parse_mac (fmt_02X b @ s) =
      of_nat (16 * hex_value (hex_digit (unat b div 16)) + hex_value (hex_digit (unat b mod 16))) # parse_mac s"
    by (simp add: fmt_02X_def)
  ultimately show ?thesis by simp
qed

lemma length_fmt_02X [simp]: "length (fmt_02X b) = 2"
  by (simp add: fmt_02X_def)

lemma fmt_02X_alphabet: "set (fmt_02X b) \<subseteq> set ''0123456789ABCDEF''"
proof -
  have "unat b div 16 < 16"
    using unat_byte [of b] by (simp add: less_mult_imp_div_less)
  then show ?thesis
    using hex_digit_alphabet [of "unat b div 16"] hex_digit_alphabet [of "unat b mod 16"]
    by (simp add: fmt_02X_def)
qed

lemma write_unwrap_fits:
  "length s + length (concat ps) \<le> cap \<Longrightarrow> write_unwrap cap s ps = Inr (s @ concat ps)"
  by (induction ps arbitrary: s) (simp_all add: write_str_def)

lemma parse_mac_concat: "parse_mac (concat (map fmt_02X bs)) = bs"
  by (induction bs) (simp_all add: parse_fmt_02X)

lemma length_concat_fmt [simp]: "length (concat (map fmt_02X bs)) = 2 * length bs"
  by (induction bs) simp_all

lemma mac_hostname_closed:
  "mac_hostname mac =
     (if length mac \<in> {6, 8} then Inr (concat (map fmt_02X mac)) else Inl Invalid_Mac_Length)"
proof -
  have six: "length mac = 6 \<Longrightarrow> mac = [mac!0, mac!1, mac!2, mac!3, mac!4, mac!5]"
    by (rule nth_equalityI) (auto simp: less_Suc_eq numeral_eq_Suc)
  have eight: "length mac = 8 \<Longrightarrow>
      mac = [mac!0, mac!1, mac!2, mac!3, mac!4, mac!5, mac!6, mac!7]"
    by (rule nth_equalityI) (auto simp: less_Suc_eq numeral_eq_Suc)
  let ?w = "\<lambda>bs. write_unwrap 16 [] (map fmt_02X bs)"
  have w: "2 * length bs \<le> 16 \<Longrightarrow> ?w bs = Inr (concat (map fmt_02X bs))" for bs
    using write_unwrap_fits [of "[]" "map fmt_02X bs" 16] by simp
  consider "length mac = 6" | "length mac = 8" | "length mac \<notin> {6, 8}" by blast
  then show ?thesis
  proof cases
    case 1
    then have "mac_hostname mac = ?w [mac!0, mac!1, mac!2, mac!3, mac!4, mac!5]"
      by (simp add: mac_hostname_def)
    with 1 six w [of mac] show ?thesis by simp
  next
    case 2
    then have "mac_hostname mac = ?w [mac!0, mac!1, mac!2, mac!3, mac!4, mac!5, mac!6, mac!7]"
      by (simp add: mac_hostname_def)
    with 2 eight w [of mac] show ?thesis by simp
  next
    case 3
    then show ?thesis by (simp add: mac_hostname_def)
  qed
qed

section \<open>Setting the responder up\<close>

record ('w, 'e, 's) mdns_net =
  mn_bind :: "sock_addr \<Rightarrow> ('w, 'e, 's) call"
  mn_join_v4 :: "'s \<Rightarrow> ipv4 \<Rightarrow> ipv4 \<Rightarrow> ('w, 'e, unit) call"
  mn_join_v6 :: "'s \<Rightarrow> ipv6 \<Rightarrow> 32 word \<Rightarrow> ('w, 'e, unit) call"

record mdns_consts =
  mdns_port :: "16 word"
  mdns_ipv4_broadcast :: ipv4
  mdns_ipv6_broadcast :: ipv6

record mdns_host =
  mh_hostname :: string
  mh_ip :: ipv4
  mh_ipv6 :: "ipv6 list"

definition mdns_map_err :: "'e \<Rightarrow> error" where
  "mdns_map_err e = StdIoError"

definition builtin_mdns_run ::
    "mdns_consts \<Rightarrow> ('w, 'e, 's) mdns_net \<Rightarrow>
     ('s \<Rightarrow> mdns_host \<Rightarrow> ipv4 option \<Rightarrow> 32 word option \<Rightarrow> ('w, unit) act) \<Rightarrow>
     8 word list \<Rightarrow> ipv4 \<Rightarrow> ipv6 list \<Rightarrow> 32 word \<Rightarrow> ('w, unit) act" where
  "builtin_mdns_run cs net responder mac ip4 ip6 interface =
     act_then (act_map_err mdns_map_err (mn_bind net (Sock_V6 0 (mdns_port cs) 0 0)))
       (\<lambda>socket. act_then (act_map_err mdns_map_err (mn_join_v4 net socket (mdns_ipv4_broadcast cs) ip4))
         (\<lambda>_. act_then (act_map_err mdns_map_err (mn_join_v6 net socket (mdns_ipv6_broadcast cs) interface))
           (\<lambda>_. act_then (act_of (mac_hostname mac))
             (\<lambda>hostname. responder socket
                \<lparr>mh_hostname = hostname, mh_ip = ip4, mh_ipv6 = ip6\<rparr>
                (Some ip4) (Some interface)))))"

end
