(* ===== verification/Net_Spec.thy ===== *)
theory Net_Spec
  imports Mdns_Host Netif_Spec
begin

text \<open>
  What the network components promise: host names identify the MAC they are made of, the
  responder that the interface supervision starts has a valid host name, packets of the
  operational transport go to the network of their address, and a reply goes back over
  the socket its request came from.
\<close>

section \<open>Host names\<close>

lemma concat_fmt_alphabet: "set (concat (map fmt_02X bs)) \<subseteq> set ''0123456789ABCDEF''"
  unfolding set_concat set_map using fmt_02X_alphabet by (intro UN_least) blast

text \<open>
  C35. A MAC of six or eight bytes gives a host name of twice as many upper case hexadecimal
  digits, which fits the 16 bytes of its buffer and from which the MAC can be read back, so
  different MACs have different host names. Every other length is a panic, and nothing else is.
\<close>

theorem mac_hostname_roundtrip:
  "case mac_hostname mac of
     Inl p \<Rightarrow> p = Invalid_Mac_Length \<and> length mac \<notin> {6, 8}
   | Inr h \<Rightarrow> length mac \<in> {6, 8} \<and> length h = 2 * length mac \<and> length h \<le> 16 \<and>
       set h \<subseteq> set ''0123456789ABCDEF'' \<and> parse_mac h = mac"
proof (cases "length mac \<in> {6, 8}")
  case True
  then have h: "mac_hostname mac = Inr (concat (map fmt_02X mac))"
    by (simp add: mac_hostname_closed)
  have "length mac \<le> 8" using True by auto
  then show ?thesis
    unfolding h sum.case using True concat_fmt_alphabet [of mac]
    by (intro conjI) (simp_all only: parse_mac_concat length_concat_fmt)
next
  case False
  then show ?thesis by (simp add: mac_hostname_closed)
qed

lemma mac_hostname_8: "length mac = 8 \<Longrightarrow> mac_hostname mac = Inr (concat (map fmt_02X mac))"
  by (simp add: mac_hostname_closed)

lemma act_map_err_no_panic [simp]: "fst (act_map_err f m w) \<noteq> Inl p"
  by (simp add: act_map_err_def split: prod.split)

lemma act_then_no_panic:
  assumes "\<And>q. fst (m w) \<noteq> Inl q" and "\<And>x v q. fst (k x v) \<noteq> Inl q"
  shows "fst (act_then m k w) \<noteq> Inl p"
  using assms by (cases "m w") (auto simp: act_then_def split: sum.splits)

lemma builtin_mdns_run_no_panic:
  assumes "length mac \<in> {6, 8}"
    and "\<And>s h a i v q. fst (responder s h a i v) \<noteq> Inl q"
  shows "fst (builtin_mdns_run cs net responder mac ip4 ip6 interface w) \<noteq> Inl p"
proof -
  from assms(1) obtain h where "mac_hostname mac = Inr h"
    by (auto simp: mac_hostname_closed)
  then show ?thesis
    unfolding builtin_mdns_run_def
    by (intro act_then_no_panic) (simp_all add: assms(2))
qed

lemma loaded_mac_length:
  assumes "ns_operational (snd (load_netif_state snap st))"
    and "\<forall>ni \<in> set (fst snap). length (ni_hw_addr ni) = 8"
  shows "length (ns_mac (snd (load_netif_state snap st))) = 8"
  using load_source [OF assms(1)] assms(2) by auto

definition macs_8 :: "snapshot list \<Rightarrow> bool" where
  "macs_8 snaps \<longleftrightarrow> (\<forall>snap \<in> set snaps. \<forall>ni \<in> set (fst snap). length (ni_hw_addr ni) = 8)"

text \<open>
  The supervision of the interface never makes the built-in responder panic: the drivers'
  MACs are arrays of eight bytes, so whatever interfaces come and go and whatever the calls
  on the socket return, an invocation of the responder ends with an error or as the
  responder proper does.
\<close>

theorem supervised_responder_safe:
  assumes "\<forall>snap \<in> set snaps. snd snap = Inr ()" and "macs_8 snaps"
    and "st \<in> set (fst (run_oper_netif_mdns snaps))"
    and "mdns_task True st = Inr (Mdns_Run mac ip4 ip6 idx)"
    and "\<And>s h a i v q. fst (responder s h a i v) \<noteq> Inl q"
  shows "fst (builtin_mdns_run cs net responder mac ip4 ip6 idx w) \<noteq> Inl p"
proof -
  have "run_oper_netif_mdns snaps = (remdups_adj (loaded_states netif_state_new snaps), None)"
    using assms(1) by (rule run_oper_netif_mdns_ok)
  with assms(3) have "st \<in> set (loaded_states netif_state_new snaps)" by simp
  then obtain snap st1 where snap: "snap \<in> set snaps" "st = snd (load_netif_state snap st1)"
    using loaded_states_in by blast
  from assms(4) have up: "ns_operational st" and mac: "mac = ns_mac st"
    by (auto simp: mdns_task_def split: if_splits)
  from up snap assms(2) have "length mac = 8"
    using loaded_mac_length [of snap st1] by (auto simp: mac macs_8_def)
  then show ?thesis
    by (intro builtin_mdns_run_no_panic) (simp_all add: assms(5))
qed

definition null_net :: "(nat, nat, nat) mdns_net" where
  "null_net =
     \<lparr>mn_bind = (\<lambda>a w. (Inr 7, Suc w)), mn_join_v4 = (\<lambda>s g i w. (Inr (), Suc w)),
      mn_join_v6 = (\<lambda>s g i w. (Inl 3, Suc w))\<rparr>"

theorem supervised_responder_safe_witness:
  "fst (builtin_mdns_run \<lparr>mdns_port = 5353, mdns_ipv4_broadcast = 0xE00000FB, mdns_ipv6_broadcast = 0xFF\<rparr>
      null_net (\<lambda>s h a i. act_ok ()) [1, 2, 3, 4, 5, 6, 0, 0] 0 [0xFE80, 0x2001] 2 0) \<noteq> Inl Invalid_Mac_Length"
proof (rule supervised_responder_safe [of "[([sample_netif], Inr ())]" sample_up])
  show "\<forall>snap \<in> set [([sample_netif], Inr ())]. snd snap = (Inr () :: unit res)" by simp
  show "macs_8 [([sample_netif], Inr ())]" by (simp add: macs_8_def sample_netif_def)
  show "sample_up \<in> set (fst (run_oper_netif_mdns [([sample_netif], Inr ())]))"
    by (simp add: netif_eval netif_loop_Nil)
  show "mdns_task True sample_up = Inr (Mdns_Run [1, 2, 3, 4, 5, 6, 0, 0] 0 [0xFE80, 0x2001] 2)"
    by (simp add: mdns_task_def sample_up_def)
qed simp_all

section \<open>The operational transport\<close>

text \<open>
  \<open>ChainedNetwork\<close> (\<^verbatim>\<open>rs-matter\<close>) sends over its first network what its predicate accepts,
  and over the second the rest.
\<close>

definition chain_contract ::
    "(('o address \<Rightarrow> bool) \<Rightarrow> ('w, 'o) sender \<Rightarrow> ('w, 'o) sender \<Rightarrow> ('w, 'o) sender) \<Rightarrow> bool" where
  "chain_contract chain \<longleftrightarrow>
     (\<forall>p a b data addr w. chain p a b data addr w = (if p addr then a data addr w else b data addr w))"

definition chain_if ::
    "('o address \<Rightarrow> bool) \<Rightarrow> ('w, 'o) sender \<Rightarrow> ('w, 'o) sender \<Rightarrow> ('w, 'o) sender" where
  "chain_if p a b data addr = (if p addr then a data addr else b data addr)"

fun send_over ::
    "(('o address \<Rightarrow> bool) \<Rightarrow> ('w, 'o) sender \<Rightarrow> ('w, 'o) sender \<Rightarrow> ('w, 'o) sender) \<Rightarrow>
     ('w, 'o) send_net \<Rightarrow> ('w, 'o) sender" where
  "send_over chain (Send_Udp s) = s"
| "send_over chain (Send_Chained p a b) = chain p a b"

lemma open_oper_net_bound:
  assumes "bind (Sock_V6 0 port 0 iface) w = (Inr socket, w')"
  shows "open_oper_net port (Some bind) iface comm w = (Inr (Inr (oper_transport socket iface comm)), w')"
  using assms by (simp add: open_oper_net_def)

text \<open>
  C36. Once the socket is bound (on the unspecified IPv6 address, the Matter port and the scope
  of the interface), a packet for a UDP address is sent over that socket and over nothing
  else, its errors reported as I/O errors. A packet for any other address goes to the second
  transport where one runs beside it, and fails without touching the socket where none does.
\<close>

theorem oper_send_routing:
  assumes "chain_contract chain"
    and "bind (Sock_V6 0 port 0 iface) w = (Inr socket, w')"
  shows "\<exists>tn. open_oper_net port (Some bind) iface comm w = (Inr (Inr tn), w') \<and>
    (\<forall>data remote v. send_over chain (tn_send tn) data (Addr_Udp remote) v =
       (case us_send socket remote data v of
          (Inl e, v') \<Rightarrow> (Inr (Inl StdIoError), v') | (Inr u, v') \<Rightarrow> (Inr (Inr u), v'))) \<and>
    (\<forall>data x v. send_over chain (tn_send tn) data (Addr_Other x) v =
       (case comm of
          None \<Rightarrow> (Inr (Inl NoNetworkInterface), v)
        | Some (_, comm_send) \<Rightarrow> comm_send data (Addr_Other x) v))"
  using assms(1)
  by (auto simp: open_oper_net_bound [where bind = bind, OF assms(2)] oper_transport_def Let_def chain_contract_def udp_send_to_def udp_map_err_def
      act_map_err_def split: option.split prod.split sum.split)

definition echo_socket :: "(nat, nat) udp_socket" where
  "echo_socket =
     \<lparr>us_receive = (\<lambda>buf w. (Inr (w, Sock_V4 1 5540), w)),
      us_send = (\<lambda>r data w. (Inr (), w + length data)),
      us_join_v4 = (\<lambda>g i w. (Inr (), w)), us_leave_v4 = (\<lambda>g i w. (Inr (), w)),
      us_join_v6 = (\<lambda>g i w. (Inr (), w)), us_leave_v6 = (\<lambda>g i w. (Inr (), w))\<rparr>"

theorem oper_send_routing_witness:
  "\<exists>tn. open_oper_net 5540 (Some (\<lambda>a w. (Inr echo_socket, Suc w))) 0
      (Some ((\<lambda>buf. act_ok (0, Addr_Other ())), (\<lambda>data addr. act_err InvalidAction))) 4 = (Inr (Inr tn), 5) \<and>
    send_over chain_if (tn_send tn) [1, 2] (Addr_Udp (Sock_V4 9 9)) 10 = (Inr (Inr ()), 12) \<and>
    send_over chain_if (tn_send tn) [1, 2] (Addr_Other ()) 10 = (Inr (Inl InvalidAction), 10)"
proof -
  have chain: "chain_contract (chain_if :: (unit address \<Rightarrow> bool) \<Rightarrow> (nat, unit) sender \<Rightarrow> _)"
    by (simp add: chain_contract_def chain_if_def)
  let ?comm = "Some ((\<lambda>buf. act_ok (0, Addr_Other ())), (\<lambda>data addr. act_err InvalidAction))"
  from oper_send_routing [OF chain, where bind = "\<lambda>a w. (Inr echo_socket, Suc w)"
      and w = 4 and socket = echo_socket and w' = 5 and comm = ?comm and port = 5540 and iface = 0]
  obtain tn where
    tn: "open_oper_net 5540 (Some (\<lambda>a w. (Inr echo_socket, Suc w))) 0 ?comm 4 = (Inr (Inr tn), 5)"
    and udp: "\<And>data remote v. send_over chain_if (tn_send tn) data (Addr_Udp remote) v =
       (case us_send echo_socket remote data v of
          (Inl e, v') \<Rightarrow> (Inr (Inl StdIoError), v') | (Inr u, v') \<Rightarrow> (Inr (Inr u), v'))"
    and other: "\<And>data v. send_over chain_if (tn_send tn) data (Addr_Other ()) v = act_err InvalidAction v"
    by auto
  from tn show ?thesis
    by (intro exI [of _ tn]) (simp add: udp other echo_socket_def)
qed

text \<open>
  What is received over a UDP socket has a UDP address, and a reply to that address is
  sent by the socket to the very peer the packet came from; a failing receive is an I/O error.
\<close>

theorem udp_reply_path:
  "case udp_recv_from receive buffer w of
     (Inr (Inr (n, addr)), w') \<Rightarrow>
       (\<exists>peer. receive buffer w = (Inr (n, peer), w') \<and> is_udp addr \<and>
          udp_send_to send reply addr = act_map_err udp_map_err (send peer reply))
   | (Inr (Inl e), w') \<Rightarrow> e = StdIoError \<and> isl (fst (receive buffer w)) \<and> w' = snd (receive buffer w)
   | (Inl p, w') \<Rightarrow> False"
proof (cases "receive buffer w")
  case (Pair r w')
  then show ?thesis
  proof (cases r)
    case (Inl e)
    with Pair show ?thesis
      by (simp add: udp_recv_from_def act_then_def act_map_err_def udp_map_err_def)
  next
    case (Inr sa)
    with Pair show ?thesis
      by (cases sa)
        (simp add: udp_recv_from_def act_then_def act_map_err_def udp_send_to_def)
  qed
qed

end
