(* ===== verification/Comm_Window.thy ===== *)
theory Comm_Window
  imports Stack_Base
begin

text \<open>
  The tasks of \<^verbatim>\<open>src/src/wireless.rs\<close> that follow the commissioning window:
  \<open>wait_comm_window\<close> with its subscription, at the grain of single reads and notifications,
  and \<open>wait_next_comm_window\<close>, \<open>run_gatt_while_ble_commissionable\<close> and \<open>run_btp\<close> as tasks
  that observe one window state at each evaluation. \<open>CommWindowState\<close> is a type of
  \<^verbatim>\<open>rs-matter\<close>: a type parameter with its two predicates.
\<close>

section \<open>Window states\<close>

record 'q window_preds =
  is_open :: "'q \<Rightarrow> bool"
  is_open_on_all_transports :: "'q \<Rightarrow> bool"

text \<open>A window that is open on all transports is open.\<close>

definition window_contract :: "'q window_preds \<Rightarrow> bool" where
  "window_contract wp \<longleftrightarrow> (\<forall>q. is_open_on_all_transports wp q \<longrightarrow> is_open wp q)"

text \<open>The window states an instance of the contract distinguishes.\<close>

datatype window = Closed | Open_Basic | Open_Over_Case

definition plain_preds :: "window window_preds" where
  "plain_preds = \<lparr>is_open = (\<lambda>q. q \<noteq> Closed), is_open_on_all_transports = (\<lambda>q. q = Open_Basic)\<rparr>"

lemma window_contract_plain: "window_contract plain_preds"
  by (simp add: window_contract_def plain_preds_def)

section \<open>\<open>wait_comm_window\<close>\<close>

text \<open>
  The window state of the \<open>Matter\<close> instance is written by other code, which notifies after
  each write. A future of \<open>wait_comm_window_changed\<close> is ready once a notification was made
  after the future was created: it keeps the number of notifications made until then.
\<close>

record 'q window_chan =
  ch_window :: 'q
  ch_notified :: nat
  ch_pending_notify :: bool

datatype 'q wait_pc =
    Wait_Subscribe
  | Wait_Read nat
  | Wait_Changed nat
  | Wait_Done 'q

inductive wait_step ::
    "('q \<Rightarrow> bool) \<Rightarrow> 'q window_chan \<times> 'q wait_pc \<Rightarrow> 'q window_chan \<times> 'q wait_pc \<Rightarrow> bool"
  for until where
  env_write:
    "wait_step until (ch, pc) (ch\<lparr>ch_window := q, ch_pending_notify := True\<rparr>, pc)"
| env_notify:
    "wait_step until (ch, pc)
       (ch\<lparr>ch_notified := Suc (ch_notified ch), ch_pending_notify := False\<rparr>, pc)"
| subscribe:
    "wait_step until (ch, Wait_Subscribe) (ch, Wait_Read (ch_notified ch))"
| read_accept:
    "until (ch_window ch) \<Longrightarrow>
     wait_step until (ch, Wait_Read v) (ch, Wait_Done (ch_window ch))"
| read_reject:
    "\<not> until (ch_window ch) \<Longrightarrow>
     wait_step until (ch, Wait_Read v) (ch, Wait_Changed v)"
| wake:
    "ch_notified ch \<noteq> v \<Longrightarrow>
     wait_step until (ch, Wait_Changed v) (ch, Wait_Subscribe)"

inductive_cases wait_stepE: "wait_step until (ch, pc) s'"

inductive_simps wait_step_blocked: "wait_step until (ch, Wait_Changed v) (ch', pc')"

text \<open>The steps the waiter itself can make, as a function (\<open>None\<close> when it has to sleep).\<close>

fun waiter_step :: "('q \<Rightarrow> bool) \<Rightarrow> 'q window_chan \<Rightarrow> 'q wait_pc \<Rightarrow> 'q wait_pc option" where
  "waiter_step until ch Wait_Subscribe = Some (Wait_Read (ch_notified ch))"
| "waiter_step until ch (Wait_Read v) =
     Some (if until (ch_window ch) then Wait_Done (ch_window ch) else Wait_Changed v)"
| "waiter_step until ch (Wait_Changed v) =
     (if ch_notified ch \<noteq> v then Some Wait_Subscribe else None)"
| "waiter_step until ch (Wait_Done q) = None"

lemma waiter_step_sound: "waiter_step until ch pc = Some pc' \<Longrightarrow> wait_step until (ch, pc) (ch, pc')"
  by (cases pc) (auto intro: wait_step.intros split: if_splits)

section \<open>Waiting for the next window\<close>

text \<open>
  One evaluation reads the window once. \<open>Next_Gone\<close>: waiting until no window is open on all
  transports; \<open>Next_New\<close>: waiting until one is.
\<close>

fun wait_task :: "('q \<Rightarrow> bool) \<Rightarrow> (unit, 'q, 'q) task" where
  "wait_task until () q = (if until q then Inl q else Inr ())"

lemma wait_task_case [simp]:
  "(case wait_task until () q of Inl x \<Rightarrow> f x | Inr _ \<Rightarrow> b) = (if until q then f q else b)"
  by simp

declare wait_task.simps [simp del]

datatype next_pc = Next_Gone | Next_New

fun wait_next_comm_window :: "'q window_preds \<Rightarrow> (next_pc, 'q, unit) task" where
  "wait_next_comm_window wp Next_Gone q =
     (case wait_task (\<lambda>q. \<not> is_open_on_all_transports wp q) () q of
        Inl _ \<Rightarrow> Inr Next_New
      | Inr _ \<Rightarrow> Inr Next_Gone)"
| "wait_next_comm_window wp Next_New q =
     (case wait_task (is_open_on_all_transports wp) () q of
        Inl _ \<Rightarrow> Inl ()
      | Inr _ \<Rightarrow> Inr Next_New)"

section \<open>The BLE peripheral beside the operational network\<close>

text \<open>
  The await points of the loop of \<open>run_gatt_while_ble_commissionable\<close>. An observation is a
  window state and what the peripheral's future returns when polled; the latter is used
  while the peripheral runs, which is in \<open>Gatt_Advertising\<close> only: its future is created on
  entering that state and dropped on leaving it.
\<close>

datatype gatt_pc = Gatt_Wait_Open | Gatt_Wait_Closed | Gatt_Advertising

fun run_gatt_while_ble_commissionable ::
    "(unit res option list \<Rightarrow> unit res option) \<Rightarrow> 'q window_preds \<Rightarrow>
     (gatt_pc, 'q \<times> unit res option, unit res) task" where
  "run_gatt_while_ble_commissionable sel wp Gatt_Wait_Open (q, p) =
     (case wait_task (is_open wp) () q of
        Inl state \<Rightarrow>
          if \<not> is_open_on_all_transports wp state then Inr Gatt_Wait_Closed
          else Inr Gatt_Advertising
      | Inr _ \<Rightarrow> Inr Gatt_Wait_Open)"
| "run_gatt_while_ble_commissionable sel wp Gatt_Wait_Closed (q, p) =
     (case wait_task (\<lambda>q. \<not> is_open wp q) () q of
        Inl _ \<Rightarrow> Inr Gatt_Wait_Open
      | Inr _ \<Rightarrow> Inr Gatt_Wait_Closed)"
| "run_gatt_while_ble_commissionable sel wp Gatt_Advertising (q, p) =
     (let closed = (case wait_task (\<lambda>q. \<not> is_open wp q) () q of
                      Inl _ \<Rightarrow> Some (Inr ()) | Inr _ \<Rightarrow> None)
      in case sel [p, closed] of
           None \<Rightarrow> Inr Gatt_Advertising
         | Some (Inl e) \<Rightarrow> Inl (Inl e)
         | Some (Inr _) \<Rightarrow> Inr Gatt_Wait_Open)"

section \<open>The BLE phase of non-concurrent commissioning\<close>

record 'q btp_obs =
  bo_peripheral :: "unit res option"
  bo_transport :: "unit res option"
  bo_prov_ready :: bool
  bo_timer :: bool
  bo_window :: 'q

datatype act_pc = Act_Wait_Prov | Act_Timer

text \<open>\<open>oper_net_act_task\<close>: wait for the credentials, then two seconds.\<close>

fun oper_net_act_task :: "(act_pc, bool \<times> bool, unit res) task" where
  "oper_net_act_task Act_Wait_Prov (prov_ready, timer) =
     (if prov_ready then Inr Act_Timer else Inr Act_Wait_Prov)"
| "oper_net_act_task Act_Timer (prov_ready, timer) =
     (if timer then Inl (Inr ()) else Inr Act_Timer)"

definition run_btp ::
    "(unit res option list \<Rightarrow> unit res option) \<Rightarrow> 'q window_preds \<Rightarrow>
     (act_pc, 'q btp_obs, unit res) task" where
  "run_btp sel wp pc ob =
     (let act = oper_net_act_task pc (bo_prov_ready ob, bo_timer ob);
          oper_net_act = (case act of Inl r \<Rightarrow> Some r | Inr _ \<Rightarrow> None);
          comm_window =
            (case wait_task (\<lambda>q. \<not> is_open_on_all_transports wp q) () (bo_window ob) of
               Inl _ \<Rightarrow> Some (Inr ()) | Inr _ \<Rightarrow> None)
      in case sel [bo_peripheral ob, bo_transport ob, oper_net_act, comm_window] of
           Some r \<Rightarrow> Inl r
         | None \<Rightarrow> Inr (case act of Inl _ \<Rightarrow> pc | Inr pc' \<Rightarrow> pc'))"

section \<open>Networking status\<close>

record 'st net_ctl_state =
  ncs_network_id :: "8 word list"
  ncs_networking_status :: "'st option"
  ncs_connect_error_value :: "32 word option"

definition reset_net_ctl_state :: "'st net_ctl_state \<Rightarrow> 'st net_ctl_state" where
  "reset_net_ctl_state st =
     st\<lparr>ncs_network_id := [], ncs_networking_status := None, ncs_connect_error_value := None\<rparr>"

text \<open>
  \<open>is_prov_ready\<close> of \<^verbatim>\<open>rs-matter\<close>: the verdict of a successful connect, so never that of
  a state without a status.
\<close>

definition prov_ready_contract :: "('st net_ctl_state \<Rightarrow> bool) \<Rightarrow> bool" where
  "prov_ready_contract ready \<longleftrightarrow> (\<forall>st. ncs_networking_status st = None \<longrightarrow> \<not> ready st)"

end
