(* ===== verification/Comm_Spec.thy ===== *)
theory Comm_Spec
  imports Comm_Window
begin

text \<open>
  What the tasks that follow the commissioning window promise: no notification is lost,
  the next window is a rising edge, the BLE peripheral is up exactly for the windows that
  were first seen open on all transports, and what ends a BLE phase.
\<close>

section \<open>No lost wake-up\<close>

fun wait_inv :: "('q \<Rightarrow> bool) \<Rightarrow> 'q window_chan \<times> 'q wait_pc \<Rightarrow> bool" where
  "wait_inv until (ch, Wait_Subscribe) = True"
| "wait_inv until (ch, Wait_Read v) = (v \<le> ch_notified ch)"
| "wait_inv until (ch, Wait_Changed v) =
     (v \<le> ch_notified ch \<and>
      (v = ch_notified ch \<and> \<not> ch_pending_notify ch \<longrightarrow> \<not> until (ch_window ch)))"
| "wait_inv until (ch, Wait_Done q) = until q"

lemma wait_step_inv: "wait_step until s s' \<Longrightarrow> wait_inv until s \<Longrightarrow> wait_inv until s'"
proof (induction rule: wait_step.induct)
  case (env_write ch pc q)
  then show ?case by (cases pc) auto
next
  case (env_notify ch pc)
  then show ?case by (cases pc) auto
qed auto

lemma wait_reach_inv:
  assumes "(wait_step until)\<^sup>*\<^sup>* s s'" and "wait_inv until s"
  shows "wait_inv until s'"
  using assms by (induction rule: rtranclp_induct) (auto intro: wait_step_inv)

text \<open>
  C25. A waiter of \<open>wait_comm_window\<close> that has to sleep, with no notification outstanding, is
  not waiting for the window state that is there: whatever writes and notifications come
  between its subscription, its read and its sleep, none that it waits for is missed. And
  what it returns has satisfied its condition.
\<close>

theorem no_lost_wakeup:
  assumes "(wait_step until)\<^sup>*\<^sup>* (ch0, Wait_Subscribe) (ch, pc)"
  shows "(waiter_step until ch pc = None \<and> \<not> ch_pending_notify ch \<and> until (ch_window ch) \<longrightarrow>
      (\<exists>q. pc = Wait_Done q)) \<and>
    (\<forall>q. pc = Wait_Done q \<longrightarrow> until q)"
proof -
  have "wait_inv until (ch, pc)"
    using wait_reach_inv [OF assms] by simp
  then show ?thesis
    by (cases pc) (auto split: if_splits)
qed

fun waiter_run :: "('q \<Rightarrow> bool) \<Rightarrow> nat \<Rightarrow> 'q window_chan \<Rightarrow> 'q wait_pc \<Rightarrow> 'q wait_pc" where
  "waiter_run until 0 ch pc = pc"
| "waiter_run until (Suc n) ch pc =
     (case waiter_step until ch pc of None \<Rightarrow> pc | Some pc' \<Rightarrow> waiter_run until n ch pc')"

definition chan0 :: "window window_chan" where
  "chan0 = \<lparr>ch_window = Closed, ch_notified = 0, ch_pending_notify = False\<rparr>"

definition chan1 :: "window window_chan" where
  "chan1 = \<lparr>ch_window = Open_Basic, ch_notified = 1, ch_pending_notify = False\<rparr>"

text \<open>The window opens between the waiter's subscription and its read; then it is closed and reopened.\<close>

lemma sample_wait_run:
  "(wait_step (\<lambda>q. q = Open_Basic))\<^sup>*\<^sup>* (chan0, Wait_Subscribe) (chan1, Wait_Changed 0)"
proof -
  let ?u = "\<lambda>q. q = Open_Basic"
  have 1: "wait_step ?u (chan0, Wait_Subscribe) (chan0, Wait_Read 0)"
    using wait_step.subscribe [of ?u chan0] by (simp add: chan0_def)
  have 2: "wait_step ?u (chan0, Wait_Read 0) (chan0, Wait_Changed 0)"
    by (rule wait_step.read_reject) (simp add: chan0_def)
  have 3: "wait_step ?u (chan0, Wait_Changed 0)
      (chan0\<lparr>ch_window := Open_Basic, ch_pending_notify := True\<rparr>, Wait_Changed 0)"
    by (rule wait_step.env_write)
  have 4: "wait_step ?u (chan0\<lparr>ch_window := Open_Basic, ch_pending_notify := True\<rparr>, Wait_Changed 0)
      (chan1, Wait_Changed 0)"
    using wait_step.env_notify [of ?u "chan0\<lparr>ch_window := Open_Basic, ch_pending_notify := True\<rparr>"]
    by (simp add: chan0_def chan1_def)
  from 1 2 3 4 show ?thesis by (meson converse_rtranclp_into_rtranclp rtranclp.rtrancl_refl)
qed

theorem no_lost_wakeup_witness:
  "waiter_step (\<lambda>q. q = Open_Basic) chan1 (Wait_Changed 0) \<noteq> None"
  using no_lost_wakeup [OF sample_wait_run] by (auto simp: chan1_def)

text \<open>
  A wait completes: once the window is one that is waited for and stays, with its
  notification made, the waiter returns it within three steps of its own, wherever the
  change found it.
\<close>

theorem wait_completes:
  assumes "(wait_step until)\<^sup>*\<^sup>* (ch0, Wait_Subscribe) (ch, pc)"
    and "until (ch_window ch)" and "\<not> ch_pending_notify ch"
  shows "\<exists>q. waiter_run until 3 ch pc = Wait_Done q \<and> until q \<and>
    (q = ch_window ch \<or> pc = Wait_Done q)"
proof -
  have "wait_inv until (ch, pc)"
    using wait_reach_inv [OF assms(1)] by simp
  with assms(2,3) show ?thesis
    by (cases pc) (auto simp: numeral_eq_Suc)
qed

theorem wait_completes_witness:
  "waiter_run (\<lambda>q. q = Open_Basic) 3 chan1 (Wait_Changed 0) = Wait_Done Open_Basic"
  using wait_completes [OF sample_wait_run] by (auto simp: chan1_def)

section \<open>The next window\<close>

lemma next_new_iff:
  "run_ops (wait_next_comm_window wp) Next_New qs = Inl () \<longleftrightarrow>
   (\<exists>q \<in> set qs. is_open_on_all_transports wp q)"
  by (induction qs) simp_all

lemma next_gone_iff:
  "run_ops (wait_next_comm_window wp) Next_Gone qs = Inl () \<longleftrightarrow>
   (\<exists>xs q ys. qs = xs @ q # ys \<and> \<not> is_open_on_all_transports wp q \<and>
      (\<exists>q' \<in> set ys. is_open_on_all_transports wp q'))"
proof (induction qs)
  case Nil
  then show ?case by simp
next
  case (Cons a qs)
  show ?case
  proof (cases "is_open_on_all_transports wp a")
    case True
    with Cons show ?thesis by (auto simp: Cons_eq_append_conv)
  next
    case False
    have "(\<exists>xs q ys. a # qs = xs @ q # ys \<and> \<not> is_open_on_all_transports wp q \<and>
        (\<exists>q' \<in> set ys. is_open_on_all_transports wp q')) \<longleftrightarrow>
      (\<exists>q' \<in> set qs. is_open_on_all_transports wp q')"
      using False by (auto simp: Cons_eq_append_conv intro: exI [of _ "[]"])
    with False show ?thesis by (simp add: next_new_iff)
  qed
qed

text \<open>
  \<open>wait_next_comm_window\<close> resolves on a rising edge and nothing else: it has seen no
  window open on all transports at one evaluation, and one at a later evaluation. In
  particular the window that is open on entry does not count, however long it stays.
\<close>

theorem next_window_rising_edge:
  "run_ops (wait_next_comm_window wp) Next_Gone qs = Inl () \<longleftrightarrow>
   (\<exists>xs q ys q' zs. qs = xs @ q # ys @ q' # zs \<and>
      \<not> is_open_on_all_transports wp q \<and> is_open_on_all_transports wp q')"
proof -
  have "(\<exists>q' \<in> set ys. is_open_on_all_transports wp q') \<longleftrightarrow>
      (\<exists>as q' zs. ys = as @ q' # zs \<and> is_open_on_all_transports wp q')" for ys
    using split_list_prop [of ys "is_open_on_all_transports wp"] by auto
  then show ?thesis unfolding next_gone_iff by blast
qed

section \<open>The peripheral and the window\<close>

definition open_suffix :: "'q window_preds \<Rightarrow> 'q list \<Rightarrow> 'q list" where
  "open_suffix wp qs = rev (takeWhile (is_open wp) (rev qs))"

lemma open_suffix_Nil [simp]: "open_suffix wp [] = []"
  by (simp add: open_suffix_def)

lemma open_suffix_snoc [simp]:
  "open_suffix wp (qs @ [q]) = (if is_open wp q then open_suffix wp qs @ [q] else [])"
  by (simp add: open_suffix_def)

definition gatt_state :: "'q window_preds \<Rightarrow> 'q list \<Rightarrow> gatt_pc" where
  "gatt_state wp qs =
     (case open_suffix wp qs of
        [] \<Rightarrow> Gatt_Wait_Open
      | q # _ \<Rightarrow> if is_open_on_all_transports wp q then Gatt_Advertising else Gatt_Wait_Closed)"

lemma select_pair:
  assumes "select_contract sel"
  shows "sel [None, None] = None" and "sel [None, Some r] = Some r"
    and "sel [Some r, None] = Some r"
proof -
  show "sel [None, None] = None"
    using select_contract_None [OF assms, of "[None, None]"] by simp
  have "sel [None, Some r] \<noteq> None" and "sel [Some r, None] \<noteq> None"
    using select_contract_None [OF assms] by auto
  then show "sel [None, Some r] = Some r" and "sel [Some r, None] = Some r"
    using select_contract_Some [OF assms] by force+
qed

lemma gatt_run:
  assumes "select_contract sel" and "window_contract wp"
  shows "run_ops (run_gatt_while_ble_commissionable sel wp) Gatt_Wait_Open
    (map (\<lambda>q. (q, None)) qs) = Inr (gatt_state wp qs)"
proof (induction qs rule: rev_induct)
  case Nil
  then show ?case by (simp add: gatt_state_def)
next
  case (snoc q qs)
  have closed: "\<not> is_open wp q \<Longrightarrow> \<not> is_open_on_all_transports wp q"
    using assms(2) by (auto simp: window_contract_def)
  show ?case
    by (cases "open_suffix wp qs")
      (auto simp: run_ops_append snoc gatt_state_def select_pair [OF assms(1)] Let_def closed)
qed

text \<open>
  C28. While the peripheral keeps running, whether it is up is decided by the first window
  state seen since the window was last seen closed: it is up when that one was open on all
  transports, and it is down when it was opened over CASE or when the window is closed.
\<close>

theorem gatt_follows_first_open:
  assumes "select_contract sel" and "window_contract wp"
  shows "run_ops (run_gatt_while_ble_commissionable sel wp) Gatt_Wait_Open
    (map (\<lambda>q. (q, None)) qs) =
    Inr (case open_suffix wp qs of
           [] \<Rightarrow> Gatt_Wait_Open
         | q # _ \<Rightarrow> if is_open_on_all_transports wp q then Gatt_Advertising else Gatt_Wait_Closed)"
  using gatt_run [OF assms] by (simp add: gatt_state_def)

theorem gatt_follows_first_open_witness:
  "run_ops (run_gatt_while_ble_commissionable select_first plain_preds) Gatt_Wait_Open
     (map (\<lambda>q. (q, None)) [Open_Basic, Closed, Open_Over_Case]) = Inr Gatt_Wait_Closed"
  using gatt_follows_first_open [OF select_contract_first window_contract_plain,
      of "[Open_Basic, Closed, Open_Over_Case]"]
  by (simp add: open_suffix_def plain_preds_def)

definition opener_stable :: "'q window_preds \<Rightarrow> 'q list \<Rightarrow> bool" where
  "opener_stable wp qs \<longleftrightarrow>
     successively (\<lambda>a b. is_open wp a \<and> is_open wp b \<longrightarrow>
       is_open_on_all_transports wp a = is_open_on_all_transports wp b) qs"

lemma opener_stable_suffix:
  assumes "opener_stable wp qs" and "open_suffix wp qs = q # rs"
  shows "is_open_on_all_transports wp (last qs) = is_open_on_all_transports wp q"
  using assms
proof (induction qs arbitrary: rs rule: rev_induct)
  case Nil
  then show ?case by simp
next
  case (snoc a qs)
  show ?case
  proof (cases "open_suffix wp qs")
    case Nil
    with snoc.prems show ?thesis by (simp split: if_splits)
  next
    case (Cons b bs)
    with snoc.prems have q: "q = b" and a: "is_open wp a" by (auto split: if_splits)
    have ne: "qs \<noteq> []" using Cons by auto
    then have "is_open wp (last qs)"
      using Cons by (cases qs rule: rev_cases) (auto split: if_splits)
    with snoc.prems(1) a ne have "is_open_on_all_transports wp (last qs) = is_open_on_all_transports wp a"
      by (simp add: opener_stable_def successively_append_iff)
    moreover have "opener_stable wp qs"
      using snoc.prems(1) by (simp add: opener_stable_def successively_append_iff)
    ultimately show ?thesis using snoc.IH Cons q by simp
  qed
qed

text \<open>
  When no window is closed and another opened between two evaluations (so that the opener
  of a window seen open twice in a row is the same), the peripheral is up exactly while the
  window is open on all transports.
\<close>

theorem gatt_up_iff_commissionable:
  assumes "select_contract sel" and "window_contract wp" and "opener_stable wp qs"
  shows "run_ops (run_gatt_while_ble_commissionable sel wp) Gatt_Wait_Open
      (map (\<lambda>q. (q, None)) qs) = Inr Gatt_Advertising \<longleftrightarrow>
    qs \<noteq> [] \<and> is_open_on_all_transports wp (last qs)"
proof (cases "open_suffix wp qs")
  case Nil
  then have "qs \<noteq> [] \<Longrightarrow> \<not> is_open wp (last qs)"
    by (cases qs rule: rev_cases) (auto split: if_splits)
  with Nil assms(2) show ?thesis
    by (auto simp: gatt_run [OF assms(1,2)] gatt_state_def window_contract_def)
next
  case (Cons q rs)
  then have "qs \<noteq> []" by auto
  with Cons opener_stable_suffix [OF assms(3) Cons] show ?thesis
    by (simp add: gatt_run [OF assms(1,2)] gatt_state_def)
qed

theorem gatt_up_iff_commissionable_witness:
  "run_ops (run_gatt_while_ble_commissionable select_first plain_preds) Gatt_Wait_Open
     (map (\<lambda>q. (q, None)) [Open_Over_Case, Closed, Open_Basic]) = Inr Gatt_Advertising"
  using gatt_up_iff_commissionable [OF select_contract_first window_contract_plain,
      of "[Open_Over_Case, Closed, Open_Basic]"]
  by (simp add: opener_stable_def plain_preds_def)

lemma gatt_step_end:
  assumes "select_contract sel"
    and "run_gatt_while_ble_commissionable sel wp pc (q, p) = Inl r"
  shows "\<exists>e. r = Inl e \<and> p = Some (Inl e) \<and> pc = Gatt_Advertising"
proof -
  have pc: "pc = Gatt_Advertising"
    using assms(2) by (cases pc) (auto split: if_splits)
  obtain c where c: "c \<in> {None, Some (Inr ())}" and e: "\<exists>e. sel [p, c] = Some (Inl e) \<and> r = Inl e"
    using assms(2) pc
    by (cases "is_open wp q") (auto split: option.splits sum.splits)
  then obtain e where "sel [p, c] = Some (Inl e)" and r: "r = Inl e" by blast
  from select_contract_Some [OF assms(1) this(1)] c have "p = Some (Inl e)" by auto
  with r pc show ?thesis by simp
qed

text \<open>
  The task never returns unless the peripheral fails: when it completes, it does so with
  an error that the running peripheral returned.
\<close>

theorem gatt_ends_with_peripheral_error:
  assumes "select_contract sel"
    and "run_ops (run_gatt_while_ble_commissionable sel wp) Gatt_Wait_Open obs = Inl r"
  shows "\<exists>e q. r = Inl e \<and> (q, Some (Inl e)) \<in> set obs"
proof -
  have "run_ops (run_gatt_while_ble_commissionable sel wp) pc obs = Inl r \<Longrightarrow>
      \<exists>e q. r = Inl e \<and> (q, Some (Inl e)) \<in> set obs" for pc
  proof (induction obs arbitrary: pc)
    case Nil
    then show ?case by simp
  next
    case (Cons ob obs)
    obtain q p where ob: "ob = (q, p)" by fastforce
    from Cons.prems consider "run_gatt_while_ble_commissionable sel wp pc (q, p) = Inl r"
      | pc' where "run_ops (run_gatt_while_ble_commissionable sel wp) pc' obs = Inl r"
      by (auto simp: and_then_Inl_iff ob)
    then show ?case
    proof cases
      case 1
      from gatt_step_end [OF assms(1) 1] show ?thesis by (auto simp: ob)
    next
      case 2
      from Cons.IH [OF 2] show ?thesis by auto
    qed
  qed
  with assms(2) show ?thesis by blast
qed

theorem gatt_ends_with_peripheral_error_witness:
  "\<exists>e q. (Inl StdIoError :: unit res) = Inl e \<and>
     (q, Some (Inl e :: unit res)) \<in> set [(Open_Basic, None), (Open_Basic, Some (Inl StdIoError))]"
proof -
  have "run_ops (run_gatt_while_ble_commissionable select_first plain_preds) Gatt_Wait_Open
      [(Open_Basic, None), (Open_Basic, Some (Inl StdIoError))] = Inl (Inl StdIoError)"
    by (simp add: plain_preds_def select_first_def)
  from gatt_ends_with_peripheral_error [OF select_contract_first this] show ?thesis .
qed

section \<open>The BLE phase\<close>

definition btp_quiet :: "'q window_preds \<Rightarrow> 'q btp_obs \<Rightarrow> bool" where
  "btp_quiet wp ob \<longleftrightarrow>
     bo_peripheral ob = None \<and> bo_transport ob = None \<and>
     is_open_on_all_transports wp (bo_window ob)"

lemma run_btp_pending:
  assumes "select_contract sel"
  shows "run_btp sel wp pc ob = Inr pc' \<longleftrightarrow>
    btp_quiet wp ob \<and> oper_net_act_task pc (bo_prov_ready ob, bo_timer ob) = Inr pc'"
  by (cases "oper_net_act_task pc (bo_prov_ready ob, bo_timer ob)")
    (auto simp: run_btp_def btp_quiet_def select4_None [OF assms]
      select4_None [OF assms, of None None None None, simplified] split: option.split)

lemma run_btp_step:
  assumes "select_contract sel"
  shows "run_btp sel wp pc ob = Inr pc' \<longleftrightarrow>
    btp_quiet wp ob \<and>
    (case pc of
       Act_Wait_Prov \<Rightarrow> pc' = (if bo_prov_ready ob then Act_Timer else Act_Wait_Prov)
     | Act_Timer \<Rightarrow> \<not> bo_timer ob \<and> pc' = Act_Timer)"
  by (cases pc) (auto simp: run_btp_pending [OF assms])

lemma btp_timer_run:
  assumes "select_contract sel"
  shows "run_ops (run_btp sel wp) Act_Timer obs = Inr pc \<longleftrightarrow>
    pc = Act_Timer \<and> list_all (\<lambda>ob. btp_quiet wp ob \<and> \<not> bo_timer ob) obs"
  by (induction obs) (auto simp: and_then_Inr_iff run_btp_step [OF assms])

lemma btp_run:
  assumes "select_contract sel"
  shows "(\<exists>pc. run_ops (run_btp sel wp) Act_Wait_Prov obs = Inr pc) \<longleftrightarrow>
    list_all (btp_quiet wp) obs \<and>
    list_all (\<lambda>ob. \<not> bo_timer ob) (tl (dropWhile (\<lambda>ob. \<not> bo_prov_ready ob) obs))"
proof (induction obs)
  case Nil
  then show ?case by simp
next
  case (Cons ob obs)
  then show ?case
    by (cases "bo_prov_ready ob")
      (auto simp: and_then_Inr_iff run_btp_step [OF assms] btp_timer_run [OF assms] list_all_iff)
qed

text \<open>
  C29. The BLE phase of non-concurrent commissioning goes on exactly as long as the
  peripheral and the transport run, the window is open on all transports, and the two
  seconds after the evaluation at which the credentials were found have not passed.
\<close>

theorem btp_phase_continues:
  assumes "select_contract sel"
  shows "(\<exists>pc. run_ops (run_btp sel wp) Act_Wait_Prov obs = Inr pc) \<longleftrightarrow>
    list_all (btp_quiet wp) obs \<and>
    list_all (\<lambda>ob. \<not> bo_timer ob) (tl (dropWhile (\<lambda>ob. \<not> bo_prov_ready ob) obs))"
  using assms by (rule btp_run)

definition quiet_obs :: "bool \<Rightarrow> bool \<Rightarrow> window btp_obs" where
  "quiet_obs prov timer =
     \<lparr>bo_peripheral = None, bo_transport = None, bo_prov_ready = prov, bo_timer = timer,
      bo_window = Open_Basic\<rparr>"

lemmas btp_eval = quiet_obs_def btp_quiet_def plain_preds_def

theorem btp_phase_continues_witness:
  "(\<exists>pc. run_ops (run_btp select_first plain_preds) Act_Wait_Prov
      [quiet_obs False True, quiet_obs True True, quiet_obs True False] = Inr pc) \<and>
   \<not> (\<exists>pc. run_ops (run_btp select_first plain_preds) Act_Wait_Prov
      [quiet_obs True False, quiet_obs True True] = Inr pc)"
  unfolding btp_phase_continues [OF select_contract_first]
  by (simp add: btp_eval)

lemma btp_end_step:
  assumes "select_contract sel" and "run_btp sel wp pc ob = Inl r"
  shows "bo_peripheral ob = Some r \<or> bo_transport ob = Some r \<or>
    (r = Inr () \<and> (\<not> is_open_on_all_transports wp (bo_window ob) \<or> (pc = Act_Timer \<and> bo_timer ob)))"
proof -
  let ?act = "case oper_net_act_task pc (bo_prov_ready ob, bo_timer ob) of Inl r \<Rightarrow> Some r | Inr _ \<Rightarrow> None"
  let ?cl = "if \<not> is_open_on_all_transports wp (bo_window ob) then Some (Inr ()) else None"
  have "sel [bo_peripheral ob, bo_transport ob, ?act, ?cl] = Some r"
    using assms(2) unfolding run_btp_def Let_def wait_task_case by (auto split: option.splits if_splits)
  from select_contract_Some [OF assms(1) this]
  have "Some r \<in> {bo_peripheral ob, bo_transport ob, ?act, ?cl}" by simp
  moreover have "?act = Some r \<Longrightarrow> r = Inr () \<and> pc = Act_Timer \<and> bo_timer ob"
    by (cases pc) (auto split: if_splits)
  moreover have "?cl = Some r \<Longrightarrow> r = Inr () \<and> \<not> is_open_on_all_transports wp (bo_window ob)"
    by (auto split: if_splits)
  ultimately show ?thesis by auto
qed

lemma btp_timer_state:
  assumes "select_contract sel"
    and "run_ops (run_btp sel wp) pc obs = Inr Act_Timer" and "pc = Act_Wait_Prov"
  shows "list_ex bo_prov_ready obs"
  using assms(2,3)
proof (induction obs arbitrary: pc)
  case Nil
  then show ?case by simp
next
  case (Cons ob obs)
  then show ?case
    by (cases "bo_prov_ready ob") (auto simp: and_then_Inr_iff run_btp_step [OF assms(1)])
qed

lemma run_ops_Inl_split:
  assumes "run_ops step s xs = Inl r"
  shows "\<exists>ys x zs t. xs = ys @ x # zs \<and> run_ops step s ys = Inr t \<and> step t x = Inl r"
  using assms
proof (induction xs arbitrary: s)
  case Nil
  then show ?case by simp
next
  case (Cons x xs)
  then consider "step s x = Inl r" | t where "step s x = Inr t" "run_ops step t xs = Inl r"
    by (auto simp: and_then_Inl_iff)
  then show ?case
  proof cases
    case 1
    then show ?thesis by (intro exI [of _ "[]"] exI [of _ x] exI [of _ xs] exI [of _ s]) simp
  next
    case 2
    from Cons.IH [OF 2(2)] obtain ys y zs u where
      "xs = ys @ y # zs" "run_ops step t ys = Inr u" "step u y = Inl r" by blast
    with 2(1) show ?thesis
      by (intro exI [of _ "x # ys"] exI [of _ y] exI [of _ zs] exI [of _ u]) simp
  qed
qed

text \<open>
  When the BLE phase ends, the peripheral or the transport has returned that result, or it
  ends without an error because the window is no longer open on all transports or because
  credentials were found at an earlier evaluation and the two seconds have passed since.
\<close>

theorem btp_phase_end_reasons:
  assumes "select_contract sel"
    and "run_ops (run_btp sel wp) Act_Wait_Prov obs = Inl r"
  shows "\<exists>before ob after. obs = before @ ob # after \<and>
    (bo_peripheral ob = Some r \<or> bo_transport ob = Some r \<or>
     (r = Inr () \<and> \<not> is_open_on_all_transports wp (bo_window ob)) \<or>
     (r = Inr () \<and> list_ex bo_prov_ready before \<and> bo_timer ob))"
proof -
  from run_ops_Inl_split [OF assms(2)] obtain before ob after pc where
    obs: "obs = before @ ob # after"
    and pc: "run_ops (run_btp sel wp) Act_Wait_Prov before = Inr pc"
    and r: "run_btp sel wp pc ob = Inl r"
    by blast
  have "pc = Act_Timer \<Longrightarrow> list_ex bo_prov_ready before"
    using btp_timer_state [OF assms(1)] pc by blast
  with obs btp_end_step [OF assms(1) r] show ?thesis by blast
qed

theorem btp_phase_end_reasons_witness:
  "\<exists>before ob after. [quiet_obs True False, quiet_obs False True] = before @ ob # after \<and>
    (bo_peripheral ob = Some (Inr ()) \<or> bo_transport ob = Some (Inr ()) \<or>
     \<not> is_open_on_all_transports plain_preds (bo_window ob) \<or>
     (list_ex bo_prov_ready before \<and> bo_timer ob))"
proof -
  have "run_ops (run_btp select_first plain_preds) Act_Wait_Prov
      [quiet_obs True False, quiet_obs False True] = Inl (Inr ())"
    by (simp add: run_btp_def btp_eval select_first_def)
  from btp_phase_end_reasons [OF select_contract_first this] show ?thesis by blast
qed

end
