(* ===== verification/Wireless_Ctl.thy ===== *)
theory Wireless_Ctl
  imports Udp
begin

text \<open>
  \<open>WirelessNetCtl\<close> of \<^verbatim>\<open>src/src/wireless.rs\<close>: the network controller that has one type in
  the commissioning phase, where there is no controller, and in the operational phase, where
  it delegates to the real one. An implementation of a trait is the record of its methods.
  The types below are types of \<^verbatim>\<open>rs-matter\<close> that the code only passes on.
\<close>

typedecl wifi_band
typedecl security_type
typedecl wifi_version
typedecl routing_role
typedecl neighbor_table
typedecl route_table
typedecl security_policy
typedecl dataset_components
typedecl network_fault
typedecl mac_counters
typedecl mle_counters
typedecl network_scan_info
typedecl wireless_creds
typedecl networking_error

datatype network_type = Net_Ethernet | Net_Wifi | Net_Thread

section \<open>The traits\<close>

text \<open>\<open>NetCtlError\<close>: a code of the stack, or a verdict on the network.\<close>

datatype net_ctl_error = Ctl_Other error | Ctl_Networking networking_error

type_synonym 'w ctl_act = "'w \<Rightarrow> (panic + net_ctl_error + unit) \<times> 'w"

record 'w net_ctl =
  nc_net_type :: "'w \<Rightarrow> network_type"
  nc_connect_max_time_seconds :: "'w \<Rightarrow> 8 word"
  nc_scan_max_time_seconds :: "'w \<Rightarrow> 8 word"
  nc_supported_wifi_bands :: "(wifi_band \<Rightarrow> ('w, unit) act) \<Rightarrow> ('w, unit) act"
  nc_supported_thread_features :: "'w \<Rightarrow> 16 word"
  nc_thread_version :: "'w \<Rightarrow> 16 word"
  nc_set_enabled :: "bool \<Rightarrow> ('w, unit) act"
  nc_scan :: "bytes option \<Rightarrow> (network_scan_info \<Rightarrow> ('w, unit) act) \<Rightarrow> 'w ctl_act"
  nc_connect :: "wireless_creds \<Rightarrow> 'w ctl_act"

text \<open>A poll of the future of \<open>wait_changed\<close>: \<open>None\<close> while it is pending.\<close>

record 'w net_change_notif =
  cn_wait_changed :: "'w \<Rightarrow> unit option \<times> 'w"

record 'w wireless_diag =
  rd_connected :: "('w, bool) act"

record 'w wifi_diag =
  wd_bssid :: "(bytes option \<Rightarrow> ('w, unit) act) \<Rightarrow> ('w, unit) act"
  wd_security_type :: "('w, security_type option) act"
  wd_wi_fi_version :: "('w, wifi_version option) act"
  wd_channel_number :: "('w, 16 word option) act"
  wd_rssi :: "('w, 8 word option) act"
  wd_beacon_lost_count :: "('w, 32 word option) act"
  wd_beacon_rx_count :: "('w, 32 word option) act"
  wd_packet_multicast_rx_count :: "('w, 32 word option) act"
  wd_packet_multicast_tx_count :: "('w, 32 word option) act"
  wd_packet_unicast_rx_count :: "('w, 32 word option) act"
  wd_packet_unicast_tx_count :: "('w, 32 word option) act"
  wd_current_max_rate :: "('w, 64 word option) act"
  wd_overrun_count :: "('w, 64 word option) act"
  wd_reset_counts :: "('w, unit) act"

text \<open>The methods of \<open>ThreadDiag\<close> on the topology, and after them its counters and the dataset.\<close>

record 'w thread_topology =
  td_channel :: "('w, 16 word option) act"
  td_routing_role :: "('w, routing_role option) act"
  td_network_name :: "(string option \<Rightarrow> ('w, unit) act) \<Rightarrow> ('w, unit) act"
  td_pan_id :: "('w, 16 word option) act"
  td_extended_pan_id :: "('w, 64 word option) act"
  td_mesh_local_prefix :: "(bytes option \<Rightarrow> ('w, unit) act) \<Rightarrow> ('w, unit) act"
  td_neighbor_table :: "(neighbor_table \<Rightarrow> ('w, unit) act) \<Rightarrow> ('w, unit) act"
  td_route_table :: "(route_table \<Rightarrow> ('w, unit) act) \<Rightarrow> ('w, unit) act"
  td_partition_id :: "('w, 32 word option) act"
  td_weighting :: "('w, 16 word option) act"
  td_data_version :: "('w, 16 word option) act"
  td_stable_data_version :: "('w, 16 word option) act"
  td_leader_router_id :: "('w, 8 word option) act"
  td_ext_address :: "('w, 64 word option) act"
  td_rloc_16 :: "('w, 16 word option) act"
  td_security_policy :: "('w, security_policy option) act"
  td_channel_page0_mask :: "(bytes option \<Rightarrow> ('w, unit) act) \<Rightarrow> ('w, unit) act"
  td_operational_dataset_components :: "(dataset_components option \<Rightarrow> ('w, unit) act) \<Rightarrow> ('w, unit) act"
  td_active_network_faults_list :: "(network_fault \<Rightarrow> ('w, unit) act) \<Rightarrow> ('w, unit) act"

record 'w thread_diag = "'w thread_topology" +
  td_mac_counters :: "(mac_counters option \<Rightarrow> ('w, unit) act) \<Rightarrow> ('w, unit) act"
  td_mle_counters :: "(mle_counters option \<Rightarrow> ('w, unit) act) \<Rightarrow> ('w, unit) act"
  td_overrun_count :: "('w, 64 word) act"
  td_reset_counts :: "('w, unit) act"
  td_active_timestamp :: "('w, 64 word option) act"
  td_pending_timestamp :: "('w, 64 word option) act"
  td_delay :: "('w, 32 word option) act"

section \<open>The controller\<close>

text \<open>\<open>Q\<close>, with its implementations of the traits, and the composite.\<close>

record 'w controller =
  q_net_ctl :: "'w net_ctl"
  q_notif :: "'w net_change_notif"
  q_wireless_diag :: "'w wireless_diag"
  q_wifi_diag :: "'w wifi_diag"
  q_thread_diag :: "'w thread_diag"

datatype 'w wireless_net_ctl = Commissioning network_type | Operational "'w controller"

text \<open>
  \<open>check_match\<close> of \<^verbatim>\<open>rs-matter\<close> says whether credentials are for a network type; its error is
  converted by the \<open>?\<close> operator.
\<close>

definition wireless_net_ctl_impl ::
    "(wireless_creds \<Rightarrow> network_type \<Rightarrow> net_ctl_error + unit) \<Rightarrow> 'w wireless_net_ctl \<Rightarrow> 'w net_ctl" where
  "wireless_net_ctl_impl check_match ctl =
     \<lparr>nc_net_type = (\<lambda>w. case ctl of
        Commissioning net_type \<Rightarrow> net_type
      | Operational q \<Rightarrow> nc_net_type (q_net_ctl q) w),
      nc_connect_max_time_seconds = (\<lambda>w. case ctl of
        Commissioning _ \<Rightarrow> 0
      | Operational q \<Rightarrow> nc_connect_max_time_seconds (q_net_ctl q) w),
      nc_scan_max_time_seconds = (\<lambda>w. case ctl of
        Commissioning _ \<Rightarrow> 0
      | Operational q \<Rightarrow> nc_scan_max_time_seconds (q_net_ctl q) w),
      nc_supported_wifi_bands = (\<lambda>f. case ctl of
        Commissioning _ \<Rightarrow> act_ok ()
      | Operational q \<Rightarrow> nc_supported_wifi_bands (q_net_ctl q) f),
      nc_supported_thread_features = (\<lambda>w. case ctl of
        Commissioning _ \<Rightarrow> 0
      | Operational q \<Rightarrow> nc_supported_thread_features (q_net_ctl q) w),
      nc_thread_version = (\<lambda>w. case ctl of
        Commissioning _ \<Rightarrow> 0
      | Operational q \<Rightarrow> nc_thread_version (q_net_ctl q) w),
      nc_set_enabled = (\<lambda>enabled. case ctl of
        Commissioning _ \<Rightarrow> if enabled then act_ok () else act_err InvalidAction
      | Operational q \<Rightarrow> nc_set_enabled (q_net_ctl q) enabled),
      nc_scan = (\<lambda>network f w. case ctl of
        Commissioning _ \<Rightarrow> (Inr (Inl (Ctl_Other InvalidAction)), w)
      | Operational q \<Rightarrow> nc_scan (q_net_ctl q) network f w),
      nc_connect = (\<lambda>creds w. case ctl of
        Commissioning net_type \<Rightarrow> (Inr (check_match creds net_type), w)
      | Operational q \<Rightarrow> nc_connect (q_net_ctl q) creds w)\<rparr>"

definition net_change_notif_impl :: "'w wireless_net_ctl \<Rightarrow> 'w net_change_notif" where
  "net_change_notif_impl ctl =
     \<lparr>cn_wait_changed = (\<lambda>w. case ctl of
        Commissioning _ \<Rightarrow> (None, w)
      | Operational q \<Rightarrow> cn_wait_changed (q_notif q) w)\<rparr>"

definition wireless_diag_impl :: "'w wireless_net_ctl \<Rightarrow> 'w wireless_diag" where
  "wireless_diag_impl ctl =
     \<lparr>rd_connected = (case ctl of
        Commissioning _ \<Rightarrow> act_ok False
      | Operational q \<Rightarrow> rd_connected (q_wireless_diag q))\<rparr>"

definition wifi_diag_impl :: "'w wireless_net_ctl \<Rightarrow> 'w wifi_diag" where
  "wifi_diag_impl ctl =
     \<lparr>wd_bssid = (\<lambda>f. case ctl of
        Commissioning _ \<Rightarrow> f None
      | Operational q \<Rightarrow> wd_bssid (q_wifi_diag q) f),
      wd_security_type = (case ctl of
        Commissioning _ \<Rightarrow> act_ok None
      | Operational q \<Rightarrow> wd_security_type (q_wifi_diag q)),
      wd_wi_fi_version = (case ctl of
        Commissioning _ \<Rightarrow> act_ok None
      | Operational q \<Rightarrow> wd_wi_fi_version (q_wifi_diag q)),
      wd_channel_number = (case ctl of
        Commissioning _ \<Rightarrow> act_ok None
      | Operational q \<Rightarrow> wd_channel_number (q_wifi_diag q)),
      wd_rssi = (case ctl of
        Commissioning _ \<Rightarrow> act_ok None
      | Operational q \<Rightarrow> wd_rssi (q_wifi_diag q)),
      wd_beacon_lost_count = (case ctl of
        Commissioning _ \<Rightarrow> act_ok None
      | Operational q \<Rightarrow> wd_beacon_lost_count (q_wifi_diag q)),
      wd_beacon_rx_count = (case ctl of
        Commissioning _ \<Rightarrow> act_ok None
      | Operational q \<Rightarrow> wd_beacon_rx_count (q_wifi_diag q)),
      wd_packet_multicast_rx_count = (case ctl of
        Commissioning _ \<Rightarrow> act_ok None
      | Operational q \<Rightarrow> wd_packet_multicast_rx_count (q_wifi_diag q)),
      wd_packet_multicast_tx_count = (case ctl of
        Commissioning _ \<Rightarrow> act_ok None
      | Operational q \<Rightarrow> wd_packet_multicast_tx_count (q_wifi_diag q)),
      wd_packet_unicast_rx_count = (case ctl of
        Commissioning _ \<Rightarrow> act_ok None
      | Operational q \<Rightarrow> wd_packet_unicast_rx_count (q_wifi_diag q)),
      wd_packet_unicast_tx_count = (case ctl of
        Commissioning _ \<Rightarrow> act_ok None
      | Operational q \<Rightarrow> wd_packet_unicast_tx_count (q_wifi_diag q)),
      wd_current_max_rate = (case ctl of
        Commissioning _ \<Rightarrow> act_ok None
      | Operational q \<Rightarrow> wd_current_max_rate (q_wifi_diag q)),
      wd_overrun_count = (case ctl of
        Commissioning _ \<Rightarrow> act_ok None
      | Operational q \<Rightarrow> wd_overrun_count (q_wifi_diag q)),
      wd_reset_counts = (case ctl of
        Commissioning _ \<Rightarrow> act_ok ()
      | Operational q \<Rightarrow> wd_reset_counts (q_wifi_diag q))\<rparr>"

definition thread_topology_impl :: "'w wireless_net_ctl \<Rightarrow> 'w thread_topology" where
  "thread_topology_impl ctl =
     \<lparr>td_channel = (case ctl of
        Commissioning _ \<Rightarrow> act_ok None
      | Operational q \<Rightarrow> td_channel (q_thread_diag q)),
      td_routing_role = (case ctl of
        Commissioning _ \<Rightarrow> act_ok None
      | Operational q \<Rightarrow> td_routing_role (q_thread_diag q)),
      td_network_name = (\<lambda>f. case ctl of
        Commissioning _ \<Rightarrow> f None
      | Operational q \<Rightarrow> td_network_name (q_thread_diag q) f),
      td_pan_id = (case ctl of
        Commissioning _ \<Rightarrow> act_ok None
      | Operational q \<Rightarrow> td_pan_id (q_thread_diag q)),
      td_extended_pan_id = (case ctl of
        Commissioning _ \<Rightarrow> act_ok None
      | Operational q \<Rightarrow> td_extended_pan_id (q_thread_diag q)),
      td_mesh_local_prefix = (\<lambda>f. case ctl of
        Commissioning _ \<Rightarrow> f None
      | Operational q \<Rightarrow> td_mesh_local_prefix (q_thread_diag q) f),
      td_neighbor_table = (\<lambda>f. case ctl of
        Commissioning _ \<Rightarrow> act_ok ()
      | Operational q \<Rightarrow> td_neighbor_table (q_thread_diag q) f),
      td_route_table = (\<lambda>f. case ctl of
        Commissioning _ \<Rightarrow> act_ok ()
      | Operational q \<Rightarrow> td_route_table (q_thread_diag q) f),
      td_partition_id = (case ctl of
        Commissioning _ \<Rightarrow> act_ok None
      | Operational q \<Rightarrow> td_partition_id (q_thread_diag q)),
      td_weighting = (case ctl of
        Commissioning _ \<Rightarrow> act_ok None
      | Operational q \<Rightarrow> td_weighting (q_thread_diag q)),
      td_data_version = (case ctl of
        Commissioning _ \<Rightarrow> act_ok None
      | Operational q \<Rightarrow> td_data_version (q_thread_diag q)),
      td_stable_data_version = (case ctl of
        Commissioning _ \<Rightarrow> act_ok None
      | Operational q \<Rightarrow> td_stable_data_version (q_thread_diag q)),
      td_leader_router_id = (case ctl of
        Commissioning _ \<Rightarrow> act_ok None
      | Operational q \<Rightarrow> td_leader_router_id (q_thread_diag q)),
      td_ext_address = (case ctl of
        Commissioning _ \<Rightarrow> act_ok None
      | Operational q \<Rightarrow> td_ext_address (q_thread_diag q)),
      td_rloc_16 = (case ctl of
        Commissioning _ \<Rightarrow> act_ok None
      | Operational q \<Rightarrow> td_rloc_16 (q_thread_diag q)),
      td_security_policy = (case ctl of
        Commissioning _ \<Rightarrow> act_ok None
      | Operational q \<Rightarrow> td_security_policy (q_thread_diag q)),
      td_channel_page0_mask = (\<lambda>f. case ctl of
        Commissioning _ \<Rightarrow> f None
      | Operational q \<Rightarrow> td_channel_page0_mask (q_thread_diag q) f),
      td_operational_dataset_components = (\<lambda>f. case ctl of
        Commissioning _ \<Rightarrow> f None
      | Operational q \<Rightarrow> td_operational_dataset_components (q_thread_diag q) f),
      td_active_network_faults_list = (\<lambda>f. case ctl of
        Commissioning _ \<Rightarrow> act_ok ()
      | Operational q \<Rightarrow> td_active_network_faults_list (q_thread_diag q) f)\<rparr>"

text \<open>The methods that are left, in the order of the record.\<close>

definition thread_diag_impl :: "'w wireless_net_ctl \<Rightarrow> 'w thread_diag" where
  "thread_diag_impl ctl =
     thread_topology.extend (thread_topology_impl ctl) (thread_diag.fields
      (\<lambda>f. case ctl of
        Commissioning _ \<Rightarrow> f None
      | Operational q \<Rightarrow> td_mac_counters (q_thread_diag q) f)
      (\<lambda>f. case ctl of
        Commissioning _ \<Rightarrow> f None
      | Operational q \<Rightarrow> td_mle_counters (q_thread_diag q) f)
      (case ctl of
        Commissioning _ \<Rightarrow> act_ok 0
      | Operational q \<Rightarrow> td_overrun_count (q_thread_diag q))
      (case ctl of
        Commissioning _ \<Rightarrow> act_ok ()
      | Operational q \<Rightarrow> td_reset_counts (q_thread_diag q))
      (case ctl of
        Commissioning _ \<Rightarrow> act_ok None
      | Operational q \<Rightarrow> td_active_timestamp (q_thread_diag q))
      (case ctl of
        Commissioning _ \<Rightarrow> act_ok None
      | Operational q \<Rightarrow> td_pending_timestamp (q_thread_diag q))
      (case ctl of
        Commissioning _ \<Rightarrow> act_ok None
      | Operational q \<Rightarrow> td_delay (q_thread_diag q)))"

definition as_controller ::
    "(wireless_creds \<Rightarrow> network_type \<Rightarrow> net_ctl_error + unit) \<Rightarrow> 'w wireless_net_ctl \<Rightarrow> 'w controller" where
  "as_controller check_match ctl =
     \<lparr>q_net_ctl = wireless_net_ctl_impl check_match ctl, q_notif = net_change_notif_impl ctl,
      q_wireless_diag = wireless_diag_impl ctl, q_wifi_diag = wifi_diag_impl ctl,
      q_thread_diag = thread_diag_impl ctl\<rparr>"

lemmas wireless_ctl_defs =
  as_controller_def wireless_net_ctl_impl_def net_change_notif_impl_def wireless_diag_impl_def
  wifi_diag_impl_def thread_topology_impl_def thread_diag_impl_def
  thread_topology.extend_def thread_diag.fields_def

text \<open>
  In the operational phase the composite is the real controller: every method of every
  trait is the controller's own, with its results, errors and effects.
\<close>

theorem operational_transparent:
  "as_controller check_match (Operational q) = q"
  by (simp add: wireless_ctl_defs)

text \<open>
  In the commissioning phase no call has an effect of its own: scans are refused,
  disabling the interface is refused while enabling it succeeds, a connect succeeds for
  matching credentials only and leaves the world as it is, changes are never notified, and
  every diagnostic reports that there is nothing to report, without a call of its own.
\<close>

theorem commissioning_passive:
  "let q = as_controller check_match (Commissioning t); nc = q_net_ctl q; wd = q_wifi_diag q;
       td = q_thread_diag q in
     nc_net_type nc w = t \<and>
     nc_scan nc network f w = (Inr (Inl (Ctl_Other InvalidAction)), w) \<and>
     nc_set_enabled nc enabled w = (Inr (if enabled then Inr () else Inl InvalidAction), w) \<and>
     nc_connect nc creds w = (Inr (check_match creds t), w) \<and>
     cn_wait_changed (q_notif q) w = (None, w) \<and>
     nc_supported_wifi_bands nc b w = (Inr (Inr ()), w) \<and>
     nc_supported_thread_features nc w = 0 \<and> nc_thread_version nc w = 0 \<and>
     nc_connect_max_time_seconds nc w = 0 \<and> nc_scan_max_time_seconds nc w = 0 \<and>
     rd_connected (q_wireless_diag q) w = (Inr (Inr False), w) \<and>
     wd_bssid wd g w = g None w \<and>
     wd_security_type wd w = (Inr (Inr None), w) \<and>
     wd_wi_fi_version wd w = (Inr (Inr None), w) \<and>
     wd_channel_number wd w = (Inr (Inr None), w) \<and>
     wd_rssi wd w = (Inr (Inr None), w) \<and>
     wd_beacon_lost_count wd w = (Inr (Inr None), w) \<and>
     wd_beacon_rx_count wd w = (Inr (Inr None), w) \<and>
     wd_packet_multicast_rx_count wd w = (Inr (Inr None), w) \<and>
     wd_packet_multicast_tx_count wd w = (Inr (Inr None), w) \<and>
     wd_packet_unicast_rx_count wd w = (Inr (Inr None), w) \<and>
     wd_packet_unicast_tx_count wd w = (Inr (Inr None), w) \<and>
     wd_current_max_rate wd w = (Inr (Inr None), w) \<and>
     wd_overrun_count wd w = (Inr (Inr None), w) \<and>
     wd_reset_counts wd w = (Inr (Inr ()), w) \<and>
     td_channel td w = (Inr (Inr None), w) \<and>
     td_routing_role td w = (Inr (Inr None), w) \<and>
     td_network_name td h_network_name w = h_network_name None w \<and>
     td_pan_id td w = (Inr (Inr None), w) \<and>
     td_extended_pan_id td w = (Inr (Inr None), w) \<and>
     td_mesh_local_prefix td h_mesh_local_prefix w = h_mesh_local_prefix None w \<and>
     td_neighbor_table td h_neighbor_table w = (Inr (Inr ()), w) \<and>
     td_route_table td h_route_table w = (Inr (Inr ()), w) \<and>
     td_partition_id td w = (Inr (Inr None), w) \<and>
     td_weighting td w = (Inr (Inr None), w) \<and>
     td_data_version td w = (Inr (Inr None), w) \<and>
     td_stable_data_version td w = (Inr (Inr None), w) \<and>
     td_leader_router_id td w = (Inr (Inr None), w) \<and>
     td_ext_address td w = (Inr (Inr None), w) \<and>
     td_rloc_16 td w = (Inr (Inr None), w) \<and>
     td_security_policy td w = (Inr (Inr None), w) \<and>
     td_channel_page0_mask td h_channel_page0_mask w = h_channel_page0_mask None w \<and>
     td_operational_dataset_components td h_operational_dataset_components w = h_operational_dataset_components None w \<and>
     td_active_network_faults_list td h_active_network_faults_list w = (Inr (Inr ()), w) \<and>
     td_mac_counters td h_mac_counters w = h_mac_counters None w \<and>
     td_mle_counters td h_mle_counters w = h_mle_counters None w \<and>
     td_overrun_count td w = (Inr (Inr 0), w) \<and>
     td_reset_counts td w = (Inr (Inr ()), w) \<and>
     td_active_timestamp td w = (Inr (Inr None), w) \<and>
     td_pending_timestamp td w = (Inr (Inr None), w) \<and>
     td_delay td w = (Inr (Inr None), w)"
  by (simp add: wireless_ctl_defs Let_def)

end
