(* ===== verification/Stack_Memory.thy ===== *)
theory Stack_Memory
  imports Bump_Box Config
begin

text \<open>
  The allocations that the drivers of the stack make from the bump allocator, in the order of
  the code: \<open>run\<close> of \<^verbatim>\<open>src/src/eth.rs\<close>, \<open>run_coex\<close> and \<open>run\<close> of \<^verbatim>\<open>src/src/wireless/wifi.rs\<close>
  and \<^verbatim>\<open>thread.rs\<close> with the tasks they start, and the responders of \<^verbatim>\<open>src/src/lib.rs\<close>. The sizes
  of the futures are the compiler's: a record of layouts. What these allocations need of the
  arena is stated exactly.
\<close>

section \<open>The responders\<close>

record layouts =
  ly_run :: layout
  ly_net :: layout
  ly_oper_net :: layout
  ly_mdns :: layout
  ly_btp :: layout
  ly_im :: layout
  ly_user :: layout
  ly_responder :: layout
  ly_actual :: layout
  ly_busy :: layout
  ly_handler :: layout
  ly_busy_handler :: layout

text \<open>
  The loop of \<open>run_one_responder_with_bump\<close>: allocate a handler and push it on a vector of
  capacity \<open>q\<close>, unwrapping the result of the push.
\<close>

fun create_handlers :: "nat \<Rightarrow> layout \<Rightarrow> nat \<Rightarrow> ptr list \<Rightarrow> bump \<Rightarrow> panic + (ptr list \<times> bump)" where
  "create_handlers q T 0 handlers b = Inr (handlers, b)"
| "create_handlers q T (Suc k) handlers b =
     and_then (reserve T b) (\<lambda>(p, b).
     and_then (case vec_push q handlers p of Inl _ \<Rightarrow> Inl Unwrap_Failed | Inr hs \<Rightarrow> Inr hs) (\<lambda>handlers.
     create_handlers q T k handlers b))"

definition run_one_responder_with_bump ::
    "nat \<Rightarrow> layout \<Rightarrow> bump \<Rightarrow> panic + (ptr list \<times> bump)" where
  "run_one_responder_with_bump q T b = create_handlers q T q [] b"

definition run_responder_with_bump ::
    "layouts \<Rightarrow> string set \<Rightarrow> bump \<Rightarrow> panic + (ptr list \<times> ptr list \<times> bump)" where
  "run_responder_with_bump ly F b =
     and_then (take_slots reserve [ly_actual ly, ly_busy ly] b) (\<lambda>(_, b).
     and_then (run_one_responder_with_bump (max_responders F) (ly_handler ly) b) (\<lambda>(actual, b).
     and_then (run_one_responder_with_bump max_busy_responders (ly_busy_handler ly) b) (\<lambda>(busy, b).
     Inr (actual, busy, b))))"

text \<open>\<open>run_im_with_bump\<close>, once the startup of the interaction model has succeeded\<close>

definition run_im_allocs ::
    "layouts \<Rightarrow> string set \<Rightarrow> bump \<Rightarrow> panic + (ptr list \<times> ptr list \<times> bump)" where
  "run_im_allocs ly F b =
     and_then (take_slots reserve [ly_responder ly] b) (\<lambda>(_, b). run_responder_with_bump ly F b)"

section \<open>The drivers\<close>

definition eth_allocs ::
    "layouts \<Rightarrow> string set \<Rightarrow> bump \<Rightarrow> panic + (ptr list \<times> ptr list \<times> bump)" where
  "eth_allocs ly F b =
     and_then (take_slots reserve [ly_run ly] b) (\<lambda>(_, b).
     and_then (take_slots reserve [ly_net ly, ly_mdns ly, ly_im ly, ly_user ly] b) (\<lambda>(_, b).
     run_im_allocs ly F b))"

text \<open>\<open>run_net_coex\<close> is polled before the interaction model and allocates its own tasks.\<close>

definition coex_allocs ::
    "layouts \<Rightarrow> string set \<Rightarrow> bump \<Rightarrow> panic + (ptr list \<times> ptr list \<times> bump)" where
  "coex_allocs ly F b =
     and_then (take_slots reserve [ly_run ly] b) (\<lambda>(_, b).
     and_then (take_slots reserve [ly_net ly, ly_im ly, ly_user ly] b) (\<lambda>(_, b).
     and_then (take_slots reserve [ly_btp ly, ly_oper_net ly, ly_mdns ly] b) (\<lambda>(_, b).
     run_im_allocs ly F b)))"

text \<open>
  Without coexistence the interaction model is not in the bump allocator, but each BLE phase
  (\<open>run_btp\<close>) allocates the future of the peripheral. Dropping it gives nothing back.
\<close>

fun ble_phase_allocs :: "layouts \<Rightarrow> nat \<Rightarrow> bump \<Rightarrow> panic + bump" where
  "ble_phase_allocs ly 0 b = Inr b"
| "ble_phase_allocs ly (Suc n) b =
     and_then (take_slots reserve [ly_btp ly] b) (\<lambda>(_, b). ble_phase_allocs ly n b)"

definition noncoex_allocs :: "layouts \<Rightarrow> nat \<Rightarrow> bump \<Rightarrow> panic + bump" where
  "noncoex_allocs ly phases b =
     and_then (take_slots reserve [ly_run ly] b) (\<lambda>(_, b). ble_phase_allocs ly phases b)"

section \<open>Allocation sites\<close>

text \<open>The sites of a run, each as often as it allocates.\<close>

definition im_sites :: "layouts \<Rightarrow> string set \<Rightarrow> layout list" where
  "im_sites ly F =
     [ly_responder ly, ly_actual ly, ly_busy ly] @ replicate (max_responders F) (ly_handler ly) @
     replicate max_busy_responders (ly_busy_handler ly)"

definition eth_sites :: "layouts \<Rightarrow> string set \<Rightarrow> layout list" where
  "eth_sites ly F =
     [ly_run ly, ly_net ly, ly_mdns ly, ly_im ly, ly_user ly] @ im_sites ly F"

definition coex_sites :: "layouts \<Rightarrow> string set \<Rightarrow> layout list" where
  "coex_sites ly F =
     [ly_run ly, ly_net ly, ly_im ly, ly_user ly, ly_btp ly, ly_oper_net ly, ly_mdns ly] @
     im_sites ly F"

lemma and_then_case_prod: "and_then r (\<lambda>(x, y). f x y) = and_then r (\<lambda>p. f (fst p) (snd p))"
  by (simp add: case_prod_beta')

lemma take_slots_append:
  "take_slots get_slot (Ts @ Us) s =
     and_then (take_slots get_slot Ts s) (\<lambda>(ps, s1).
     and_then (take_slots get_slot Us s1) (\<lambda>(qs, s2). Inr (ps @ qs, s2)))"
proof (induction Ts arbitrary: s)
  case Nil
  then show ?case by (cases "take_slots get_slot Us s") auto
next
  case (Cons T Ts)
  then show ?case
    by (simp add: and_then_assoc and_then_case_prod)
qed

text \<open>The pushes never fail: creating the handlers is taking that many slots.\<close>

lemma create_handlers_slots:
  assumes "length hs + k \<le> q"
  shows "create_handlers q T k hs b =
    and_then (take_slots reserve (replicate k T) b) (\<lambda>(ps, b). Inr (hs @ map fst ps, b))"
  using assms
proof (induction k arbitrary: hs b)
  case 0
  then show ?case by simp
next
  case (Suc k)
  then have "vec_push q hs p = Inr (hs @ [p])" for p
    by (simp add: vec_push_def)
  with Suc show ?case
    by (simp add: and_then_assoc and_then_case_prod)
qed

lemma run_one_responder_slots:
  "run_one_responder_with_bump q T b =
     and_then (take_slots reserve (replicate q T) b) (\<lambda>(ps, b). Inr (map fst ps, b))"
  by (simp add: run_one_responder_with_bump_def create_handlers_slots)

definition site_allocs :: "layout list \<Rightarrow> bump \<Rightarrow> panic + bump" where
  "site_allocs Ts b = and_then (take_slots reserve Ts b) (\<lambda>(_, b). Inr b)"

lemma site_allocs_append: "site_allocs (Ts @ Us) b = and_then (site_allocs Ts b) (site_allocs Us)"
  unfolding site_allocs_def take_slots_append
  by (simp add: and_then_assoc and_then_case_prod site_allocs_def)

lemma site_allocs_append_fun:
  "site_allocs (Ts @ Us) = (\<lambda>b. and_then (site_allocs Ts b) (site_allocs Us))"
  by (rule ext) (rule site_allocs_append)

lemma site_allocs_fits:
  assumes "bump_ok b"
  shows "site_allocs Ts b =
    (if total_need Ts (b_base b + b_offset b) \<le> b_size b - b_offset b
     then Inr (b\<lparr>b_offset := b_offset b + total_need Ts (b_base b + b_offset b)\<rparr>)
     else Inl Out_Of_Bump_Memory)"
proof (cases "take_slots reserve Ts b")
  case (Inl p)
  with take_slots_reserve [OF assms, of Ts] show ?thesis by (auto simp: site_allocs_def)
next
  case (Inr x)
  with take_slots_reserve [OF assms, of Ts] obtain ps where
    x: "take_slots reserve Ts b =
      Inr (ps, b\<lparr>b_offset := b_offset b + total_need Ts (b_base b + b_offset b)\<rparr>)"
    by auto
  let ?b' = "b\<lparr>b_offset := b_offset b + total_need Ts (b_base b + b_offset b)\<rparr>"
  have "bump_ok ?b'" using arena.take_slots_grow [OF assms x] by simp
  then have "total_need Ts (b_base b + b_offset b) \<le> b_size b - b_offset b"
    unfolding bump_ok_def by simp linarith
  with x show ?thesis by (simp add: site_allocs_def)
qed

lemma map_sum_and_then: "map_sum id f (and_then r g) = and_then r (\<lambda>x. map_sum id f (g x))"
  by (cases r) auto

lemma take_site: "and_then (take_slots reserve Ts b) (\<lambda>(_, b). k b) = and_then (site_allocs Ts b) k"
  by (simp add: site_allocs_def and_then_assoc and_then_case_prod)

lemma responder_site:
  "and_then (run_one_responder_with_bump q T b) (\<lambda>(hs, b). map_sum id f (k hs b)) =
   and_then (take_slots reserve (replicate q T) b) (\<lambda>(ps, b). map_sum id f (k (map fst ps) b))"
  by (simp add: run_one_responder_slots and_then_assoc and_then_case_prod)

lemma run_im_allocs_sites:
  "map_sum id (\<lambda>(_, _, b). b) (run_im_allocs ly F b) = site_allocs (im_sites ly F) b"
  unfolding run_im_allocs_def run_responder_with_bump_def im_sites_def
  by (simp add: map_sum_and_then and_then_case_prod run_one_responder_slots and_then_assoc
      take_slots_append site_allocs_def)

end
