(* ===== verification/Memory_Spec.thy ===== *)
theory Memory_Spec
  imports Stack_Memory
begin

text \<open>
  What the runs of the stack need of the bump allocator: exactly the sum of their sites,
  padding included, with no panic other than the one for too small an arena; and that a run
  without coexistence needs more with every BLE phase.
\<close>

lemma eth_allocs_sites:
  "map_sum id (\<lambda>(_, _, b). b) (eth_allocs ly F b) = site_allocs (eth_sites ly F) b"
proof -
  have "eth_sites ly F = [ly_run ly] @ [ly_net ly, ly_mdns ly, ly_im ly, ly_user ly] @ im_sites ly F"
    by (simp add: eth_sites_def)
  then have "site_allocs (eth_sites ly F) b =
      and_then (site_allocs [ly_run ly] b) (\<lambda>b.
      and_then (site_allocs [ly_net ly, ly_mdns ly, ly_im ly, ly_user ly] b) (site_allocs (im_sites ly F)))"
    by (simp only: site_allocs_append_fun)
  then show ?thesis
    unfolding eth_allocs_def take_site by (simp add: map_sum_and_then run_im_allocs_sites)
qed

lemma coex_allocs_sites:
  "map_sum id (\<lambda>(_, _, b). b) (coex_allocs ly F b) = site_allocs (coex_sites ly F) b"
proof -
  have "coex_sites ly F = [ly_run ly] @ [ly_net ly, ly_im ly, ly_user ly] @
      [ly_btp ly, ly_oper_net ly, ly_mdns ly] @ im_sites ly F"
    by (simp add: coex_sites_def)
  then have "site_allocs (coex_sites ly F) b =
      and_then (site_allocs [ly_run ly] b) (\<lambda>b.
      and_then (site_allocs [ly_net ly, ly_im ly, ly_user ly] b) (\<lambda>b.
      and_then (site_allocs [ly_btp ly, ly_oper_net ly, ly_mdns ly] b) (site_allocs (im_sites ly F))))"
    by (simp only: site_allocs_append_fun)
  then show ?thesis
    unfolding coex_allocs_def take_site by (simp add: map_sum_and_then run_im_allocs_sites)
qed

lemma responder_lengths:
  assumes "run_responder_with_bump ly F b = Inr (actual, busy, b')"
  shows "length actual = max_responders F \<and> length busy = max_busy_responders"
proof -
  have slots: "take_slots get_slot Ts s = Inr (ps, s') \<Longrightarrow> length ps = length Ts"
    for get_slot :: "layout \<Rightarrow> bump \<Rightarrow> panic + (ptr \<times> bump)" and Ts s ps s'
    by (induction Ts arbitrary: s ps) (auto simp: and_then_Inr_iff)
  from assms show ?thesis
    unfolding run_responder_with_bump_def
    by (auto simp: and_then_Inr_iff run_one_responder_slots dest!: slots)
qed

definition memory_verdict :: "layout list \<Rightarrow> bump \<Rightarrow> panic + (ptr list \<times> ptr list \<times> bump) \<Rightarrow> bool" where
  "memory_verdict sites b r \<longleftrightarrow>
     (if total_need sites (b_base b + b_offset b) \<le> b_size b - b_offset b
      then \<not> isl r else r = Inl Out_Of_Bump_Memory)"

lemma verdict_sites:
  assumes "bump_ok b" and "map_sum id (\<lambda>(_, _, b). b) r = site_allocs sites b"
  shows "memory_verdict sites b r"
  using assms(2) unfolding memory_verdict_def site_allocs_fits [OF assms(1)]
  by (cases r) (auto split: if_splits)

text \<open>
  C22. A run over Ethernet, and one over wireless with coexistence, gets all the memory it asks
  for when the arena holds its sites with their padding, and panics for lack of bump memory
  otherwise; the pushes of the handlers it creates never fail, whatever the number of
  responders configured, and each responder has exactly its number of handlers.
\<close>

theorem run_memory_exact:
  assumes "bump_ok b"
  shows "memory_verdict (eth_sites ly F) b (eth_allocs ly F b) \<and>
    memory_verdict (coex_sites ly F) b (coex_allocs ly F b) \<and>
    (case eth_allocs ly F b of
       Inl _ \<Rightarrow> True
     | Inr (actual, busy, _) \<Rightarrow> length actual = max_responders F \<and> length busy = 2) \<and>
    (case coex_allocs ly F b of
       Inl _ \<Rightarrow> True
     | Inr (actual, busy, _) \<Rightarrow> length actual = max_responders F \<and> length busy = 2)"
proof (intro conjI)
  show "memory_verdict (eth_sites ly F) b (eth_allocs ly F b)"
    by (rule verdict_sites [OF assms eth_allocs_sites])
  show "memory_verdict (coex_sites ly F) b (coex_allocs ly F b)"
    by (rule verdict_sites [OF assms coex_allocs_sites])
  show "case eth_allocs ly F b of Inl _ \<Rightarrow> True
     | Inr (actual, busy, _) \<Rightarrow> length actual = max_responders F \<and> length busy = 2"
    by (auto simp: eth_allocs_def run_im_allocs_def and_then_Inr_iff max_busy_responders_def
        dest!: responder_lengths split: sum.split)
  show "case coex_allocs ly F b of Inl _ \<Rightarrow> True
     | Inr (actual, busy, _) \<Rightarrow> length actual = max_responders F \<and> length busy = 2"
    by (auto simp: coex_allocs_def run_im_allocs_def and_then_Inr_iff max_busy_responders_def
        dest!: responder_lengths split: sum.split)
qed

definition byte_layout :: layout where
  "byte_layout = \<lparr>lsize = 1, lalign = 1\<rparr>"

definition byte_layouts :: layouts where
  "byte_layouts =
     \<lparr>ly_run = byte_layout, ly_net = byte_layout, ly_oper_net = byte_layout, ly_mdns = byte_layout,
      ly_btp = byte_layout, ly_im = byte_layout, ly_user = byte_layout, ly_responder = byte_layout,
      ly_actual = byte_layout, ly_busy = byte_layout, ly_handler = byte_layout,
      ly_busy_handler = byte_layout\<rparr>"

lemma byte_need: "need byte_layout a = 1"
  by (simp add: need_def byte_layout_def align_pad_def)

lemma total_need_bytes: "set Ts \<subseteq> {byte_layout} \<Longrightarrow> total_need Ts a = length Ts"
  by (induction Ts arbitrary: a) (auto simp: byte_need)

lemma byte_eth_sites: "set (eth_sites byte_layouts F) \<subseteq> {byte_layout}"
  "length (eth_sites byte_layouts F) = 10 + max_responders F"
  by (auto simp: eth_sites_def im_sites_def byte_layouts_def max_busy_responders_def)

lemma default_responders: "max_responders {} = 4"
  by (simp add: max_responders_def responders_chain_def)

theorem run_memory_exact_witness:
  "\<not> isl (eth_allocs byte_layouts {} (bump_new 64 14)) \<and>
   eth_allocs byte_layouts {} (bump_new 64 13) = Inl Out_Of_Bump_Memory"
proof -
  have "bump_ok (bump_new 64 14)" and "bump_ok (bump_new 64 13)"
    by (simp_all add: bump_ok_def bump_new_def usize_max_def)
  from this [THEN run_memory_exact, of byte_layouts "{}"] show ?thesis
    by (simp add: memory_verdict_def total_need_bytes [OF byte_eth_sites(1)] byte_eth_sites(2)
        default_responders bump_new_def)
qed

lemma ble_phase_sites: "ble_phase_allocs ly n = site_allocs (replicate n (ly_btp ly))"
proof (induction n)
  case 0
  then show ?case by (simp add: fun_eq_iff site_allocs_def)
next
  case (Suc n)
  have "replicate (Suc n) (ly_btp ly) = [ly_btp ly] @ replicate n (ly_btp ly)" by simp
  show ?case
    by (rule ext) (simp only: ble_phase_allocs.simps take_site site_allocs_append Suc
        \<open>replicate (Suc n) (ly_btp ly) = [ly_btp ly] @ replicate n (ly_btp ly)\<close>)
qed

lemma noncoex_sites:
  "noncoex_allocs ly n b = site_allocs (ly_run ly # replicate n (ly_btp ly)) b"
  using site_allocs_append [of "[ly_run ly]" "replicate n (ly_btp ly)" b]
  unfolding noncoex_allocs_def take_site by (simp add: ble_phase_sites)

lemma total_need_replicate_lower:
  "n * lsize T \<le> total_need (replicate n T) a"
proof (induction n arbitrary: a)
  case 0
  then show ?case by simp
next
  case (Suc n)
  have "lsize T \<le> need T a" by (simp add: need_def)
  with Suc [of "a + need T a"] show ?case by simp
qed

text \<open>
  A run without coexistence needs more of the arena with every BLE phase: whatever its
  size, a number of BLE phases is reached at which entering the phase panics for lack of
  bump memory, unless the future of the peripheral has no size.
\<close>

theorem ble_phases_exhaust_memory:
  assumes "bump_ok b" and "0 < lsize (ly_btp ly)"
    and "b_size b - b_offset b < phases * lsize (ly_btp ly)"
  shows "noncoex_allocs ly phases b = Inl Out_Of_Bump_Memory"
proof -
  let ?a = "b_base b + b_offset b"
  have "phases * lsize (ly_btp ly) \<le> total_need (ly_run ly # replicate phases (ly_btp ly)) ?a"
    using total_need_replicate_lower [of phases "ly_btp ly" "?a + need (ly_run ly) ?a"] by simp
  with assms(3) have "\<not> total_need (ly_run ly # replicate phases (ly_btp ly)) ?a \<le> b_size b - b_offset b"
    by linarith
  then show ?thesis by (simp add: noncoex_sites site_allocs_fits [OF assms(1)])
qed

theorem ble_phases_exhaust_memory_witness:
  "noncoex_allocs byte_layouts 21 (bump_new 64 20) = Inl Out_Of_Bump_Memory"
  by (rule ble_phases_exhaust_memory)
    (simp_all add: bump_ok_def bump_new_def usize_max_def byte_layouts_def byte_layout_def)

end
