(* ===== verification/Wireless_Phases.thy ===== *)
theory Wireless_Phases
  imports Comm_Window Wireless_Ctl
begin

text \<open>
  The runs of the stack over wireless: \<open>run_im\<close> and its hydration of the interaction model
  (\<^verbatim>\<open>src/src/lib.rs\<close>), the phases of non-concurrent commissioning (\<open>run_wifi\<close>, \<open>run_thread\<close> and
  the tasks they give to the driver), and the task of concurrent commissioning, of
  \<^verbatim>\<open>src/src/wireless/wifi.rs\<close> and \<^verbatim>\<open>thread.rs\<close>. A run is a task in the sense of the base
  theory: one evaluation of its await point, with what is observed there, at a time. The
  driver is \<open>PreexistingWireless\<close>, or any other that runs the task it is given and returns
  its result.
\<close>

section \<open>The interaction model\<close>

text \<open>
  What the futures that \<open>run_im\<close> awaits return when they are polled: \<open>im.startup()\<close>, the
  responder and \<open>im.run()\<close>.
\<close>

record im_obs =
  io_startup :: "unit res option"
  io_responder :: "unit res option"
  io_run :: "unit res option"

datatype im_pc = Im_Start | Im_Startup | Im_Running

text \<open>
  \<open>im_hydrated\<close> is the flag of the stack; the second component counts the invocations of
  \<open>InteractionModel::startup\<close> since the stack was created.
\<close>

record hydration =
  im_hydrated :: bool
  im_startups :: nat

definition hydration_new :: hydration where
  "hydration_new = \<lparr>im_hydrated = False, im_startups = 0\<rparr>"

text \<open>\<open>startup_im\<close>: whether \<open>im.startup()\<close> is invoked, the flag being replaced before.\<close>

definition startup_im :: "hydration \<Rightarrow> bool \<times> hydration" where
  "startup_im h =
     (let hydrated = im_hydrated h; h = h\<lparr>im_hydrated := True\<rparr>
      in if hydrated then (False, h) else (True, h\<lparr>im_startups := Suc (im_startups h)\<rparr>))"

type_synonym im_poll = "unit res option \<times> im_pc \<times> hydration"

definition poll_im_running :: "(unit res option list \<Rightarrow> unit res option) \<Rightarrow> hydration \<Rightarrow> im_obs \<Rightarrow> im_poll" where
  "poll_im_running sel h ob = (sel [io_responder ob, io_run ob], Im_Running, h)"

definition poll_im_startup :: "(unit res option list \<Rightarrow> unit res option) \<Rightarrow> hydration \<Rightarrow> im_obs \<Rightarrow> im_poll" where
  "poll_im_startup sel h ob =
     (case io_startup ob of
        None \<Rightarrow> (None, Im_Startup, h)
      | Some (Inl e) \<Rightarrow> (Some (Inl e), Im_Startup, h)
      | Some (Inr _) \<Rightarrow> poll_im_running sel h ob)"

fun run_im :: "(unit res option list \<Rightarrow> unit res option) \<Rightarrow> im_pc \<Rightarrow> hydration \<Rightarrow> im_obs \<Rightarrow> im_poll" where
  "run_im sel Im_Start h ob =
     (case startup_im h of
        (True, h) \<Rightarrow> poll_im_startup sel h ob
      | (False, h) \<Rightarrow> poll_im_running sel h ob)"
| "run_im sel Im_Startup h ob = poll_im_startup sel h ob"
| "run_im sel Im_Running h ob = poll_im_running sel h ob"

section \<open>The state of a run\<close>

text \<open>
  The await points of a run without coexistence. \<open>Ble_Start\<close> and \<open>Oper_Start\<close> are the
  beginnings of the tasks given to \<open>Gatt::run\<close> and \<open>Wifi::run\<close> (\<open>Thread::run\<close>); \<open>Connecting\<close> is
  the deferred connect to a network; \<open>Oper_Build\<close> builds the interaction model after it.
\<close>

datatype wl_pc =
    Loop_Head
  | Ble_Start
  | Ble act_pc im_pc
  | Oper_Start
  | Connecting "8 word list"
  | Oper_Build
  | Oper next_pc im_pc

text \<open>The controller that the handlers of the phase are built with.\<close>

datatype ctl_mode = Mode_None | Mode_Commissioning network_type | Mode_Operational

record 'st wl_state =
  wl_pc :: wl_pc
  wl_net :: "'st net_ctl_state"
  wl_ctl :: ctl_mode
  wl_hydration :: hydration

text \<open>
  What an evaluation observes: the window, an update of the networking status by the handlers
  of \<^verbatim>\<open>rs-matter\<close> since the evaluation before, an error of \<open>weak_rand\<close>, what the futures of the
  phase return when polled, and whether the interaction model was polled at all in the
  evaluation that ends a \<open>select\<close> (a child that is ready may end it before).
\<close>

record ('q, 'st) wl_obs =
  ob_window :: 'q
  ob_net_update :: "'st net_ctl_state option"
  ob_rand :: "error option"
  ob_peripheral :: "unit res option"
  ob_btp_net :: "unit res option"
  ob_timer :: bool
  ob_connect :: "unit res option"
  ob_oper_net :: "unit res option"
  ob_mdns :: "unit res option"
  ob_user :: "unit res option"
  ob_im :: im_obs
  ob_im_polled :: bool

text \<open>
  The parameters: of \<^verbatim>\<open>rs-matter\<close> the combinator, the window predicates and \<open>is_prov_ready\<close>; of the
  driver, whether the network stack it gives to the task offers UDP (\<open>NetStack::udp_bind\<close>).
\<close>

record ('q, 'st) wl_env =
  we_select :: "unit res option list \<Rightarrow> unit res option"
  we_window :: "'q window_preds"
  we_prov_ready :: "'st net_ctl_state \<Rightarrow> bool"
  we_udp :: bool

definition apply_update :: "('q, 'st) wl_obs \<Rightarrow> 'st wl_state \<Rightarrow> 'st wl_state" where
  "apply_update ob s = (case ob_net_update ob of None \<Rightarrow> s | Some st \<Rightarrow> s\<lparr>wl_net := st\<rparr>)"

text \<open>The future of \<open>run_btp\<close> among the futures of the BLE phase.\<close>

definition btp_obs_of :: "('q, 'st) wl_env \<Rightarrow> ('q, 'st) wl_obs \<Rightarrow> 'st wl_state \<Rightarrow> 'q btp_obs" where
  "btp_obs_of env ob s =
     \<lparr>bo_peripheral = ob_peripheral ob, bo_transport = ob_btp_net ob,
      bo_prov_ready = we_prov_ready env (wl_net s), bo_timer = ob_timer ob,
      bo_window = ob_window ob\<rparr>"

definition ended_hydration :: "('q, 'st) wl_obs \<Rightarrow> hydration \<Rightarrow> hydration \<Rightarrow> hydration" where
  "ended_hydration ob h h' = (if ob_im_polled ob then h' else h)"

section \<open>Wifi\<close>

text \<open>The loop of \<open>run_wifi\<close>\<close>

definition run_wifi_head ::
    "('q, 'st) wl_env \<Rightarrow> 'st wl_state \<Rightarrow> ('q, 'st) wl_obs \<Rightarrow> unit res + 'st wl_state" where
  "run_wifi_head env s ob =
     (if is_open_on_all_transports (we_window env) (ob_window ob)
      then Inr (s\<lparr>wl_net := reset_net_ctl_state (wl_net s), wl_pc := Ble_Start\<rparr>)
      else Inr (s\<lparr>wl_pc := Oper_Start\<rparr>))"

text \<open>\<open>GattTask::run\<close>: build the handlers with the commissioning controller, then run.\<close>

definition wifi_gatt_start :: "'st wl_state \<Rightarrow> ('q, 'st) wl_obs \<Rightarrow> unit res + 'st wl_state" where
  "wifi_gatt_start s ob =
     (case ob_rand ob of
        Some e \<Rightarrow> Inl (Inl e)
      | None \<Rightarrow> Inr (s\<lparr>wl_ctl := Mode_Commissioning Net_Wifi, wl_pc := Ble Act_Wait_Prov Im_Start\<rparr>))"

definition wifi_gatt_poll ::
    "('q, 'st) wl_env \<Rightarrow> act_pc \<Rightarrow> im_pc \<Rightarrow> 'st wl_state \<Rightarrow> ('q, 'st) wl_obs \<Rightarrow> unit res + 'st wl_state" where
  "wifi_gatt_poll env act im s ob =
     (let btp = run_btp (we_select env) (we_window env) act (btp_obs_of env ob s);
          (im_res, im', h') = run_im (we_select env) im (wl_hydration s) (ob_im ob)
      in case we_select env [case btp of Inl r \<Rightarrow> Some r | Inr _ \<Rightarrow> None, im_res] of
           None \<Rightarrow>
             Inr (s\<lparr>wl_pc := Ble (case btp of Inl _ \<Rightarrow> act | Inr act' \<Rightarrow> act') im', wl_hydration := h'\<rparr>)
         | Some (Inl e) \<Rightarrow> Inl (Inl e)
         | Some (Inr _) \<Rightarrow>
             Inr (s\<lparr>wl_pc := Oper_Start, wl_hydration := ended_hydration ob (wl_hydration s) h'\<rparr>))"

text \<open>\<open>WifiTask::run\<close>: the deferred connect, the handlers, then the operational tasks.\<close>

definition wifi_task_start ::
    "('q, 'st) wl_env \<Rightarrow> 'st wl_state \<Rightarrow> unit res + 'st wl_state" where
  "wifi_task_start env s =
     (let deferred_connect_id =
            (if we_prov_ready env (wl_net s) then Some (ncs_network_id (wl_net s)) else None)
      in case deferred_connect_id of
           Some network_id \<Rightarrow> Inr (s\<lparr>wl_ctl := Mode_Operational, wl_pc := Connecting network_id\<rparr>)
         | None \<Rightarrow> Inr (s\<lparr>wl_ctl := Mode_Operational, wl_pc := Oper_Build\<rparr>))"

definition wifi_task_connect ::
    "'st wl_state \<Rightarrow> ('q, 'st) wl_obs \<Rightarrow> unit res + 'st wl_state" where
  "wifi_task_connect s ob =
     (case ob_connect ob of
        None \<Rightarrow> Inr s
      | Some (Inl e) \<Rightarrow> Inl (Inl e)
      | Some (Inr _) \<Rightarrow> Inr (s\<lparr>wl_pc := Oper_Build\<rparr>))"

definition wifi_task_build :: "'st wl_state \<Rightarrow> ('q, 'st) wl_obs \<Rightarrow> unit res + 'st wl_state" where
  "wifi_task_build s ob =
     (case ob_rand ob of
        Some e \<Rightarrow> Inl (Inl e)
      | None \<Rightarrow> Inr (s\<lparr>wl_pc := Oper Next_Gone Im_Start\<rparr>))"

definition wifi_task_poll ::
    "('q, 'st) wl_env \<Rightarrow> next_pc \<Rightarrow> im_pc \<Rightarrow> 'st wl_state \<Rightarrow> ('q, 'st) wl_obs \<Rightarrow> unit res + 'st wl_state" where
  "wifi_task_poll env nx im s ob =
     (let (im_res, im', h') = run_im (we_select env) im (wl_hydration s) (ob_im ob);
          oper_task = we_select env [ob_oper_net ob, ob_mdns ob, im_res, ob_user ob];
          comm_window = wait_next_comm_window (we_window env) nx (ob_window ob)
      in case we_select env [oper_task, case comm_window of Inl _ \<Rightarrow> Some (Inr ()) | Inr _ \<Rightarrow> None] of
           None \<Rightarrow>
             Inr (s\<lparr>wl_pc := Oper (case comm_window of Inl _ \<Rightarrow> nx | Inr nx' \<Rightarrow> nx') im', wl_hydration := h'\<rparr>)
         | Some (Inl e) \<Rightarrow> Inl (Inl e)
         | Some (Inr _) \<Rightarrow>
             Inr (s\<lparr>wl_pc := Loop_Head, wl_hydration := ended_hydration ob (wl_hydration s) h'\<rparr>))"

definition run_wifi :: "('q, 'st) wl_env \<Rightarrow> ('st wl_state, ('q, 'st) wl_obs, unit res) task" where
  "run_wifi env s ob =
     (let s = apply_update ob s
      in case wl_pc s of
           Loop_Head \<Rightarrow> run_wifi_head env s ob
         | Ble_Start \<Rightarrow> wifi_gatt_start s ob
         | Ble act im \<Rightarrow> wifi_gatt_poll env act im s ob
         | Oper_Start \<Rightarrow> wifi_task_start env s
         | Connecting _ \<Rightarrow> wifi_task_connect s ob
         | Oper_Build \<Rightarrow> wifi_task_build s ob
         | Oper nx im \<Rightarrow> wifi_task_poll env nx im s ob)"

lemmas run_wifi_defs =
  run_wifi_head_def wifi_gatt_start_def wifi_gatt_poll_def wifi_task_start_def wifi_task_connect_def
  wifi_task_build_def wifi_task_poll_def

section \<open>Thread\<close>

text \<open>The loop of \<open>run_thread\<close>\<close>

definition run_thread_head ::
    "('q, 'st) wl_env \<Rightarrow> 'st wl_state \<Rightarrow> ('q, 'st) wl_obs \<Rightarrow> unit res + 'st wl_state" where
  "run_thread_head env s ob =
     (if is_open_on_all_transports (we_window env) (ob_window ob)
      then Inr (s\<lparr>wl_net := reset_net_ctl_state (wl_net s), wl_pc := Ble_Start\<rparr>)
      else Inr (s\<lparr>wl_pc := Oper_Start\<rparr>))"

text \<open>\<open>GattTask::run\<close>: build the handlers with the commissioning controller, then run.\<close>

definition thread_gatt_start :: "'st wl_state \<Rightarrow> ('q, 'st) wl_obs \<Rightarrow> unit res + 'st wl_state" where
  "thread_gatt_start s ob =
     (case ob_rand ob of
        Some e \<Rightarrow> Inl (Inl e)
      | None \<Rightarrow> Inr (s\<lparr>wl_ctl := Mode_Commissioning Net_Thread, wl_pc := Ble Act_Wait_Prov Im_Start\<rparr>))"

definition thread_gatt_poll ::
    "('q, 'st) wl_env \<Rightarrow> act_pc \<Rightarrow> im_pc \<Rightarrow> 'st wl_state \<Rightarrow> ('q, 'st) wl_obs \<Rightarrow> unit res + 'st wl_state" where
  "thread_gatt_poll env act im s ob =
     (let btp = run_btp (we_select env) (we_window env) act (btp_obs_of env ob s);
          (im_res, im', h') = run_im (we_select env) im (wl_hydration s) (ob_im ob)
      in case we_select env [case btp of Inl r \<Rightarrow> Some r | Inr _ \<Rightarrow> None, im_res] of
           None \<Rightarrow>
             Inr (s\<lparr>wl_pc := Ble (case btp of Inl _ \<Rightarrow> act | Inr act' \<Rightarrow> act') im', wl_hydration := h'\<rparr>)
         | Some (Inl e) \<Rightarrow> Inl (Inl e)
         | Some (Inr _) \<Rightarrow>
             Inr (s\<lparr>wl_pc := Oper_Start, wl_hydration := ended_hydration ob (wl_hydration s) h'\<rparr>))"

text \<open>\<open>ThreadTask::run\<close>: the deferred connect, the handlers, then the operational tasks.\<close>

definition thread_task_start ::
    "('q, 'st) wl_env \<Rightarrow> 'st wl_state \<Rightarrow> unit res + 'st wl_state" where
  "thread_task_start env s =
     (let deferred_connect_id =
            (if we_prov_ready env (wl_net s) then Some (ncs_network_id (wl_net s)) else None)
      in case deferred_connect_id of
           Some network_id \<Rightarrow> Inr (s\<lparr>wl_ctl := Mode_Operational, wl_pc := Connecting network_id\<rparr>)
         | None \<Rightarrow> Inr (s\<lparr>wl_ctl := Mode_Operational, wl_pc := Oper_Build\<rparr>))"

definition thread_task_connect ::
    "'st wl_state \<Rightarrow> ('q, 'st) wl_obs \<Rightarrow> unit res + 'st wl_state" where
  "thread_task_connect s ob =
     (case ob_connect ob of
        None \<Rightarrow> Inr s
      | Some (Inl e) \<Rightarrow> Inl (Inl e)
      | Some (Inr _) \<Rightarrow> Inr (s\<lparr>wl_pc := Oper_Build\<rparr>))"

definition thread_task_build :: "'st wl_state \<Rightarrow> ('q, 'st) wl_obs \<Rightarrow> unit res + 'st wl_state" where
  "thread_task_build s ob =
     (case ob_rand ob of
        Some e \<Rightarrow> Inl (Inl e)
      | None \<Rightarrow> Inr (s\<lparr>wl_pc := Oper Next_Gone Im_Start\<rparr>))"

definition thread_task_poll ::
    "('q, 'st) wl_env \<Rightarrow> next_pc \<Rightarrow> im_pc \<Rightarrow> 'st wl_state \<Rightarrow> ('q, 'st) wl_obs \<Rightarrow> unit res + 'st wl_state" where
  "thread_task_poll env nx im s ob =
     (let (im_res, im', h') = run_im (we_select env) im (wl_hydration s) (ob_im ob);
          oper_task = we_select env [ob_oper_net ob, ob_mdns ob, im_res, ob_user ob];
          comm_window = wait_next_comm_window (we_window env) nx (ob_window ob)
      in case we_select env [oper_task, case comm_window of Inl _ \<Rightarrow> Some (Inr ()) | Inr _ \<Rightarrow> None] of
           None \<Rightarrow>
             Inr (s\<lparr>wl_pc := Oper (case comm_window of Inl _ \<Rightarrow> nx | Inr nx' \<Rightarrow> nx') im', wl_hydration := h'\<rparr>)
         | Some (Inl e) \<Rightarrow> Inl (Inl e)
         | Some (Inr _) \<Rightarrow>
             Inr (s\<lparr>wl_pc := Loop_Head, wl_hydration := ended_hydration ob (wl_hydration s) h'\<rparr>))"

definition run_thread :: "('q, 'st) wl_env \<Rightarrow> ('st wl_state, ('q, 'st) wl_obs, unit res) task" where
  "run_thread env s ob =
     (let s = apply_update ob s
      in case wl_pc s of
           Loop_Head \<Rightarrow> run_thread_head env s ob
         | Ble_Start \<Rightarrow> thread_gatt_start s ob
         | Ble act im \<Rightarrow> thread_gatt_poll env act im s ob
         | Oper_Start \<Rightarrow> thread_task_start env s
         | Connecting _ \<Rightarrow> thread_task_connect s ob
         | Oper_Build \<Rightarrow> thread_task_build s ob
         | Oper nx im \<Rightarrow> thread_task_poll env nx im s ob)"

lemmas run_thread_defs =
  run_thread_head_def thread_gatt_start_def thread_gatt_poll_def thread_task_start_def thread_task_connect_def
  thread_task_build_def thread_task_poll_def

section \<open>Coexistence\<close>

text \<open>
  \<open>run_btp_coex\<close> runs the peripheral beside the operational network; the coexistence task runs
  it beside the interaction model and the user's task. \<open>Coex_Start\<close> builds the handlers.
\<close>

datatype coex_pc = Coex_Start | Coex_Running gatt_pc im_pc

record coex_state =
  cx_pc :: coex_pc
  cx_ctl :: ctl_mode
  cx_hydration :: hydration

definition run_btp_coex ::
    "('q, 'st) wl_env \<Rightarrow> gatt_pc \<Rightarrow> ('q, 'st) wl_obs \<Rightarrow> unit res + gatt_pc" where
  "run_btp_coex env g ob =
     (let gatt = run_gatt_while_ble_commissionable (we_select env) (we_window env) g
                   (ob_window ob, ob_peripheral ob)
      in case we_select env
                [case gatt of Inl r \<Rightarrow> Some r | Inr _ \<Rightarrow> None, ob_oper_net ob, ob_mdns ob] of
           None \<Rightarrow> Inr (case gatt of Inl _ \<Rightarrow> g | Inr g' \<Rightarrow> g')
         | Some r \<Rightarrow> Inl r)"

definition wifi_coex_task ::
    "('q, 'st) wl_env \<Rightarrow> (coex_state, ('q, 'st) wl_obs, unit res) task" where
  "wifi_coex_task env s ob =
     (case cx_pc s of
        Coex_Start \<Rightarrow>
          (case ob_rand ob of
             Some e \<Rightarrow> Inl (Inl e)
           | None \<Rightarrow> Inr (s\<lparr>cx_ctl := Mode_Operational, cx_pc := Coex_Running Gatt_Wait_Open Im_Start\<rparr>))
      | Coex_Running g im \<Rightarrow>
          (let net_task = run_btp_coex env g ob;
               (im_res, im', h') = run_im (we_select env) im (cx_hydration s) (ob_im ob)
           in case we_select env
                     [case net_task of Inl r \<Rightarrow> Some r | Inr _ \<Rightarrow> None, im_res, ob_user ob] of
                None \<Rightarrow>
                  Inr (s\<lparr>cx_pc := Coex_Running (case net_task of Inl _ \<Rightarrow> g | Inr g' \<Rightarrow> g') im',
                         cx_hydration := h'\<rparr>)
              | Some r \<Rightarrow> Inl r))"

definition thread_coex_task ::
    "('q, 'st) wl_env \<Rightarrow> (coex_state, ('q, 'st) wl_obs, unit res) task" where
  "thread_coex_task env s ob =
     (case cx_pc s of
        Coex_Start \<Rightarrow>
          (case ob_rand ob of
             Some e \<Rightarrow> Inl (Inl e)
           | None \<Rightarrow> Inr (s\<lparr>cx_ctl := Mode_Operational, cx_pc := Coex_Running Gatt_Wait_Open Im_Start\<rparr>))
      | Coex_Running g im \<Rightarrow>
          (let net_task = run_btp_coex env g ob;
               (im_res, im', h') = run_im (we_select env) im (cx_hydration s) (ob_im ob)
           in case we_select env
                     [case net_task of Inl r \<Rightarrow> Some r | Inr _ \<Rightarrow> None, im_res, ob_user ob] of
                None \<Rightarrow>
                  Inr (s\<lparr>cx_pc := Coex_Running (case net_task of Inl _ \<Rightarrow> g | Inr g' \<Rightarrow> g') im',
                         cx_hydration := h'\<rparr>)
              | Some r \<Rightarrow> Inl r))"

text \<open>
  The controller a phase is built with, as the composite of the code: in the operational
  phase it delegates to the driver's own.
\<close>

fun phase_ctl :: "'w controller \<Rightarrow> ctl_mode \<Rightarrow> 'w wireless_net_ctl option" where
  "phase_ctl q Mode_None = None"
| "phase_ctl q (Mode_Commissioning t) = Some (Commissioning t)"
| "phase_ctl q Mode_Operational = Some (Operational q)"

definition wl_state_new :: "'st net_ctl_state \<Rightarrow> 'st wl_state" where
  "wl_state_new st = \<lparr>wl_pc = Loop_Head, wl_net = st, wl_ctl = Mode_None, wl_hydration = hydration_new\<rparr>"

end
