(* ===== verification/Wireless_Spec.thy ===== *)
theory Wireless_Spec
  imports Wireless_Phases Comm_Spec
begin

text \<open>
  What the runs over wireless promise: the interaction model is hydrated once in the life of
  the stack whatever phases follow each other, each phase has its controller, a run ends with
  an error only, a BLE phase is not left on the verdict of an earlier commissioning, the
  operational phase begins with the deferred connect and gives the radio back for the next
  window only, and the Wifi and the Thread runs are one.
\<close>

section \<open>Steps of a run\<close>

lemma run_wifi_cases:
  "run_wifi env s ob =
     (case wl_pc s of
        Loop_Head \<Rightarrow> run_wifi_head env (apply_update ob s) ob
      | Ble_Start \<Rightarrow> wifi_gatt_start (apply_update ob s) ob
      | Ble act im \<Rightarrow> wifi_gatt_poll env act im (apply_update ob s) ob
      | Oper_Start \<Rightarrow> wifi_task_start env (apply_update ob s)
      | Connecting _ \<Rightarrow> wifi_task_connect (apply_update ob s) ob
      | Oper_Build \<Rightarrow> wifi_task_build (apply_update ob s) ob
      | Oper nx im \<Rightarrow> wifi_task_poll env nx im (apply_update ob s) ob)"
proof -
  have "wl_pc (apply_update ob s) = wl_pc s"
    by (simp add: apply_update_def split: option.split)
  then show ?thesis by (simp add: run_wifi_def Let_def)
qed

lemma apply_update_simps [simp]:
  "wl_pc (apply_update ob s) = wl_pc s"
  "wl_ctl (apply_update ob s) = wl_ctl s"
  "wl_hydration (apply_update ob s) = wl_hydration s"
  "ob_net_update ob = None \<Longrightarrow> apply_update ob s = s"
  by (simp_all add: apply_update_def split: option.split)

text \<open>A wireless run over Thread is the one over Wifi with the other network type.\<close>

definition to_thread :: "'st wl_state \<Rightarrow> 'st wl_state" where
  "to_thread s =
     s\<lparr>wl_ctl := (if wl_ctl s = Mode_Commissioning Net_Wifi then Mode_Commissioning Net_Thread
                 else wl_ctl s)\<rparr>"

lemma to_thread_simps [simp]:
  "wl_pc (to_thread s) = wl_pc s"
  "wl_net (to_thread s) = wl_net s"
  "wl_hydration (to_thread s) = wl_hydration s"
  "apply_update ob (to_thread s) = to_thread (apply_update ob s)"
  by (simp_all add: to_thread_def apply_update_def split: option.split)

lemma to_thread_updates:
  "to_thread s\<lparr>wl_pc := pc\<rparr> = to_thread (s\<lparr>wl_pc := pc\<rparr>)"
  "to_thread s\<lparr>wl_net := n\<rparr> = to_thread (s\<lparr>wl_net := n\<rparr>)"
  "to_thread s\<lparr>wl_hydration := h\<rparr> = to_thread (s\<lparr>wl_hydration := h\<rparr>)"
  "to_thread s\<lparr>wl_ctl := Mode_Commissioning Net_Thread\<rparr> = to_thread (s\<lparr>wl_ctl := Mode_Commissioning Net_Wifi\<rparr>)"
  "to_thread s\<lparr>wl_ctl := Mode_Operational\<rparr> = to_thread (s\<lparr>wl_ctl := Mode_Operational\<rparr>)"
  by (simp_all add: to_thread_def)

lemma run_thread_step: "run_thread env (to_thread s) ob = map_sum id to_thread (run_wifi env s ob)"
proof -
  have obs: "btp_obs_of env ob (to_thread s') = btp_obs_of env ob s'" for s'
    by (simp add: btp_obs_of_def)
  show ?thesis
    by (cases "wl_pc s")
      (auto simp: run_thread_def run_wifi_def Let_def run_wifi_defs run_thread_defs obs
        to_thread_updates split: option.split prod.split sum.split)
qed

text \<open>
  The run over Thread is the run over Wifi: for whatever is observed, the two make the same
  steps and end with the same result, the network type of the commissioning controller apart.
\<close>

theorem thread_run_is_wifi_run:
  "run_ops (run_thread env) (to_thread s) obs =
     map_sum id to_thread (run_ops (run_wifi env) s obs)"
proof (induction obs arbitrary: s)
  case Nil
  then show ?case by simp
next
  case (Cons ob obs)
  then show ?case by (cases "run_wifi env s ob") (simp_all add: run_thread_step)
qed

section \<open>A run to evaluate\<close>

text \<open>
  A device is commissioned: a BLE phase in which the credentials arrive, the deferred connect,
  the operational phase with the window closing, and a new window that opens and is revoked
  at once.
\<close>

definition sample_env :: "(window, unit) wl_env" where
  "sample_env =
     \<lparr>we_select = select_first, we_window = plain_preds,
      we_prov_ready = (\<lambda>st. ncs_networking_status st = Some ()), we_udp = True\<rparr>"

definition quiet :: "window \<Rightarrow> (window, unit) wl_obs" where
  "quiet q =
     \<lparr>ob_window = q, ob_net_update = None, ob_rand = None, ob_peripheral = None, ob_btp_net = None,
      ob_timer = False, ob_connect = None, ob_oper_net = None, ob_mdns = None, ob_user = None,
      ob_im = \<lparr>io_startup = Some (Inr ()), io_responder = None, io_run = None\<rparr>, ob_im_polled = True\<rparr>"

definition blank :: "unit net_ctl_state" where
  "blank = \<lparr>ncs_network_id = [], ncs_networking_status = None, ncs_connect_error_value = None\<rparr>"

definition provisioned :: "unit net_ctl_state" where
  "provisioned = blank\<lparr>ncs_network_id := [1, 2, 3], ncs_networking_status := Some ()\<rparr>"

definition ble_scenario :: "(window, unit) wl_obs list" where
  "ble_scenario =
     [quiet Open_Basic, quiet Open_Basic, (quiet Open_Basic)\<lparr>ob_net_update := Some provisioned\<rparr>]"

definition handover_scenario :: "(window, unit) wl_obs list" where
  "handover_scenario =
     [(quiet Open_Basic)\<lparr>ob_timer := True\<rparr>, quiet Open_Basic,
      (quiet Open_Basic)\<lparr>ob_connect := Some (Inr ())\<rparr>, quiet Open_Basic, quiet Open_Basic]"

lemmas scenario_eval =
  sample_env_def quiet_def blank_def provisioned_def ble_scenario_def handover_scenario_def
  plain_preds_def select_first_def run_wifi_def run_wifi_defs apply_update_def btp_obs_of_def
  run_btp_def ended_hydration_def poll_im_startup_def poll_im_running_def startup_im_def
  hydration_new_def wl_state_new_def reset_net_ctl_state_def

lemma ble_scenario_run:
  "run_ops (run_wifi sample_env) (wl_state_new blank) ble_scenario =
     Inr \<lparr>wl_pc = Ble Act_Timer Im_Running, wl_net = provisioned,
          wl_ctl = Mode_Commissioning Net_Wifi, wl_hydration = \<lparr>im_hydrated = True, im_startups = 1\<rparr>\<rparr>"
  by (simp add: scenario_eval)

lemma handover_scenario_run:
  "run_ops (run_wifi sample_env) (wl_state_new blank) (ble_scenario @ handover_scenario) =
     Inr \<lparr>wl_pc = Oper Next_Gone Im_Running, wl_net = provisioned,
          wl_ctl = Mode_Operational, wl_hydration = \<lparr>im_hydrated = True, im_startups = 1\<rparr>\<rparr>"
  unfolding run_ops_append ble_scenario_run by (simp add: scenario_eval)

lemma sample_contracts:
  "select_contract (we_select sample_env)" "window_contract (we_window sample_env)"
  "prov_ready_contract (we_prov_ready sample_env)"
  by (simp_all add: sample_env_def select_contract_first window_contract_plain prov_ready_contract_def)

section \<open>Hydration and controllers\<close>

definition hydration_ok :: "hydration \<Rightarrow> bool" where
  "hydration_ok h \<longleftrightarrow> im_startups h = (if im_hydrated h then 1 else 0)"

lemma hydration_new_ok: "hydration_ok hydration_new"
  by (simp add: hydration_ok_def hydration_new_def)

lemma startup_im_ok: "hydration_ok h \<Longrightarrow> hydration_ok (snd (startup_im h))"
  by (simp add: hydration_ok_def startup_im_def Let_def)

lemma poll_im_running_hydration [simp]: "snd (snd (poll_im_running sel h ob)) = h"
  by (simp add: poll_im_running_def)

lemma poll_im_startup_hydration [simp]: "snd (snd (poll_im_startup sel h ob)) = h"
  by (simp add: poll_im_startup_def split: option.split sum.split)

lemma run_im_hydration:
  "snd (snd (run_im sel im h ob)) = (if im = Im_Start then snd (startup_im h) else h)"
  by (cases im) (auto split: prod.split bool.split)

lemma run_im_ok:
  "run_im sel im h ob = (r, im', h') \<Longrightarrow> hydration_ok h \<Longrightarrow> hydration_ok h'"
  using run_im_hydration [of sel im h ob] startup_im_ok [of h] by (auto split: if_splits)

definition wl_inv :: "'st wl_state \<Rightarrow> bool" where
  "wl_inv s \<longleftrightarrow>
     hydration_ok (wl_hydration s) \<and>
     (case wl_pc s of
        Ble _ _ \<Rightarrow> wl_ctl s = Mode_Commissioning Net_Wifi
      | Connecting _ \<Rightarrow> wl_ctl s = Mode_Operational
      | Oper_Build \<Rightarrow> wl_ctl s = Mode_Operational
      | Oper _ _ \<Rightarrow> wl_ctl s = Mode_Operational
      | _ \<Rightarrow> True)"

lemma run_wifi_inv: "wl_inv s \<Longrightarrow> run_wifi env s ob = Inr s' \<Longrightarrow> wl_inv s'"
  by (cases "wl_pc s")
    (auto simp: run_wifi_cases run_wifi_defs wl_inv_def Let_def ended_hydration_def
      split: if_splits option.splits sum.splits prod.splits dest: run_im_ok)

interpretation wifi_machine: op_machine "run_wifi env" "\<lambda>_ _. True" wl_inv for env
  by unfold_locales (rule run_wifi_inv)

lemma wl_state_new_inv: "wl_inv (wl_state_new st)"
  by (simp add: wl_inv_def wl_state_new_def hydration_new_ok)

lemma wifi_run_inv: "run_ops (run_wifi env) (wl_state_new st) obs = Inr s \<Longrightarrow> wl_inv s"
  by (rule wifi_machine.run_inv [OF wl_state_new_inv]) simp_all

text \<open>
  C7. However many BLE and operational phases a run goes through, the interaction model is
  started up at most once, and not again for another phase: \<open>startup\<close> has been invoked exactly
  when the flag of the stack says so.
\<close>

theorem hydrated_once:
  assumes "run_ops (run_wifi env) (wl_state_new st) obs = Inr s"
  shows "im_startups (wl_hydration s) \<le> 1 \<and>
    (im_hydrated (wl_hydration s) \<longleftrightarrow> im_startups (wl_hydration s) = 1)"
  using wifi_run_inv [OF assms] by (auto simp: wl_inv_def hydration_ok_def)

theorem hydrated_once_witness:
  "im_startups (wl_hydration \<lparr>wl_pc = Oper Next_Gone Im_Running, wl_net = provisioned,
     wl_ctl = Mode_Operational, wl_hydration = \<lparr>im_hydrated = True, im_startups = 1\<rparr>\<rparr>) \<le> 1"
  using hydrated_once [OF handover_scenario_run] by blast

text \<open>
  In a BLE phase the handlers have the commissioning controller of the network type, so a
  scan is refused with no effect; from the deferred connect on they have the driver's own.
\<close>

theorem phase_controllers:
  assumes "run_ops (run_wifi env) (wl_state_new st) obs = Inr s"
  shows "case wl_pc s of
      Ble _ _ \<Rightarrow> (\<exists>ctl. phase_ctl q (wl_ctl s) = Some ctl \<and>
        nc_scan (q_net_ctl (as_controller check_match ctl)) network f w =
          (Inr (Inl (Ctl_Other InvalidAction)), w) \<and>
        nc_net_type (q_net_ctl (as_controller check_match ctl)) w = Net_Wifi)
    | Connecting _ \<Rightarrow> map_option (as_controller check_match) (phase_ctl q (wl_ctl s)) = Some q
    | Oper_Build \<Rightarrow> map_option (as_controller check_match) (phase_ctl q (wl_ctl s)) = Some q
    | Oper _ _ \<Rightarrow> map_option (as_controller check_match) (phase_ctl q (wl_ctl s)) = Some q
    | _ \<Rightarrow> True"
proof -
  have oper: "as_controller check_match (Operational q) = q"
    by (simp add: wireless_ctl_defs)
  from wifi_run_inv [OF assms] show ?thesis
    by (auto simp: wl_inv_def oper split: wl_pc.split) (simp_all add: wireless_ctl_defs)
qed

theorem phase_controllers_witness:
  "\<forall>q. \<exists>ctl. phase_ctl q (Mode_Commissioning Net_Wifi) = Some ctl \<and>
     nc_scan (q_net_ctl (as_controller (\<lambda>c t. Inr ()) ctl)) None (\<lambda>i. act_ok ()) (0::nat) =
       (Inr (Inl (Ctl_Other InvalidAction)), 0)"
proof
  fix q :: "nat controller"
  show "\<exists>ctl. phase_ctl q (Mode_Commissioning Net_Wifi) = Some ctl \<and>
     nc_scan (q_net_ctl (as_controller (\<lambda>c t. Inr ()) ctl)) None (\<lambda>i. act_ok ()) (0::nat) =
       (Inr (Inl (Ctl_Other InvalidAction)), 0)"
    using phase_controllers [OF ble_scenario_run, of q "\<lambda>c t. Inr ()" None "\<lambda>i. act_ok ()" 0] by auto
qed

section \<open>The end of a run\<close>

lemma run_wifi_end: "run_wifi env s ob = Inl r \<Longrightarrow> \<exists>e. r = Inl e"
  by (cases "wl_pc s")
    (auto simp: run_wifi_cases run_wifi_defs Let_def split: if_splits option.splits sum.splits prod.splits)

text \<open>
  A run without coexistence never returns successfully: phases follow each other until one
  fails, and the result is that failure.
\<close>

theorem run_ends_with_error:
  assumes "run_ops (run_wifi env) s obs = Inl r"
  shows "\<exists>e. r = Inl e"
  using run_ops_Inl_split [OF assms] run_wifi_end by metis

theorem run_ends_with_error_witness:
  "run_ops (run_wifi sample_env) (wl_state_new blank)
     [quiet Open_Basic, (quiet Open_Basic)\<lparr>ob_rand := Some StdIoError\<rparr>] = Inl (Inl StdIoError) \<and>
   (\<exists>e. (Inl StdIoError :: unit res) = Inl e)"
proof -
  have r: "run_ops (run_wifi sample_env) (wl_state_new blank)
      [quiet Open_Basic, (quiet Open_Basic)\<lparr>ob_rand := Some StdIoError\<rparr>] = Inl (Inl StdIoError)"
    by (simp add: scenario_eval)
  from r run_ends_with_error [OF r] show ?thesis by blast
qed

section \<open>The BLE phase forgets earlier verdicts\<close>

text \<open>Nothing ends the BLE phase but, perhaps, the networking status and the timer.\<close>

definition ble_quiet :: "('q, 'st) wl_env \<Rightarrow> ('q, 'st) wl_obs \<Rightarrow> bool" where
  "ble_quiet env ob \<longleftrightarrow>
     ob_net_update ob = None \<and> ob_rand ob = None \<and> ob_peripheral ob = None \<and> ob_btp_net ob = None \<and>
     is_open_on_all_transports (we_window env) (ob_window ob) \<and>
     (case io_startup (ob_im ob) of Some (Inl _) \<Rightarrow> False | _ \<Rightarrow> True) \<and>
     io_responder (ob_im ob) = None \<and> io_run (ob_im ob) = None"

definition ble_waiting :: "('q, 'st) wl_env \<Rightarrow> 'st wl_state \<Rightarrow> bool" where
  "ble_waiting env s \<longleftrightarrow>
     wl_pc s = Loop_Head \<or>
     (\<not> we_prov_ready env (wl_net s) \<and>
      (case wl_pc s of Ble_Start \<Rightarrow> True | Ble act _ \<Rightarrow> act = Act_Wait_Prov | _ \<Rightarrow> False))"

lemma reset_not_ready: "prov_ready_contract ready \<Longrightarrow> \<not> ready (reset_net_ctl_state st)"
  by (simp add: prov_ready_contract_def reset_net_ctl_state_def)

lemma run_im_quiet:
  assumes "select_contract sel"
    and "case io_startup ob of Some (Inl _) \<Rightarrow> False | _ \<Rightarrow> True"
    and "io_responder ob = None" and "io_run ob = None"
  shows "fst (run_im sel im h ob) = None"
  using assms(2-) select2_None [OF assms(1)]
  by (cases im) (auto simp: poll_im_startup_def poll_im_running_def split: prod.split option.splits
      sum.splits bool.split)

lemma ble_waiting_step:
  assumes "select_contract (we_select env)" and "prov_ready_contract (we_prov_ready env)"
    and "ble_quiet env ob" and "ble_waiting env s"
  shows "\<exists>s'. run_wifi env s ob = Inr s' \<and> ble_waiting env s'"
proof (cases "wl_pc s")
  case Loop_Head
  with assms(2,3) show ?thesis
    by (simp add: run_wifi_cases run_wifi_head_def ble_quiet_def ble_waiting_def reset_not_ready)
next
  case Ble_Start
  with assms(3,4) show ?thesis
    by (simp add: run_wifi_cases wifi_gatt_start_def ble_quiet_def ble_waiting_def)
next
  case (Ble act im)
  with assms(4) have act: "act = Act_Wait_Prov" and nr: "\<not> we_prov_ready env (wl_net s)"
    by (auto simp: ble_waiting_def)
  have btp: "run_btp (we_select env) (we_window env) act (btp_obs_of env ob s) = Inr Act_Wait_Prov"
    using assms(3) nr act
    by (simp add: run_btp_step [OF assms(1)] btp_obs_of_def btp_quiet_def ble_quiet_def)
  obtain im' h' where im: "run_im (we_select env) im (wl_hydration s) (ob_im ob) = (None, im', h')"
    using run_im_quiet [OF assms(1), of "ob_im ob" im "wl_hydration s"] assms(3)
    by (cases "run_im (we_select env) im (wl_hydration s) (ob_im ob)") (auto simp: ble_quiet_def)
  have "we_select env [None, None] = None"
    using select2_None [OF assms(1), of None None] by simp
  then have "run_wifi env s ob = Inr (s\<lparr>wl_pc := Ble Act_Wait_Prov im', wl_hydration := h'\<rparr>)"
    using assms(3) Ble btp im by (simp add: run_wifi_cases wifi_gatt_poll_def ble_quiet_def Let_def)
  with nr show ?thesis by (simp add: ble_waiting_def)
qed (use assms(4) in \<open>simp_all add: ble_waiting_def\<close>)

text \<open>
  C19. A BLE phase that a window opens is not left on the verdict of an earlier commissioning:
  whatever networking status is there when the phase begins, and whatever timers expire, it
  goes on waiting for credentials until the handlers report a new status, the window goes
  away, or one of its tasks ends.
\<close>

theorem ble_phase_needs_new_credentials:
  assumes "select_contract (we_select env)" and "prov_ready_contract (we_prov_ready env)"
    and "wl_pc s = Loop_Head" and "list_all (ble_quiet env) obs"
  shows "\<exists>s'. run_ops (run_wifi env) s obs = Inr s' \<and>
    (case wl_pc s' of
       Loop_Head \<Rightarrow> True | Ble_Start \<Rightarrow> True | Ble act _ \<Rightarrow> act = Act_Wait_Prov | _ \<Rightarrow> False)"
proof -
  have "ble_waiting env s \<Longrightarrow> \<exists>s'. run_ops (run_wifi env) s obs = Inr s' \<and> ble_waiting env s'"
    using assms(4)
  proof (induction obs arbitrary: s)
    case Nil
    then show ?case by simp
  next
    case (Cons ob obs)
    then obtain t where t: "run_wifi env s ob = Inr t" "ble_waiting env t"
      using ble_waiting_step [OF assms(1,2)] by fastforce
    with Cons show ?case by simp
  qed
  then show ?thesis using assms(3) by (auto simp: ble_waiting_def split: wl_pc.split)
qed

definition stale_state :: "unit wl_state" where
  "stale_state = (wl_state_new blank)\<lparr>wl_net := provisioned\<rparr>"

theorem ble_phase_needs_new_credentials_witness:
  "\<exists>s'. run_ops (run_wifi sample_env) stale_state
      [quiet Open_Basic, quiet Open_Basic, (quiet Open_Basic)\<lparr>ob_timer := True\<rparr>] = Inr s' \<and>
    (case wl_pc s' of
       Loop_Head \<Rightarrow> True | Ble_Start \<Rightarrow> True | Ble act _ \<Rightarrow> act = Act_Wait_Prov | _ \<Rightarrow> False)"
  by (rule ble_phase_needs_new_credentials [OF sample_contracts(1,3)])
    (simp_all add: stale_state_def wl_state_new_def ble_quiet_def quiet_def sample_env_def plain_preds_def)

section \<open>The operational phase\<close>

lemma connecting_run:
  assumes "run_ops (run_wifi env) s obs = Inr s'" and "wl_pc s = Connecting nid"
  shows "wl_pc s' = Connecting nid \<or> (\<exists>ob \<in> set obs. ob_connect ob = Some (Inr ()))"
  using assms
proof (induction obs arbitrary: s)
  case Nil
  then show ?case by simp
next
  case (Cons ob obs)
  from Cons.prems(1) obtain t where s: "run_wifi env s ob = Inr t"
    and r: "run_ops (run_wifi env) t obs = Inr s'"
    by (auto simp: and_then_Inr_iff)
  from s Cons.prems(2) have t: "wifi_task_connect (apply_update ob s) ob = Inr t"
    by (simp add: run_wifi_cases [of env s ob])
  consider "ob_connect ob = Some (Inr ())" | "ob_connect ob = None"
    using t by (auto simp: wifi_task_connect_def split: option.splits sum.splits)
  then show ?case
  proof cases
    case 1
    then show ?thesis by simp
  next
    case 2
    with t Cons.prems(2) have "wl_pc t = Connecting nid" by (auto simp: wifi_task_connect_def)
    from Cons.IH [OF r this] show ?thesis by auto
  qed
qed

text \<open>
  When the operational phase starts with credentials that are ready, its first step goes to
  the connect of the very network the commissioner selected, and its tasks run only after
  that connect has succeeded.
\<close>

theorem deferred_connect_first:
  assumes "wl_pc s = Oper_Start" and "we_prov_ready env (wl_net (apply_update ob s))"
    and "run_ops (run_wifi env) s (ob # obs) = Inr s'"
  shows "(\<exists>t. run_wifi env s ob = Inr t \<and>
      wl_pc t = Connecting (ncs_network_id (wl_net (apply_update ob s)))) \<and>
    (wl_pc s' = Connecting (ncs_network_id (wl_net (apply_update ob s))) \<or>
     (\<exists>ob' \<in> set obs. ob_connect ob' = Some (Inr ())))"
proof -
  let ?id = "ncs_network_id (wl_net (apply_update ob s))"
  let ?t = "(apply_update ob s)\<lparr>wl_ctl := Mode_Operational, wl_pc := Connecting ?id\<rparr>"
  have t: "run_wifi env s ob = Inr ?t"
    using assms(1,2) by (simp add: run_wifi_cases wifi_task_start_def)
  with assms(3) have "run_ops (run_wifi env) ?t obs = Inr s'" by simp
  from connecting_run [OF this] t show ?thesis by simp
qed

theorem deferred_connect_first_witness:
  "\<exists>t. run_wifi sample_env (stale_state\<lparr>wl_pc := Oper_Start\<rparr>) (quiet Closed) = Inr t \<and>
     wl_pc t = Connecting [1, 2, 3]"
proof -
  let ?s = "stale_state\<lparr>wl_pc := Oper_Start\<rparr>"
  have "wl_pc ?s = Oper_Start" by simp
  moreover have "we_prov_ready sample_env (wl_net (apply_update (quiet Closed) ?s))"
    by (simp add: scenario_eval stale_state_def)
  moreover have "run_ops (run_wifi sample_env) ?s [quiet Closed] =
      Inr (?s\<lparr>wl_ctl := Mode_Operational, wl_pc := Connecting [1, 2, 3]\<rparr>)"
    by (simp add: scenario_eval stale_state_def)
  ultimately have "\<exists>t. run_wifi sample_env ?s (quiet Closed) = Inr t \<and>
      wl_pc t = Connecting (ncs_network_id (wl_net (apply_update (quiet Closed) ?s)))"
    using deferred_connect_first by blast
  then show ?thesis by (simp add: scenario_eval stale_state_def)
qed

definition oper_quiet :: "('q, 'st) wl_obs \<Rightarrow> bool" where
  "oper_quiet ob \<longleftrightarrow>
     ob_oper_net ob = None \<and> ob_mdns ob = None \<and> ob_user ob = None \<and>
     (case io_startup (ob_im ob) of Some (Inl _) \<Rightarrow> False | _ \<Rightarrow> True) \<and>
     io_responder (ob_im ob) = None \<and> io_run (ob_im ob) = None"

lemma oper_quiet_step:
  assumes "select_contract (we_select env)" and "oper_quiet ob" and "wl_pc s = Oper nx im"
  shows "\<exists>s'. run_wifi env s ob = Inr s' \<and>
    (case wait_next_comm_window (we_window env) nx (ob_window ob) of
       Inl _ \<Rightarrow> wl_pc s' = Loop_Head
     | Inr nx' \<Rightarrow> \<exists>im'. wl_pc s' = Oper nx' im')"
proof -
  obtain im' h' where im: "run_im (we_select env) im (wl_hydration s) (ob_im ob) = (None, im', h')"
    using run_im_quiet [OF assms(1), of "ob_im ob" im "wl_hydration s"] assms(2)
    by (cases "run_im (we_select env) im (wl_hydration s) (ob_im ob)") (auto simp: oper_quiet_def)
  have sel: "we_select env [None, None, None, None] = None" "we_select env [None, None] = None"
    using select4_None [OF assms(1), of None None None None] select2_None [OF assms(1), of None None]
    by simp_all
  then have one: "we_select env [None, Some (Inr ())] = Some (Inr ())"
    using select_pair(2) [OF assms(1)] by blast
  show ?thesis
    using assms(2,3) im sel one
    by (cases "wait_next_comm_window (we_window env) nx (ob_window ob)")
      (auto simp: run_wifi_cases wifi_task_poll_def oper_quiet_def Let_def)
qed

definition rising :: "'q window_preds \<Rightarrow> 'q list \<Rightarrow> bool" where
  "rising wp qs \<longleftrightarrow>
     (\<exists>xs q ys q' zs. qs = xs @ q # ys @ q' # zs \<and>
        \<not> is_open_on_all_transports wp q \<and> is_open_on_all_transports wp q')"

lemma rising_iff: "rising wp qs \<longleftrightarrow> run_ops (wait_next_comm_window wp) Next_Gone qs = Inl ()"
proof -
  have "(\<exists>q' \<in> set ys. is_open_on_all_transports wp q') \<longleftrightarrow>
      (\<exists>as q' zs. ys = as @ q' # zs \<and> is_open_on_all_transports wp q')" for ys
    using split_list_prop [of ys "is_open_on_all_transports wp"] by auto
  then show ?thesis unfolding next_gone_iff rising_def by blast
qed

lemma oper_quiet_run:
  assumes "select_contract (we_select env)" and "list_all oper_quiet obs" and "wl_pc s = Oper nx im"
    and "run_ops (wait_next_comm_window (we_window env)) nx (map ob_window obs) = Inr nx'"
  shows "\<exists>s' im'. run_ops (run_wifi env) s obs = Inr s' \<and> wl_pc s' = Oper nx' im'"
  using assms(2-)
proof (induction obs arbitrary: s nx im)
  case Nil
  then show ?case by simp
next
  case (Cons ob obs)
  then obtain nx1 where n1: "wait_next_comm_window (we_window env) nx (ob_window ob) = Inr nx1"
    and n2: "run_ops (wait_next_comm_window (we_window env)) nx1 (map ob_window obs) = Inr nx'"
    by (auto simp: and_then_Inr_iff)
  from Cons.prems have "oper_quiet ob" and q: "list_all oper_quiet obs" by simp_all
  from oper_quiet_step [OF assms(1) this(1) Cons.prems(2)] n1 obtain t im1 where
    t: "run_wifi env s ob = Inr t" "wl_pc t = Oper nx1 im1" by auto
  from Cons.IH [OF q t(2) n2] t(1) show ?case by simp
qed

text \<open>
  C20. While its tasks run, the operational phase keeps the radio until the next window that is
  open on all transports appears. The window that was open when it began never takes it
  back to BLE: the phase goes on as long as no rising edge of the window has been seen, and
  is left at the evaluation that sees the first.
\<close>

theorem radio_kept_until_next_window:
  assumes "select_contract (we_select env)" and "list_all oper_quiet (obs @ [ob])"
    and "wl_pc s = Oper Next_Gone im" and "\<not> rising (we_window env) (map ob_window obs)"
  shows "\<exists>s'. run_ops (run_wifi env) s obs = Inr s' \<and> (\<exists>nx im'. wl_pc s' = Oper nx im') \<and>
    (\<exists>s''. run_wifi env s' ob = Inr s'' \<and>
       (if rising (we_window env) (map ob_window obs @ [ob_window ob])
        then wl_pc s'' = Loop_Head else (\<exists>nx im'. wl_pc s'' = Oper nx im')))"
proof -
  let ?next = "wait_next_comm_window (we_window env)"
  from assms(4) obtain nx where nx: "run_ops ?next Next_Gone (map ob_window obs) = Inr nx"
    unfolding rising_iff by (cases "run_ops ?next Next_Gone (map ob_window obs)") auto
  from assms(2) have q: "list_all oper_quiet obs" "oper_quiet ob" by simp_all
  from oper_quiet_run [OF assms(1) q(1) assms(3) nx] obtain s' im' where
    s': "run_ops (run_wifi env) s obs = Inr s'" "wl_pc s' = Oper nx im'" by blast
  have edge: "rising (we_window env) (map ob_window obs @ [ob_window ob]) \<longleftrightarrow>
      ?next nx (ob_window ob) = Inl ()"
    unfolding rising_iff run_ops_append nx by (cases "?next nx (ob_window ob)") simp_all
  from oper_quiet_step [OF assms(1) q(2) s'(2)] s' show ?thesis
    unfolding edge by (cases "?next nx (ob_window ob)") auto
qed

theorem radio_kept_until_next_window_witness:
  "\<exists>s' s''. run_ops (run_wifi sample_env) (stale_state\<lparr>wl_pc := Oper Next_Gone Im_Running\<rparr>)
      [quiet Open_Basic, quiet Closed] = Inr s' \<and>
     run_wifi sample_env s' (quiet Open_Basic) = Inr s'' \<and> wl_pc s'' = Loop_Head"
proof -
  let ?s = "stale_state\<lparr>wl_pc := Oper Next_Gone Im_Running\<rparr>"
  let ?obs = "[quiet Open_Basic, quiet Closed]"
  have q: "list_all oper_quiet (?obs @ [quiet Open_Basic])" by (simp add: oper_quiet_def quiet_def)
  have pc: "wl_pc ?s = Oper Next_Gone Im_Running" by simp
  have no: "\<not> rising (we_window sample_env) (map ob_window ?obs)"
    and yes: "rising (we_window sample_env) (map ob_window ?obs @ [ob_window (quiet Open_Basic)])"
    by (simp_all add: rising_iff sample_env_def plain_preds_def quiet_def)
  from radio_kept_until_next_window [OF sample_contracts(1) q pc no] yes show ?thesis by auto
qed

text \<open>
  The verdict on the credentials and the network it is about. Updates by the handlers may come in
  as long as they keep it, as the record of the successful connect does.
\<close>

definition verdict :: "('q, 'st) wl_env \<Rightarrow> 'st net_ctl_state \<Rightarrow> 8 word list option" where
  "verdict env st = (if we_prov_ready env st then Some (ncs_network_id st) else None)"

definition keeps_verdict :: "('q, 'st) wl_env \<Rightarrow> 8 word list \<Rightarrow> ('q, 'st) wl_obs \<Rightarrow> bool" where
  "keeps_verdict env network_id ob \<longleftrightarrow>
     (case ob_net_update ob of None \<Rightarrow> True | Some st \<Rightarrow> verdict env st = Some network_id)"

fun no_ble_phase :: "('q, 'st) wl_env \<Rightarrow> 'st wl_state \<Rightarrow> ('q, 'st) wl_obs list \<Rightarrow> bool" where
  "no_ble_phase env s [] \<longleftrightarrow> wl_pc s \<noteq> Ble_Start"
| "no_ble_phase env s (ob # obs) \<longleftrightarrow>
     wl_pc s \<noteq> Ble_Start \<and> (case run_wifi env s ob of Inl _ \<Rightarrow> True | Inr t \<Rightarrow> no_ble_phase env t obs)"

lemma no_ble_phase_start: "no_ble_phase env s obs \<Longrightarrow> wl_pc s \<noteq> Ble_Start"
  by (cases obs) simp_all

lemma step_keeps_net:
  "run_wifi env s ob = Inr t \<Longrightarrow> wl_pc t \<noteq> Ble_Start \<Longrightarrow> wl_net t = wl_net (apply_update ob s)"
  by (cases "wl_pc s")
    (auto simp: run_wifi_cases run_wifi_defs Let_def split: if_splits option.splits sum.splits prod.splits)

lemma run_keeps_verdict:
  "verdict env (wl_net s) = Some network_id \<Longrightarrow> list_all (keeps_verdict env network_id) obs \<Longrightarrow>
   no_ble_phase env s obs \<Longrightarrow> run_ops (run_wifi env) s obs = Inr s' \<Longrightarrow>
   verdict env (wl_net s') = Some network_id"
proof (induction obs arbitrary: s)
  case Nil
  then show ?case by simp
next
  case (Cons ob obs)
  then obtain t where t: "run_wifi env s ob = Inr t" and r: "run_ops (run_wifi env) t obs = Inr s'"
    by (auto simp: and_then_Inr_iff)
  have ble: "no_ble_phase env t obs" using Cons.prems(3) t by simp
  have "verdict env (wl_net t) = Some network_id"
    unfolding step_keeps_net [OF t no_ble_phase_start [OF ble]]
    using Cons.prems(1,2) by (auto simp: apply_update_def keeps_verdict_def split: option.splits)
  then show ?case using Cons.prems(2) ble r by (intro Cons.IH) simp_all
qed

text \<open>
  C39. The verdict of a commissioning stays after the connect it was for. From the deferred connect
  on, through the operational phase it belongs to and any further ones - for as long as no BLE phase
  begins and the handlers record no other verdict - every operational phase that is started again
  connects to the same network once more before anything else, over Wifi and over Thread.
\<close>

theorem stale_verdict_connects_again:
  assumes "wl_pc s = Connecting network_id" and "verdict env (wl_net s) = Some network_id"
    and "list_all (keeps_verdict env network_id) (obs @ [ob])" and "no_ble_phase env s obs"
    and "run_ops (run_wifi env) s obs = Inr s'" and "wl_pc s' = Oper_Start"
  shows "(\<exists>s''. run_wifi env s' ob = Inr s'' \<and> wl_pc s'' = Connecting network_id) \<and>
    (\<exists>t' t''. run_ops (run_thread env) (to_thread s) obs = Inr t' \<and>
       run_thread env t' ob = Inr t'' \<and> wl_pc t'' = Connecting network_id)"
proof -
  from assms(3) have ob: "list_all (keeps_verdict env network_id) obs" "keeps_verdict env network_id ob"
    by simp_all
  have "verdict env (wl_net (apply_update ob s')) = Some network_id"
    using run_keeps_verdict [OF assms(2) ob(1) assms(4,5)] ob(2)
    by (auto simp: apply_update_def keeps_verdict_def split: option.splits)
  then obtain s'' where s'': "run_wifi env s' ob = Inr s''" "wl_pc s'' = Connecting network_id"
    using assms(6) by (auto simp: run_wifi_cases wifi_task_start_def verdict_def split: if_splits)
  moreover have "run_ops (run_thread env) (to_thread s) obs = Inr (to_thread s')"
    by (simp add: thread_run_is_wifi_run assms(5))
  moreover have "run_thread env (to_thread s') ob = Inr (to_thread s'')"
    by (simp add: run_thread_step s''(1))
  ultimately show ?thesis by simp
qed

text \<open>The connect, an operational phase that the user's task ends, and a head of the loop without a window.\<close>

definition again_obs :: "(window, unit) wl_obs list" where
  "again_obs =
     [(quiet Open_Basic)\<lparr>ob_connect := Some (Inr ()), ob_net_update := Some provisioned\<rparr>, quiet Open_Basic,
      quiet Closed, (quiet Closed)\<lparr>ob_user := Some (Inr ())\<rparr>, quiet Closed]"

theorem stale_verdict_connects_again_witness:
  "\<exists>s'. run_ops (run_wifi sample_env) ((wl_state_new provisioned)\<lparr>wl_pc := Connecting [1, 2, 3]\<rparr>) again_obs = Inr s' \<and>
    (\<exists>s''. run_wifi sample_env s' (quiet Closed) = Inr s'' \<and> wl_pc s'' = Connecting [1, 2, 3])"
proof -
  let ?s = "(wl_state_new provisioned)\<lparr>wl_pc := Connecting [1, 2, 3]\<rparr>"
  obtain s' where s': "run_ops (run_wifi sample_env) ?s again_obs = Inr s'" "wl_pc s' = Oper_Start"
    by (simp add: again_obs_def scenario_eval)
  have "verdict sample_env (wl_net ?s) = Some [1, 2, 3]"
    by (simp add: verdict_def sample_env_def provisioned_def wl_state_new_def)
  moreover have "list_all (keeps_verdict sample_env [1, 2, 3]) (again_obs @ [quiet Closed])"
    by (simp add: keeps_verdict_def verdict_def again_obs_def quiet_def sample_env_def provisioned_def)
  moreover have "no_ble_phase sample_env ?s again_obs"
    by (simp add: again_obs_def scenario_eval)
  ultimately show ?thesis
    using stale_verdict_connects_again [of ?s "[1, 2, 3]" sample_env again_obs "quiet Closed" s'] s' by auto
qed

end
