(* ===== verification/Stack_Core.thy ===== *)
theory Stack_Core
  imports Wireless_Phases
begin

text \<open>
  The calls of \<open>MatterStack\<close> around a run: \<open>startup\<close>, \<open>reset\<close> and \<open>open_basic_comm_window\<close>
  (\<^verbatim>\<open>src/src/lib.rs\<close>, \<^verbatim>\<open>src/src/eth.rs\<close>, \<^verbatim>\<open>src/src/wireless.rs\<close>), the choice of the discovery
  capabilities, and the Ethernet task. The operations of the \<open>Matter\<close> instance and of the
  interaction model are code of \<^verbatim>\<open>rs-matter\<close>: a record of actions.
\<close>

section \<open>Networks\<close>

datatype discovery_capabilities = Discovery_IP | Discovery_BLE

datatype network_kind = Eth | Wireless_Ble

definition discovery_capabilities :: "network_kind \<Rightarrow> discovery_capabilities" where
  "discovery_capabilities n = (case n of Eth \<Rightarrow> Discovery_IP | Wireless_Ble \<Rightarrow> Discovery_BLE)"

record 'w matter_ops =
  mt_startup :: "('w, unit) act"
  mt_has_fabrics :: "'w \<Rightarrow> bool"
  mt_open_basic_comm_window :: "nat \<Rightarrow> ('w, unit) act"
  mt_print_standard_qr_text :: "discovery_capabilities \<Rightarrow> ('w, unit) act"
  mt_print_standard_qr_code :: "discovery_capabilities \<Rightarrow> ('w, unit) act"
  mt_factory_reset :: "('w, unit) act"
  mt_remove_networks :: "('w, unit) act"
  mt_im_factory_reset :: "('w, unit) act"
  mt_max_comm_window_timeout_secs :: nat

section \<open>Startup and reset\<close>

definition open_basic_comm_window :: "network_kind \<Rightarrow> 'w matter_ops \<Rightarrow> ('w, unit) act" where
  "open_basic_comm_window n m =
     act_then (mt_open_basic_comm_window m (mt_max_comm_window_timeout_secs m)) (\<lambda>_.
     act_then (mt_print_standard_qr_text m (discovery_capabilities n)) (\<lambda>_.
     mt_print_standard_qr_code m (discovery_capabilities n)))"

definition eth_startup :: "'w matter_ops \<Rightarrow> ('w, unit) act" where
  "eth_startup m =
     act_then (mt_startup m) (\<lambda>_ w.
       if \<not> mt_has_fabrics m w
       then act_then (open_basic_comm_window Eth m) (\<lambda>_. act_ok ()) w
       else act_ok () w)"

definition wireless_startup :: "'w matter_ops \<Rightarrow> ('w, unit) act" where
  "wireless_startup m =
     act_then (mt_startup m) (\<lambda>_ w.
       if \<not> mt_has_fabrics m w
       then act_then (open_basic_comm_window Wireless_Ble m) (\<lambda>_. act_ok ()) w
       else act_ok () w)"

definition eth_reset :: "'w matter_ops \<Rightarrow> ('w, unit) act" where
  "eth_reset m = act_then (mt_factory_reset m) (\<lambda>_. mt_im_factory_reset m)"

definition wireless_reset :: "'w matter_ops \<Rightarrow> ('w, unit) act" where
  "wireless_reset m =
     act_then (mt_factory_reset m) (\<lambda>_.
     act_then (mt_remove_networks m) (\<lambda>_. mt_im_factory_reset m))"

section \<open>The Ethernet task\<close>

datatype eth_pc = Eth_Start | Eth_Running im_pc

record eth_state =
  et_pc :: eth_pc
  et_hydration :: hydration

text \<open>The observations are those of the wireless runs, the ones of the radio unused.\<close>

definition eth_task ::
    "('q, 'st) wl_env \<Rightarrow> (eth_state, ('q, 'st) wl_obs, unit res) task" where
  "eth_task env s ob =
     (case et_pc s of
        Eth_Start \<Rightarrow>
          (case ob_rand ob of
             Some e \<Rightarrow> Inl (Inl e)
           | None \<Rightarrow> Inr (s\<lparr>et_pc := Eth_Running Im_Start\<rparr>))
      | Eth_Running im \<Rightarrow>
          (let (im_res, im', h') = run_im (we_select env) im (et_hydration s) (ob_im ob)
           in case we_select env [ob_oper_net ob, ob_mdns ob, im_res, ob_user ob] of
                None \<Rightarrow> Inr (s\<lparr>et_pc := Eth_Running im', et_hydration := h'\<rparr>)
              | Some r \<Rightarrow> Inl r))"

end
