(* ===== verification/Core_Spec.thy ===== *)
theory Core_Spec
  imports Stack_Core Wireless_Spec
begin

text \<open>
  What the stack promises around its runs: after a startup the device is commissionable
  exactly when it is not commissioned, and then a wireless run begins with the BLE phase;
  a reset that succeeds has reset everything; and a startup of the interaction model that
  fails is not tried again.
\<close>

section \<open>Startup\<close>

text \<open>
  What the calls of \<^verbatim>\<open>rs-matter\<close> promise when they succeed: loading the persisted state does
  not touch the window, opening the window opens it on all transports and adds no fabric,
  printing the codes changes neither.
\<close>

definition matter_contract ::
    "'w matter_ops \<Rightarrow> 'q window_preds \<Rightarrow> ('w \<Rightarrow> 'q) \<Rightarrow> bool" where
  "matter_contract m wp window \<longleftrightarrow>
     (\<forall>w w' u. mt_startup m w = (Inr (Inr u), w') \<longrightarrow> window w' = window w) \<and>
     (\<forall>t w w' u. mt_open_basic_comm_window m t w = (Inr (Inr u), w') \<longrightarrow>
        is_open_on_all_transports wp (window w') \<and> mt_has_fabrics m w' = mt_has_fabrics m w) \<and>
     (\<forall>c w w' u. mt_print_standard_qr_text m c w = (Inr (Inr u), w') \<longrightarrow>
        window w' = window w \<and> mt_has_fabrics m w' = mt_has_fabrics m w) \<and>
     (\<forall>c w w' u. mt_print_standard_qr_code m c w = (Inr (Inr u), w') \<longrightarrow>
        window w' = window w \<and> mt_has_fabrics m w' = mt_has_fabrics m w)"

lemma act_then_ok:
  "act_then m k w = (Inr (Inr y), w') \<longleftrightarrow>
   (\<exists>x v. m w = (Inr (Inr x), v) \<and> k x v = (Inr (Inr y), w'))"
  by (auto simp: act_then_def split: prod.splits sum.splits)

lemma open_window_ok:
  assumes "matter_contract m wp window"
    and "open_basic_comm_window n m w = (Inr (Inr u), w')"
  shows "is_open_on_all_transports wp (window w') \<and> mt_has_fabrics m w' = mt_has_fabrics m w"
proof -
  from assms(2) obtain v1 v2 where
    "mt_open_basic_comm_window m (mt_max_comm_window_timeout_secs m) w = (Inr (Inr ()), v1)"
    "mt_print_standard_qr_text m (discovery_capabilities n) v1 = (Inr (Inr ()), v2)"
    "mt_print_standard_qr_code m (discovery_capabilities n) v2 = (Inr (Inr u), w')"
    by (auto simp: open_basic_comm_window_def act_then_ok)
  with assms(1) show ?thesis unfolding matter_contract_def by metis
qed

lemma wireless_startup_window:
  assumes "matter_contract m wp window" and "\<not> is_open_on_all_transports wp (window w)"
    and "wireless_startup m w = (Inr (Inr u), w')"
  shows "is_open_on_all_transports wp (window w') \<longleftrightarrow> \<not> mt_has_fabrics m w'"
proof -
  from assms(3) obtain v where st: "mt_startup m w = (Inr (Inr ()), v)"
    and k: "(if \<not> mt_has_fabrics m v then act_then (open_basic_comm_window Wireless_Ble m) (\<lambda>_. act_ok ()) v
             else act_ok () v) = (Inr (Inr u), w')"
    by (auto simp: wireless_startup_def act_then_ok)
  from st assms(1) have win: "window v = window w" unfolding matter_contract_def by metis
  show ?thesis
  proof (cases "mt_has_fabrics m v")
    case True
    with k win assms(2) show ?thesis by auto
  next
    case False
    with k have "open_basic_comm_window Wireless_Ble m v = (Inr (Inr ()), w')"
      by (auto simp: act_then_ok)
    from open_window_ok [OF assms(1) this] False show ?thesis by simp
  qed
qed

text \<open>
  After a startup that succeeds, a run of the wireless stack begins with the BLE phase
  exactly when the device has no fabric: the startup opens the window on all transports for a
  device that is not commissioned, and leaves it closed for one that is.
\<close>

theorem startup_then_first_phase:
  assumes "matter_contract m (we_window env) window"
    and "\<not> is_open_on_all_transports (we_window env) (window w)"
    and "wireless_startup m w = (Inr (Inr u), w')"
    and "ob_window ob = window w'" and "ob_net_update ob = None"
  shows "\<exists>s. run_wifi env (wl_state_new st) ob = Inr s \<and>
    wl_pc s = (if mt_has_fabrics m w' then Oper_Start else Ble_Start)"
  using wireless_startup_window [OF assms(1-3)] assms(4,5)
  by (simp add: run_wifi_cases wl_state_new_def run_wifi_head_def)

text \<open>An instance: the world is the number of fabrics and the window.\<close>

definition small_matter :: "(nat \<times> window) matter_ops" where
  "small_matter =
     \<lparr>mt_startup = act_ok (), mt_has_fabrics = (\<lambda>w. 0 < fst w),
      mt_open_basic_comm_window = (\<lambda>t w. (Inr (Inr ()), (fst w, Open_Basic))),
      mt_print_standard_qr_text = (\<lambda>c. act_ok ()), mt_print_standard_qr_code = (\<lambda>c. act_ok ()),
      mt_factory_reset = (\<lambda>w. (Inr (Inr ()), (0, Closed))),
      mt_remove_networks = act_err StdIoError, mt_im_factory_reset = act_ok (),
      mt_max_comm_window_timeout_secs = 900\<rparr>"

lemma small_matter_contract: "matter_contract small_matter plain_preds snd"
  by (simp add: matter_contract_def small_matter_def plain_preds_def)

theorem startup_then_first_phase_witness:
  "\<exists>s. run_wifi sample_env (wl_state_new blank) (quiet Open_Basic) = Inr s \<and> wl_pc s = Ble_Start"
proof -
  have c: "matter_contract small_matter (we_window sample_env) snd"
    using small_matter_contract by (simp add: sample_env_def)
  have "wireless_startup small_matter (0, Closed) = (Inr (Inr ()), (0, Open_Basic))"
    by (simp add: wireless_startup_def open_basic_comm_window_def small_matter_def act_then_def)
  from startup_then_first_phase [OF c _ this, of "quiet Open_Basic" blank] show ?thesis
    by (simp add: quiet_def sample_env_def plain_preds_def small_matter_def)
qed

section \<open>Reset\<close>

text \<open>
  A factory reset that succeeds has reset all there is to reset, in this order: the
  \<open>Matter\<close> instance, over wireless the commissioned networks, the interaction model. When a
  call fails its error is the result and the calls after it are not made; without networks
  to remove, the wireless reset is the Ethernet one.
\<close>

theorem reset_resets_everything:
  "(wireless_reset m w = (Inr (Inr ()), w') \<longleftrightarrow>
     (\<exists>v1 v2. mt_factory_reset m w = (Inr (Inr ()), v1) \<and>
        mt_remove_networks m v1 = (Inr (Inr ()), v2) \<and> mt_im_factory_reset m v2 = (Inr (Inr ()), w'))) \<and>
   (wireless_reset m w = (Inr (Inl e), w') \<longleftrightarrow>
     mt_factory_reset m w = (Inr (Inl e), w') \<or>
     (\<exists>v1. mt_factory_reset m w = (Inr (Inr ()), v1) \<and>
        (mt_remove_networks m v1 = (Inr (Inl e), w') \<or>
         (\<exists>v2. mt_remove_networks m v1 = (Inr (Inr ()), v2) \<and>
            mt_im_factory_reset m v2 = (Inr (Inl e), w'))))) \<and>
   wireless_reset (m\<lparr>mt_remove_networks := act_ok ()\<rparr>) = eth_reset m"
  by (intro conjI)
    (auto simp: wireless_reset_def eth_reset_def fun_eq_iff act_then_def
      split: prod.splits sum.splits)

section \<open>Hydration\<close>

text \<open>
  A startup of the interaction model that fails ends the run with its error, and is the
  last: the flag is set before the startup, so that a later run on the same stack runs the
  interaction model without having hydrated it.
\<close>

theorem failed_startup_is_final:
  assumes "\<not> im_hydrated h" and "io_startup ob = Some (Inl e)"
    and "run_im sel Im_Start h ob = (r, im, h')"
  shows "r = Some (Inl e) \<and>
    run_im sel Im_Start h' ob' = (sel [io_responder ob', io_run ob'], Im_Running, h')"
  using assms by (auto simp: startup_im_def Let_def poll_im_startup_def poll_im_running_def)

theorem failed_startup_is_final_witness:
  "run_im select_first Im_Start \<lparr>im_hydrated = True, im_startups = 1\<rparr>
     \<lparr>io_startup = None, io_responder = None, io_run = Some (Inr ())\<rparr> =
   (Some (Inr ()), Im_Running, \<lparr>im_hydrated = True, im_startups = 1\<rparr>)"
proof -
  let ?ob = "\<lparr>io_startup = Some (Inl StdIoError), io_responder = None, io_run = None\<rparr>"
  have "run_im select_first Im_Start hydration_new ?ob =
      (Some (Inl StdIoError), Im_Startup, \<lparr>im_hydrated = True, im_startups = 1\<rparr>)"
    by (simp add: startup_im_def poll_im_startup_def hydration_new_def)
  from failed_startup_is_final [OF _ _ this, of StdIoError
      "\<lparr>io_startup = None, io_responder = None, io_run = Some (Inr ())\<rparr>"]
  show ?thesis by (simp add: hydration_new_def select_first_def)
qed

section \<open>The other drivers\<close>

text \<open>Over Ethernet and with coexistence there is one phase, and at most one startup as well.\<close>

interpretation eth_machine: op_machine "eth_task env" "\<lambda>_ _. True" "\<lambda>s. hydration_ok (et_hydration s)" for env
proof unfold_locales
  fix s ob s' assume "hydration_ok (et_hydration s)" and "eth_task env s ob = Inr s'"
  then show "hydration_ok (et_hydration s')"
    by (cases "et_pc s")
      (auto simp: eth_task_def split: option.splits prod.splits dest: run_im_ok)
qed

interpretation coex_machine: op_machine "wifi_coex_task env" "\<lambda>_ _. True" "\<lambda>s. hydration_ok (cx_hydration s)" for env
proof unfold_locales
  fix s ob s' assume "hydration_ok (cx_hydration s)" and "wifi_coex_task env s ob = Inr s'"
  then show "hydration_ok (cx_hydration s')"
    by (cases "cx_pc s")
      (auto simp: wifi_coex_task_def Let_def split: option.splits prod.splits dest: run_im_ok)
qed

lemma thread_coex_is_wifi_coex: "thread_coex_task env s ob = wifi_coex_task env s ob"
  by (simp add: thread_coex_task_def wifi_coex_task_def)

text \<open>
  Over Ethernet, and with coexistence over Wifi or Thread, a run starts the interaction
  model up at most once, and not at all when an earlier run on the stack has done so.
\<close>

theorem single_phase_hydration:
  assumes "hydration_ok (et_hydration s)" and "hydration_ok (cx_hydration t)"
    and "run_ops (eth_task env) s obs = Inr s'" and "run_ops (thread_coex_task env) t obs' = Inr t'"
  shows "im_startups (et_hydration s') = (if im_hydrated (et_hydration s') then 1 else 0) \<and>
    im_startups (cx_hydration t') = (if im_hydrated (cx_hydration t') then 1 else 0)"
proof -
  have "thread_coex_task env = wifi_coex_task env"
    by (intro ext) (rule thread_coex_is_wifi_coex)
  with assms(4) have t': "run_ops (wifi_coex_task env) t obs' = Inr t'" by simp
  from eth_machine.run_inv [OF assms(1) _ assms(3)] coex_machine.run_inv [OF assms(2) _ t'] show ?thesis
    by (simp add: hydration_ok_def)
qed

theorem single_phase_hydration_witness:
  "im_startups (et_hydration \<lparr>et_pc = Eth_Running Im_Running, et_hydration = \<lparr>im_hydrated = True, im_startups = 1\<rparr>\<rparr>) = 1"
proof -
  let ?e = "\<lparr>et_pc = Eth_Start, et_hydration = hydration_new\<rparr>"
  let ?c = "\<lparr>cx_pc = Coex_Start, cx_ctl = Mode_None, cx_hydration = hydration_new\<rparr>"
  have e: "run_ops (eth_task sample_env) ?e [quiet Closed, quiet Closed] =
      Inr \<lparr>et_pc = Eth_Running Im_Running, et_hydration = \<lparr>im_hydrated = True, im_startups = 1\<rparr>\<rparr>"
    by (simp add: eth_task_def scenario_eval)
  have c: "run_ops (thread_coex_task sample_env) ?c [] = Inr ?c" by simp
  from single_phase_hydration [OF _ _ e c] show ?thesis by (simp add: hydration_new_ok)
qed

end
