(* ===== verification/Run_Lock.thy ===== *)
theory Run_Lock
  imports Bump_Box
begin

text \<open>
  The life of a call of \<open>run\<close> (\<^verbatim>\<open>src/src/eth.rs\<close>; \<open>run\<close> and \<open>run_coex\<close> of
  \<^verbatim>\<open>src/src/wireless/wifi.rs\<close> and \<^verbatim>\<open>thread.rs\<close>) on a stack that any number of callers share:
  the run lock, the guard that resets the bump allocator, the task in the allocator and the
  boxes the task allocates. The steps of the callers interleave in any order. A call may be
  cancelled (its future dropped) at any await point: while it waits for the lock, while a
  wireless run that has it waits for the networks store, and while its task runs. A panic
  unwinds like an early return.
\<close>

section \<open>Callers\<close>

text \<open>
  The locals of \<open>run\<close> are dropped in the reverse order of their declaration: the task and
  with it the boxes it holds, the guard, the lock.
\<close>

datatype caller_pc =
    Idle
  | Waiting_Lock
  | Locked
  | Guarded
  | Task_Running
  | Task_Dropped
  | Guard_Dropped

record lock_state =
  rl_owner :: "nat option"
  rl_callers :: "nat \<Rightarrow> caller_pc"
  rl_bump :: bump
  rl_live :: "(nat \<times> ptr \<times> layout) list"

definition lock_init :: "nat \<Rightarrow> nat \<Rightarrow> lock_state" where
  "lock_init base N =
     \<lparr>rl_owner = None, rl_callers = (\<lambda>_. Idle), rl_bump = bump_new base N, rl_live = []\<rparr>"

datatype label =
    L_Call nat
  | L_Acquire nat
  | L_Cancel_Wait nat
  | L_Cancel_Locked nat
  | L_Guard nat
  | L_Early_Return nat
  | L_Alloc_Task nat layout
  | L_Alloc nat layout
  | L_Drop_Box nat
  | L_Drop_Task nat
  | L_Reset nat
  | L_Unlock nat

definition set_caller :: "nat \<Rightarrow> caller_pc \<Rightarrow> lock_state \<Rightarrow> lock_state" where
  "set_caller i pc s = s\<lparr>rl_callers := (rl_callers s)(i := pc)\<rparr>"

inductive run_step :: "label \<Rightarrow> lock_state \<Rightarrow> lock_state \<Rightarrow> bool" where
  call:
    "rl_callers s i = Idle \<Longrightarrow> run_step (L_Call i) s (set_caller i Waiting_Lock s)"
| acquire:
    "rl_callers s i = Waiting_Lock \<Longrightarrow> rl_owner s = None \<Longrightarrow>
     run_step (L_Acquire i) s (set_caller i Locked (s\<lparr>rl_owner := Some i\<rparr>))"
| cancel_wait:
    "rl_callers s i = Waiting_Lock \<Longrightarrow>
     run_step (L_Cancel_Wait i) s (set_caller i Idle s)"
| cancel_locked:
    "rl_callers s i = Locked \<Longrightarrow>
     run_step (L_Cancel_Locked i) s (set_caller i Idle (s\<lparr>rl_owner := None\<rparr>))"
| guard:
    "rl_callers s i = Locked \<Longrightarrow> run_step (L_Guard i) s (set_caller i Guarded s)"
| early_return:
    "rl_callers s i = Guarded \<Longrightarrow>
     run_step (L_Early_Return i) s (set_caller i Task_Dropped s)"
| alloc_task:
    "rl_callers s i = Guarded \<Longrightarrow> reserve T (rl_bump s) = Inr (p, b) \<Longrightarrow>
     run_step (L_Alloc_Task i T) s
       (set_caller i Task_Running (s\<lparr>rl_bump := b, rl_live := (i, p, T) # rl_live s\<rparr>))"
| alloc_box:
    "rl_callers s i = Task_Running \<Longrightarrow> reserve T (rl_bump s) = Inr (p, b) \<Longrightarrow>
     run_step (L_Alloc i T) s (s\<lparr>rl_bump := b, rl_live := (i, p, T) # rl_live s\<rparr>)"
| drop_box:
    "rl_callers s i = Task_Running \<Longrightarrow> rl_live s = xs @ (i, p, T) # ys \<Longrightarrow>
     run_step (L_Drop_Box i) s (s\<lparr>rl_live := xs @ ys\<rparr>)"
| drop_task:
    "rl_callers s i = Task_Running \<Longrightarrow>
     run_step (L_Drop_Task i) s
       (set_caller i Task_Dropped (s\<lparr>rl_live := filter (\<lambda>(j, _). j \<noteq> i) (rl_live s)\<rparr>))"
| reset:
    "rl_callers s i = Task_Dropped \<Longrightarrow>
     run_step (L_Reset i) s (set_caller i Guard_Dropped (s\<lparr>rl_bump := bump_reset (rl_bump s)\<rparr>))"
| unlock:
    "rl_callers s i = Guard_Dropped \<Longrightarrow>
     run_step (L_Unlock i) s (set_caller i Idle (s\<lparr>rl_owner := None\<rparr>))"

inductive_cases run_step_resetE: "run_step (L_Reset i) s s'"

inductive reachable :: "lock_state \<Rightarrow> label list \<Rightarrow> lock_state \<Rightarrow> bool" for s0 where
  reach_refl: "reachable s0 [] s0"
| reach_step: "reachable s0 ls s \<Longrightarrow> run_step l s s' \<Longrightarrow> reachable s0 (ls @ [l]) s'"

section \<open>The invariant\<close>

definition holds_lock :: "caller_pc \<Rightarrow> bool" where
  "holds_lock pc \<longleftrightarrow> pc \<in> {Locked, Guarded, Task_Running, Task_Dropped, Guard_Dropped}"

definition arena_fresh :: "lock_state \<Rightarrow> bool" where
  "arena_fresh s \<longleftrightarrow>
     (case rl_owner s of
        None \<Rightarrow> b_offset (rl_bump s) = 0
      | Some i \<Rightarrow> rl_callers s i \<in> {Locked, Guarded, Guard_Dropped} \<longrightarrow> b_offset (rl_bump s) = 0)"

definition live_owned :: "lock_state \<Rightarrow> bool" where
  "live_owned s \<longleftrightarrow>
     (\<forall>j p T. (j, p, T) \<in> set (rl_live s) \<longrightarrow>
        rl_callers s j = Task_Running \<and> slot_range p T \<subseteq> bump_region (rl_bump s))"

definition lock_inv :: "lock_state \<Rightarrow> bool" where
  "lock_inv s \<longleftrightarrow>
     bump_ok (rl_bump s) \<and>
     (\<forall>i. holds_lock (rl_callers s i) \<longleftrightarrow> rl_owner s = Some i) \<and>
     arena_fresh s \<and> live_owned s \<and> slots_apart (map snd (rl_live s))"

lemma set_caller_simps [simp]:
  "rl_owner (set_caller i pc s) = rl_owner s"
  "rl_callers (set_caller i pc s) = (rl_callers s)(i := pc)"
  "rl_bump (set_caller i pc s) = rl_bump s"
  "rl_live (set_caller i pc s) = rl_live s"
  by (simp_all add: set_caller_def)

lemma holds_lock_simps [simp]:
  "\<not> holds_lock Idle" "\<not> holds_lock Waiting_Lock" "holds_lock Locked" "holds_lock Guarded"
  "holds_lock Task_Running" "holds_lock Task_Dropped" "holds_lock Guard_Dropped"
  by (simp_all add: holds_lock_def)

lemma lock_inv_init: "base + N \<le> usize_max \<Longrightarrow> lock_inv (lock_init base N)"
  using bump_new_ok [of base N]
  by (simp add: lock_inv_def lock_init_def arena_fresh_def live_owned_def slots_apart_def)
    (simp add: bump_new_def)

lemma lock_owner: "lock_inv s \<Longrightarrow> holds_lock (rl_callers s i) \<longleftrightarrow> rl_owner s = Some i"
  by (simp add: lock_inv_def)

lemma live_owner:
  assumes "lock_inv s" and "(j, p, T) \<in> set (rl_live s)"
  shows "rl_owner s = Some j \<and> rl_callers s j = Task_Running"
proof -
  have "rl_callers s j = Task_Running"
    using assms by (auto simp: lock_inv_def live_owned_def)
  with lock_owner [OF assms(1), of j] show ?thesis by simp
qed

lemma no_live_boxes:
  assumes "lock_inv s" and "rl_owner s = Some i" and "rl_callers s i \<noteq> Task_Running"
  shows "rl_live s = []"
proof (rule ccontr)
  assume "rl_live s \<noteq> []"
  then obtain j p T where "(j, p, T) \<in> set (rl_live s)" by (cases "rl_live s") auto
  with live_owner [OF assms(1)] assms(2,3) show False by force
qed

text \<open>An allocation keeps the boxes in the region and apart.\<close>

lemma alloc_keeps_boxes:
  assumes "lock_inv s" and "reserve T (rl_bump s) = Inr (p, b)"
  shows "bump_ok b" and "slot_range p T \<subseteq> bump_region b"
    and "\<And>j q U. (j, q, U) \<in> set (rl_live s) \<Longrightarrow> slot_range q U \<subseteq> bump_region b"
    and "slots_apart ((p, T) # map snd (rl_live s))"
proof -
  from assms(1) have ok: "bump_ok (rl_bump s)" and own: "live_owned s"
    and apart: "slots_apart (map snd (rl_live s))"
    by (simp_all add: lock_inv_def)
  note slot = arena.get_ok [OF ok assms(2)] arena.get_fresh [OF ok assms(2)]
    arena.get_inside [OF ok assms(2)]
  show "bump_ok b" by (rule slot)
  show "slot_range p T \<subseteq> bump_region b" using slot(3) by blast
  have inside: "slot_range q U \<subseteq> bump_region (rl_bump s)" if "(j, q, U) \<in> set (rl_live s)" for j q U
    using own that by (auto simp: live_owned_def)
  with slot(3) show "\<And>j q U. (j, q, U) \<in> set (rl_live s) \<Longrightarrow> slot_range q U \<subseteq> bump_region b"
    by blast
  have "slot_range p T \<inter> slot_range q U = {}" if "(q, U) \<in> set (map snd (rl_live s))" for q U
    using that inside slot(2) by (auto dest!: inside)
  then have "\<forall>y \<in> set (map snd (rl_live s)). slot_range p T \<inter> slot_range (fst y) (snd y) = {}"
    by (metis prod.collapse)
  with apart show "slots_apart ((p, T) # map snd (rl_live s))"
    unfolding slots_apart_def sorted_wrt.simps by (simp add: case_prod_beta)
qed

lemma slots_apart_sub: "slots_apart (map snd (xs @ x # ys)) \<Longrightarrow> slots_apart (map snd (xs @ ys))"
  by (simp add: slots_apart_def sorted_wrt_append)

text \<open>A step of a caller without live boxes, by what it does to the lock and the offset.\<close>

lemma lock_inv_no_boxes:
  assumes "lock_inv s" and "rl_live s' = []" and "bump_ok (rl_bump s')"
    and "\<And>k. holds_lock (rl_callers s' k) \<longleftrightarrow> rl_owner s' = Some k" and "arena_fresh s'"
  shows "lock_inv s'"
  using assms by (simp add: lock_inv_def live_owned_def slots_apart_def)

lemma run_step_inv: "run_step l s s' \<Longrightarrow> lock_inv s \<Longrightarrow> lock_inv s'"
proof (induction rule: run_step.induct)
  case (call s i)
  have "rl_owner s \<noteq> Some i" using lock_owner [OF call.prems, of i] call.hyps by simp
  with call show ?case
    by (auto simp: lock_inv_def arena_fresh_def live_owned_def split: option.split)
next
  case (acquire s i)
  have nil: "rl_live s = []"
    using live_owner [OF acquire.prems] acquire.hyps(2) by (cases "rl_live s") force+
  have own: "\<not> holds_lock (rl_callers s k)" for k
    using lock_owner [OF acquire.prems, of k] acquire.hyps(2) by simp
  show ?case
    using acquire nil own
    by (intro lock_inv_no_boxes [OF acquire.prems]) (auto simp: lock_inv_def arena_fresh_def)
next
  case (cancel_wait s i)
  have "rl_owner s \<noteq> Some i" using lock_owner [OF cancel_wait.prems, of i] cancel_wait.hyps by simp
  with cancel_wait show ?case
    by (auto simp: lock_inv_def arena_fresh_def live_owned_def split: option.split)
next
  case (cancel_locked s i)
  have own: "rl_owner s = Some i" using lock_owner [OF cancel_locked.prems, of i] cancel_locked.hyps by simp
  have nil: "rl_live s = []" using no_live_boxes [OF cancel_locked.prems own] cancel_locked.hyps by simp
  show ?case using cancel_locked own nil
    by (intro lock_inv_no_boxes [OF cancel_locked.prems]) (auto simp: lock_inv_def arena_fresh_def)
next
  case (guard s i)
  have own: "rl_owner s = Some i" using lock_owner [OF guard.prems, of i] guard.hyps by simp
  have nil: "rl_live s = []" using no_live_boxes [OF guard.prems own] guard.hyps by simp
  show ?case using guard own nil
    by (intro lock_inv_no_boxes [OF guard.prems]) (auto simp: lock_inv_def arena_fresh_def)
next
  case (early_return s i)
  have own: "rl_owner s = Some i" using lock_owner [OF early_return.prems, of i] early_return.hyps by simp
  have nil: "rl_live s = []" using no_live_boxes [OF early_return.prems own] early_return.hyps by simp
  show ?case using early_return own nil
    by (intro lock_inv_no_boxes [OF early_return.prems]) (auto simp: lock_inv_def arena_fresh_def)
next
  case (alloc_task s i T p b)
  have own: "rl_owner s = Some i" using lock_owner [OF alloc_task.prems, of i] alloc_task.hyps by simp
  have nil: "rl_live s = []" using no_live_boxes [OF alloc_task.prems own] alloc_task.hyps by simp
  note boxes = alloc_keeps_boxes [OF alloc_task.prems alloc_task.hyps(2)]
  from alloc_task own boxes(1,2) nil show ?case
    by (auto simp: lock_inv_def arena_fresh_def live_owned_def slots_apart_def)
next
  case (alloc_box s i T p b)
  have own: "rl_owner s = Some i" using lock_owner [OF alloc_box.prems, of i] alloc_box.hyps by simp
  note boxes = alloc_keeps_boxes [OF alloc_box.prems alloc_box.hyps(2)]
  have "live_owned (s\<lparr>rl_bump := b, rl_live := (i, p, T) # rl_live s\<rparr>)"
    using alloc_box boxes(2,3) by (auto simp: lock_inv_def live_owned_def)
  with alloc_box boxes(1,4) own show ?case
    by (simp add: lock_inv_def arena_fresh_def)
next
  case (drop_box s i xs p T ys)
  have "slots_apart (map snd (xs @ ys))"
    using drop_box slots_apart_sub [of xs "(i, p, T)" ys] by (simp add: lock_inv_def)
  with drop_box show ?case
    by (simp add: lock_inv_def arena_fresh_def live_owned_def cong: option.case_cong)
next
  case (drop_task s i)
  have own: "rl_owner s = Some i" using lock_owner [OF drop_task.prems, of i] drop_task.hyps by simp
  have nil: "filter (\<lambda>(j, _). j \<noteq> i) (rl_live s) = []"
    using live_owner [OF drop_task.prems] own by (auto simp: filter_empty_conv)
  show ?case using drop_task own nil
    by (intro lock_inv_no_boxes [OF drop_task.prems]) (auto simp: lock_inv_def arena_fresh_def)
next
  case (reset s i)
  have own: "rl_owner s = Some i" using lock_owner [OF reset.prems, of i] reset.hyps by simp
  have nil: "rl_live s = []" using no_live_boxes [OF reset.prems own] reset.hyps by simp
  have "bump_ok (rl_bump s)" using reset.prems by (simp add: lock_inv_def)
  with bump_reset_ok reset own nil show ?case
    by (intro lock_inv_no_boxes [OF reset.prems])
      (auto simp: lock_inv_def arena_fresh_def bump_reset_def)
next
  case (unlock s i)
  have own: "rl_owner s = Some i" using lock_owner [OF unlock.prems, of i] unlock.hyps by simp
  have nil: "rl_live s = []" using no_live_boxes [OF unlock.prems own] unlock.hyps by simp
  show ?case using unlock own nil
    by (intro lock_inv_no_boxes [OF unlock.prems]) (auto simp: lock_inv_def arena_fresh_def)
qed

lemma reachable_inv: "reachable s0 ls s \<Longrightarrow> lock_inv s0 \<Longrightarrow> lock_inv s"
  by (induction rule: reachable.induct) (auto intro: run_step_inv)

end
