(* ===== verification/Run_Spec.thy ===== *)
theory Run_Spec
  imports Run_Lock
begin

text \<open>
  What the run lock and the guard promise together: the allocator is reset only when no box
  is in use, every run begins with the whole arena, and no two boxes in use overlap, whichever
  calls run, wait, are cancelled or panic.
\<close>

lemma reachable_lock_inv:
  "base + N \<le> usize_max \<Longrightarrow> reachable (lock_init base N) ls s \<Longrightarrow> lock_inv s"
  by (rule reachable_inv [OF _ lock_inv_init])

text \<open>
  C1. The safety contract of the reset is met: whenever the guard of a call resets the
  allocator, no box that was allocated from it is still in use, its own or another caller's.
\<close>

theorem reset_only_without_boxes:
  assumes "base + N \<le> usize_max" and "reachable (lock_init base N) ls s"
    and "run_step (L_Reset i) s s'"
  shows "rl_live s = [] \<and> b_offset (rl_bump s') = 0"
proof -
  from reachable_lock_inv [OF assms(1,2)] have inv: "lock_inv s" .
  from assms(3) have pc: "rl_callers s i = Task_Dropped"
    and s': "s' = set_caller i Guard_Dropped (s\<lparr>rl_bump := bump_reset (rl_bump s)\<rparr>)"
    by (auto elim: run_step_resetE)
  from pc lock_owner [OF inv, of i] have "rl_owner s = Some i" by simp
  from no_live_boxes [OF inv this] pc s' show ?thesis by (simp add: bump_reset_def)
qed

text \<open>A call that is made while another one runs, and gets the lock after it was cancelled.\<close>

definition sample_bump :: "nat \<Rightarrow> bump" where
  "sample_bump n = (bump_new 64 8)\<lparr>b_offset := n\<rparr>"

definition sample_lock :: "caller_pc \<Rightarrow> caller_pc \<Rightarrow> nat option \<Rightarrow> nat \<Rightarrow> nat list \<Rightarrow> lock_state" where
  "sample_lock pc0 pc1 own n as =
     \<lparr>rl_owner = own, rl_callers = (\<lambda>_. Idle)(0 := pc0, 1 := pc1), rl_bump = sample_bump n,
      rl_live = map (\<lambda>a. (0, Addr a, \<lparr>lsize = 4, lalign = 4\<rparr>)) as\<rparr>"

lemma sample_reserve:
  "reserve \<lparr>lsize = 4, lalign = 4\<rparr> (sample_bump 0) = Inr (Addr 64, sample_bump 4)"
  "reserve \<lparr>lsize = 4, lalign = 4\<rparr> (sample_bump 4) = Inr (Addr 68, sample_bump 8)"
proof -
  have "bump_ok (sample_bump 0)" and "bump_ok (sample_bump 4)"
    by (simp_all add: bump_ok_def sample_bump_def bump_new_def usize_max_def)
  then show "reserve \<lparr>lsize = 4, lalign = 4\<rparr> (sample_bump 0) = Inr (Addr 64, sample_bump 4)"
    and "reserve \<lparr>lsize = 4, lalign = 4\<rparr> (sample_bump 4) = Inr (Addr 68, sample_bump 8)"
    by (simp_all add: reserve_closed reserve_ptr_def need_def align_pad_def sample_bump_def bump_new_def)
qed

lemma set_caller_sample:
  "set_caller 0 pc (sample_lock pc0 pc1 own n as) = sample_lock pc pc1 own n as"
  "set_caller 1 pc (sample_lock pc0 pc1 own n as) = sample_lock pc0 pc own n as"
  by (auto simp: set_caller_def sample_lock_def fun_upd_twist)

lemma sample_lock_simps [simp]:
  "rl_callers (sample_lock pc0 pc1 own n as) 0 = pc0"
  "rl_callers (sample_lock pc0 pc1 own n as) (Suc 0) = pc1"
  "rl_owner (sample_lock pc0 pc1 own n as) = own"
  "rl_bump (sample_lock pc0 pc1 own n as) = sample_bump n"
  "rl_live (sample_lock pc0 pc1 own n as) = map (\<lambda>a. (0, Addr a, \<lparr>lsize = 4, lalign = 4\<rparr>)) as"
  by (simp_all add: sample_lock_def)

lemma sample_updates:
  "sample_lock pc0 pc1 own n as\<lparr>rl_owner := own'\<rparr> = sample_lock pc0 pc1 own' n as"
  "sample_lock pc0 pc1 own n as\<lparr>rl_bump := sample_bump n', rl_live :=
     (0, Addr a, \<lparr>lsize = 4, lalign = 4\<rparr>) # rl_live (sample_lock pc0 pc1 own n as)\<rparr> =
   sample_lock pc0 pc1 own n' (a # as)"
  by (simp_all add: sample_lock_def)

lemma sample_init: "lock_init 64 8 = sample_lock Idle Idle None 0 []"
  by (auto simp: lock_init_def sample_lock_def sample_bump_def bump_new_def)

lemma sample_run:
  "\<exists>ls. reachable (lock_init 64 8) ls (sample_lock Task_Running Waiting_Lock (Some 0) 8 [68, 64])"
proof -
  let ?T = "\<lparr>lsize = 4, lalign = 4\<rparr>"
  let ?s = "sample_lock"
  have 1: "run_step (L_Call 0) (?s Idle Idle None 0 []) (?s Waiting_Lock Idle None 0 [])"
    using run_step.call [of "?s Idle Idle None 0 []" 0] by (simp add: set_caller_sample)
  have 2: "run_step (L_Acquire 0) (?s Waiting_Lock Idle None 0 []) (?s Locked Idle (Some 0) 0 [])"
    using run_step.acquire [of "?s Waiting_Lock Idle None 0 []" 0]
    by (simp add: set_caller_sample sample_updates)
  have 3: "run_step (L_Guard 0) (?s Locked Idle (Some 0) 0 []) (?s Guarded Idle (Some 0) 0 [])"
    using run_step.guard [of "?s Locked Idle (Some 0) 0 []" 0] by (simp add: set_caller_sample)
  have 4: "run_step (L_Call 1) (?s Guarded Idle (Some 0) 0 []) (?s Guarded Waiting_Lock (Some 0) 0 [])"
    using run_step.call [of "?s Guarded Idle (Some 0) 0 []" 1]
    by (simp add: set_caller_sample [unfolded One_nat_def])
  have 5: "run_step (L_Alloc_Task 0 ?T) (?s Guarded Waiting_Lock (Some 0) 0 [])
      (?s Task_Running Waiting_Lock (Some 0) 4 [64])"
    using run_step.alloc_task [of "?s Guarded Waiting_Lock (Some 0) 0 []" 0 ?T "Addr 64" "sample_bump 4"]
    unfolding sample_updates set_caller_sample by (simp add: sample_reserve)
  have 6: "run_step (L_Alloc 0 ?T) (?s Task_Running Waiting_Lock (Some 0) 4 [64])
      (?s Task_Running Waiting_Lock (Some 0) 8 [68, 64])"
    using run_step.alloc_box [of "?s Task_Running Waiting_Lock (Some 0) 4 [64]" 0 ?T "Addr 68" "sample_bump 8"]
    unfolding sample_updates set_caller_sample by (simp add: sample_reserve)
  from reach_step [OF reach_step [OF reach_step [OF reach_step [OF reach_step [OF reach_step
        [OF reach_refl 1] 2] 3] 4] 5] 6]
  show ?thesis unfolding sample_init by blast
qed

lemma sample_dropped_run:
  "\<exists>ls. reachable (lock_init 64 8) ls (sample_lock Task_Dropped Waiting_Lock (Some 0) 8 [])"
proof -
  let ?s = "sample_lock Task_Running Waiting_Lock (Some 0) 8 [68, 64]"
  have "filter (\<lambda>(j, _). j \<noteq> 0) (rl_live ?s) = []" by simp
  then have "run_step (L_Drop_Task 0) ?s (set_caller 0 Task_Dropped (?s\<lparr>rl_live := []\<rparr>))"
    using run_step.drop_task [of ?s 0] by simp
  moreover have "set_caller 0 Task_Dropped (?s\<lparr>rl_live := []\<rparr>) =
      sample_lock Task_Dropped Waiting_Lock (Some 0) 8 []"
    by (auto simp: set_caller_def sample_lock_def fun_upd_twist)
  ultimately show ?thesis using sample_run reach_step by (metis (no_types, lifting))
qed

theorem reset_only_without_boxes_witness:
  "\<exists>s'. run_step (L_Reset 0) (sample_lock Task_Dropped Waiting_Lock (Some 0) 8 []) s' \<and>
     b_offset (rl_bump s') = 0"
proof -
  let ?s = "sample_lock Task_Dropped Waiting_Lock (Some 0) 8 []"
  obtain ls where ls: "reachable (lock_init 64 8) ls ?s" using sample_dropped_run by blast
  have r: "run_step (L_Reset 0) ?s (set_caller 0 Guard_Dropped (?s\<lparr>rl_bump := bump_reset (rl_bump ?s)\<rparr>))"
    by (rule run_step.reset) simp
  have "64 + 8 \<le> usize_max" by (simp add: usize_max_def)
  from reset_only_without_boxes [OF this ls r] r show ?thesis by blast
qed

text \<open>
  At most one call at a time is past the lock, and it begins with the whole arena: at its
  guard nothing is allocated, so that what fits a new allocator fits its run.
\<close>

theorem run_begins_with_empty_arena:
  assumes "base + N \<le> usize_max" and "reachable (lock_init base N) ls s"
    and "rl_callers s i = Guarded"
  shows "b_offset (rl_bump s) = 0 \<and> rl_live s = [] \<and>
    (\<forall>j. holds_lock (rl_callers s j) \<longrightarrow> j = i)"
proof -
  from reachable_lock_inv [OF assms(1,2)] have inv: "lock_inv s" .
  from assms(3) lock_owner [OF inv, of i] have own: "rl_owner s = Some i" by simp
  from no_live_boxes [OF inv own] assms(3) have "rl_live s = []" by simp
  moreover have "b_offset (rl_bump s) = 0"
    using inv own assms(3) by (simp add: lock_inv_def arena_fresh_def)
  ultimately show ?thesis using own lock_owner [OF inv] by auto
qed

theorem run_begins_with_empty_arena_witness:
  "b_offset (rl_bump (sample_lock Guarded Idle (Some 0) 0 [])) = 0"
proof -
  let ?s = "sample_lock"
  have 1: "run_step (L_Call 0) (?s Idle Idle None 0 []) (?s Waiting_Lock Idle None 0 [])"
    using run_step.call [of "?s Idle Idle None 0 []" 0] by (simp add: set_caller_sample)
  have 2: "run_step (L_Acquire 0) (?s Waiting_Lock Idle None 0 []) (?s Locked Idle (Some 0) 0 [])"
    using run_step.acquire [of "?s Waiting_Lock Idle None 0 []" 0]
    by (simp add: set_caller_sample sample_updates)
  have 3: "run_step (L_Guard 0) (?s Locked Idle (Some 0) 0 []) (?s Guarded Idle (Some 0) 0 [])"
    using run_step.guard [of "?s Locked Idle (Some 0) 0 []" 0] by (simp add: set_caller_sample)
  have "64 + 8 \<le> usize_max" by (simp add: usize_max_def)
  from run_begins_with_empty_arena [OF this reach_step [OF reach_step [OF reach_step
        [OF reach_refl 1 [folded sample_init]] 2] 3], of 0]
  show ?thesis by simp
qed

text \<open>
  The boxes in use never overlap: any two of them, of whatever age, occupy disjoint memory
  of the arena, and they all belong to the one call that runs.
\<close>

theorem live_boxes_disjoint:
  assumes "base + N \<le> usize_max" and "reachable (lock_init base N) ls s"
  shows "slots_apart (map snd (rl_live s)) \<and>
    (\<forall>(j, p, T) \<in> set (rl_live s).
       slot_range p T \<subseteq> bump_region (rl_bump s) \<and> rl_owner s = Some j)"
proof -
  from reachable_lock_inv [OF assms] have inv: "lock_inv s" .
  then have "slots_apart (map snd (rl_live s))" by (simp add: lock_inv_def)
  moreover have "slot_range p T \<subseteq> bump_region (rl_bump s)" if "(j, p, T) \<in> set (rl_live s)" for j p T
    using inv that by (auto simp: lock_inv_def live_owned_def)
  ultimately show ?thesis using live_owner [OF inv] by blast
qed

theorem live_boxes_disjoint_witness:
  "slots_apart (map snd (rl_live (sample_lock Task_Running Waiting_Lock (Some 0) 8 [68, 64])))"
proof -
  obtain ls where ls: "reachable (lock_init 64 8) ls (sample_lock Task_Running Waiting_Lock (Some 0) 8 [68, 64])"
    using sample_run by blast
  have "64 + 8 \<le> usize_max" by (simp add: usize_max_def)
  from live_boxes_disjoint [OF this ls] show ?thesis by blast
qed

end
