(* ===== verification/Bump_Tests.thy ===== *)
theory Bump_Tests
  imports Bump_Spec
begin

text \<open>
  The unit tests of \<^verbatim>\<open>src/src/bump.rs\<close>, translated as scripts over the heap of boxes: a test
  is the list of its statements, a box is the position it has among the boxes alive, an
  element assignment or \<open>+=\<close> through \<open>DerefMut\<close> updates the bytes of one object, and
  \<open>assert_eq!\<close> compares the bytes of an object. The arena is at an arbitrary address, as
  it is for a value on the stack of the test. A script whose assertions hold of the plain
  list of objects passes exactly when its allocations fit.
\<close>

section \<open>Scripts\<close>

datatype test_op =
    T_Op heap_op
  | T_Update nat "byte list \<Rightarrow> byte list"
  | T_Assert nat "byte list"

fun test_step :: "heap \<Rightarrow> test_op \<Rightarrow> panic + heap" where
  "test_step h (T_Op x) = heap_step h x"
| "test_step h (T_Update i f) =
     heap_step h (Op_Write i (f (map the (box_deref (h_bump h) (h_boxes h ! i)))))"
| "test_step h (T_Assert i v) =
     and_then (check_that (box_deref (h_bump h) (h_boxes h ! i) = map Some v)) (\<lambda>_. Inr h)"

text \<open>The layout and the bytes of the types the tests use, on the 64 bit target.\<close>

definition prim :: "nat \<Rightarrow> layout" where
  "prim n = \<lparr>lsize = n, lalign = n\<rparr>"

definition array_of :: "nat \<Rightarrow> nat \<Rightarrow> layout" where
  "array_of n k = \<lparr>lsize = n * k, lalign = n\<rparr>"

fun le_bytes :: "nat \<Rightarrow> nat \<Rightarrow> byte list" where
  "le_bytes 0 x = []"
| "le_bytes (Suc n) x = of_nat (x mod 256) # le_bytes n (x div 256)"

fun le_value :: "byte list \<Rightarrow> nat" where
  "le_value [] = 0"
| "le_value (b # bs) = unat b + 256 * le_value bs"

text \<open>The assignment \<open>a[i] = x\<close> to an element of \<open>n\<close> bytes.\<close>

definition set_elem :: "nat \<Rightarrow> nat \<Rightarrow> nat \<Rightarrow> byte list \<Rightarrow> byte list" where
  "set_elem n i x v = take (n * i) v @ le_bytes n x @ drop (n * i + n) v"

definition BUMP_SIZE :: nat where
  "BUMP_SIZE = 1024"

definition DEFAULT_VALUE :: nat where
  "DEFAULT_VALUE = 0xDEADBEEF"

definition bump_test :: "nat \<Rightarrow> heap" where
  "bump_test base = \<lparr>h_bump = bump_new base BUMP_SIZE, h_boxes = []\<rparr>"

definition run_test :: "nat \<Rightarrow> test_op list \<Rightarrow> panic + heap" where
  "run_test base = run_ops test_step (bump_test base)"

section \<open>The tests\<close>

definition test_one_concurrent_borrow :: "test_op list" where
  "test_one_concurrent_borrow =
     concat (replicate (BUMP_SIZE div 4)
       [T_Op (Op_Alloc (prim 4) (le_bytes 4 DEFAULT_VALUE)),
        T_Assert 0 (le_bytes 4 DEFAULT_VALUE),
        T_Op (Op_Drop 0)])"

text \<open>The second loop consumes the vector: each box is compared and then dropped.\<close>

definition test_multiple_concurrent_borrow :: "test_op list" where
  "test_multiple_concurrent_borrow =
     map (\<lambda>i. T_Op (Op_Alloc (prim 8) (le_bytes 8 i))) [0..<BUMP_SIZE div 8] @
     concat (map (\<lambda>i. [T_Assert 0 (le_bytes 8 i), T_Op (Op_Drop 0)]) [0..<BUMP_SIZE div 8])"

text \<open>The boxes \<open>a\<close>, \<open>b\<close>, \<open>c\<close> are 0, 1, 2 until \<open>b\<close> and then \<open>a\<close> are dropped.\<close>

definition test_interleaved_mutation :: "test_op list" where
  "test_interleaved_mutation =
     [T_Op (Op_Alloc (array_of 1 3) [1, 1, 1]),
      T_Op (Op_Alloc (prim 8) (le_bytes 8 2)),
      T_Update 0 (set_elem 1 1 10),
      T_Op (Op_Alloc (array_of 2 5) (concat (replicate 5 (le_bytes 2 3)))),
      T_Update 1 (\<lambda>v. le_bytes 8 (le_value v + 1)),
      T_Update 0 (set_elem 1 2 20),
      T_Assert 0 [1, 10, 20],
      T_Assert 1 (le_bytes 8 3),
      T_Assert 2 (concat (replicate 5 (le_bytes 2 3))),
      T_Op (Op_Drop 1),
      T_Op (Op_Drop 0),
      T_Op (Op_Alloc (prim 4) (le_bytes 4 4)),
      T_Assert 1 (le_bytes 4 4),
      T_Assert 0 (concat (replicate 5 (le_bytes 2 3)))]"

definition test_reset_and_reuse :: "test_op list" where
  "test_reset_and_reuse =
     [T_Op (Op_Alloc (array_of 8 8) (concat (replicate 8 (le_bytes 8 1)))),
      T_Update 0 (set_elem 8 0 42),
      T_Assert 0 (le_bytes 8 42 @ concat (replicate 7 (le_bytes 8 1))),
      T_Op (Op_Drop 0),
      T_Op Op_Reset,
      T_Op (Op_Alloc (prim 1) [7]),
      T_Assert 0 [7]]"

text \<open>
  The future of the fourth test is an object of a layout the compiler chooses. Its one
  await point is ready at the first poll, so that a poll of the future runs it to its end;
  the loop polls until it is ready, counting the polls.
\<close>

definition test_future :: "(unit, unit, nat) task" where
  "test_future _ _ = (let buf = replicate 64 (7 :: byte) in Inl (sum_list (map unat buf)))"

partial_function (option) poll_until_ready ::
    "(unit, unit, 'r) task \<Rightarrow> nat \<Rightarrow> ('r \<times> nat) option" where
  "poll_until_ready fut polls =
     (case fut () () of Inl r \<Rightarrow> Some (r, polls + 1) | Inr _ \<Rightarrow> poll_until_ready fut (polls + 1))"

definition test_pinned_future :: "layout \<Rightarrow> byte list \<Rightarrow> nat \<Rightarrow> panic + unit" where
  "test_pinned_future T fut base =
     and_then (pin_alloc T fut (bump_new base BUMP_SIZE)) (\<lambda>_.
     case poll_until_ready test_future 0 of
       None \<Rightarrow> Inl Assertion_Failed
     | Some (tot, polls) \<Rightarrow>
         and_then (check_that (tot = 7 * 64)) (\<lambda>_. check_that (polls = 1)))"

section \<open>When a script passes\<close>

text \<open>
  The reference: what the statements mean on a plain list of objects with their layouts,
  and how the arena fills up.
\<close>

fun script_holds :: "(layout \<times> byte list) list \<Rightarrow> test_op list \<Rightarrow> bool" where
  "script_holds vs [] = True"
| "script_holds vs (T_Op (Op_Alloc T v) # xs) =
     (wf_layout T \<and> length v = lsize T \<and> script_holds (vs @ [(T, v)]) xs)"
| "script_holds vs (T_Op (Op_Write i v) # xs) =
     (i < length vs \<and> length v = lsize (fst (vs ! i)) \<and> script_holds (vs[i := (fst (vs ! i), v)]) xs)"
| "script_holds vs (T_Op (Op_Drop i) # xs) =
     (i < length vs \<and> script_holds (take i vs @ drop (Suc i) vs) xs)"
| "script_holds vs (T_Op Op_Reset # xs) = (vs = [] \<and> script_holds vs xs)"
| "script_holds vs (T_Update i f # xs) =
     (i < length vs \<and> length (f (snd (vs ! i))) = lsize (fst (vs ! i)) \<and>
      script_holds (vs[i := (fst (vs ! i), f (snd (vs ! i)))]) xs)"
| "script_holds vs (T_Assert i v # xs) =
     (i < length vs \<and> snd (vs ! i) = v \<and> script_holds vs xs)"

fun script_fits :: "nat \<Rightarrow> nat \<Rightarrow> nat \<Rightarrow> test_op list \<Rightarrow> bool" where
  "script_fits base N off [] = True"
| "script_fits base N off (T_Op (Op_Alloc T v) # xs) =
     (need T (base + off) \<le> N - off \<and> script_fits base N (off + need T (base + off)) xs)"
| "script_fits base N off (T_Op Op_Reset # xs) = script_fits base N 0 xs"
| "script_fits base N off (T_Op (Op_Write i v) # xs) = script_fits base N off xs"
| "script_fits base N off (T_Op (Op_Drop i) # xs) = script_fits base N off xs"
| "script_fits base N off (T_Update i f # xs) = script_fits base N off xs"
| "script_fits base N off (T_Assert i v # xs) = script_fits base N off xs"

definition typed_objects :: "heap \<Rightarrow> (layout \<times> byte list) list" where
  "typed_objects h = zip (map bx_layout (h_boxes h)) (heap_objects h)"

lemma length_heap_objects [simp]: "length (heap_objects h) = length (h_boxes h)"
  by (simp add: heap_objects_def)

lemma length_typed_objects [simp]: "length (typed_objects h) = length (h_boxes h)"
  by (simp add: typed_objects_def)

lemma typed_objects_nth:
  "i < length (h_boxes h) \<Longrightarrow>
   typed_objects h ! i = (bx_layout (h_boxes h ! i), heap_objects h ! i)"
  by (simp add: typed_objects_def)

lemma deref_objects:
  assumes "heap_inv h" and "i < length (h_boxes h)"
  shows "box_deref (h_bump h) (h_boxes h ! i) = map Some (heap_objects h ! i)"
proof -
  from assms have "box_valid (h_bump h) (h_boxes h ! i)" by (simp add: heap_inv_def)
  then obtain v where "box_deref (h_bump h) (h_boxes h ! i) = map Some v"
    by (auto simp: box_valid_def)
  with assms(2) show ?thesis by (simp add: heap_objects_def o_def)
qed

text \<open>One statement: its effect on the typed objects and on the offset.\<close>

lemma typed_alloc:
  assumes "heap_inv h" and "wf_layout T" and "length v = lsize T"
    and "need T (b_base (h_bump h) + b_offset (h_bump h)) \<le> b_size (h_bump h) - b_offset (h_bump h)"
  obtains h' where "heap_step h (Op_Alloc T v) = Inr h'" and "heap_inv h'"
    and "typed_objects h' = typed_objects h @ [(T, v)]"
    and "b_base (h_bump h') = b_base (h_bump h)" and "b_size (h_bump h') = b_size (h_bump h)"
    and "b_offset (h_bump h') =
      b_offset (h_bump h) + need T (b_base (h_bump h) + b_offset (h_bump h))"
proof -
  let ?b = "h_bump h"
  from assms(1) have ok: "bump_ok ?b" by (simp add: heap_inv_def)
  let ?p = "reserve_ptr T (b_base ?b + b_offset ?b)"
  let ?b1 = "?b\<lparr>b_offset := b_offset ?b + need T (b_base ?b + b_offset ?b)\<rparr>"
  let ?h = "\<lparr>h_bump = write_slot ?p v ?b1, h_boxes = h_boxes h @ [\<lparr>bx_ptr = ?p, bx_layout = T\<rparr>]\<rparr>"
  have st: "heap_step h (Op_Alloc T v) = Inr ?h"
    using assms(4) by (simp add: alloc_def alloc_with_def reserve_closed [OF ok])
  have s: "heap_inv ?h \<and> heap_objects ?h = heap_objects h @ [v]"
    using heap_step_sound [OF assms(1) _ st] assms(2,3) by simp
  then have "typed_objects ?h = typed_objects h @ [(T, v)]"
    by (simp add: typed_objects_def)
  with st s show thesis by (intro that [of ?h]) auto
qed

lemma typed_write:
  assumes "heap_inv h" and "i < length (h_boxes h)" and "length v = lsize (bx_layout (h_boxes h ! i))"
  obtains h' where "heap_step h (Op_Write i v) = Inr h'" and "heap_inv h'"
    and "typed_objects h' = (typed_objects h)[i := (fst (typed_objects h ! i), v)]"
    and "b_base (h_bump h') = b_base (h_bump h)" and "b_size (h_bump h') = b_size (h_bump h)"
    and "b_offset (h_bump h') = b_offset (h_bump h)"
proof -
  let ?h = "h\<lparr>h_bump := box_deref_mut (h_boxes h ! i) v (h_bump h)\<rparr>"
  have st: "heap_step h (Op_Write i v) = Inr ?h" by simp
  have s: "heap_inv ?h \<and> heap_objects ?h = (heap_objects h)[i := v]"
    using heap_step_sound [OF assms(1) _ st] assms(2,3) by simp
  have "typed_objects ?h = (typed_objects h)[i := (fst (typed_objects h ! i), v)]"
    using s assms(2) by (intro nth_equalityI) (auto simp: typed_objects_def nth_list_update)
  with st s show thesis by (intro that [of ?h]) (auto simp: box_deref_mut_def)
qed

lemma typed_drop:
  assumes "heap_inv h"
  obtains h' where "heap_step h (Op_Drop i) = Inr h'" and "heap_inv h'"
    and "typed_objects h' = take i (typed_objects h) @ drop (Suc i) (typed_objects h)"
    and "h_bump h' = h_bump h"
proof -
  let ?h = "h\<lparr>h_boxes := take i (h_boxes h) @ drop (Suc i) (h_boxes h)\<rparr>"
  have st: "heap_step h (Op_Drop i) = Inr ?h" by simp
  from heap_step_drop [OF assms st] have s: "heap_inv ?h"
    "heap_objects ?h = take i (heap_objects h) @ drop (Suc i) (heap_objects h)" .
  have "typed_objects ?h = take i (typed_objects h) @ drop (Suc i) (typed_objects h)"
    using s(2) by (simp add: typed_objects_def zip_append take_zip drop_zip take_map drop_map)
  with st s(1) show thesis by (intro that [of ?h]) auto
qed

text \<open>
  A statement of a script that holds so far either runs, leaving a script that holds and
  whose allocations fit as before, or is an allocation that does not fit.
\<close>

definition heap_fits :: "heap \<Rightarrow> test_op list \<Rightarrow> bool" where
  "heap_fits h xs =
     script_fits (b_base (h_bump h)) (b_size (h_bump h)) (b_offset (h_bump h)) xs"

definition runs_on :: "heap \<Rightarrow> test_op \<Rightarrow> test_op list \<Rightarrow> bool" where
  "runs_on h x xs \<longleftrightarrow>
     (\<exists>h'. test_step h x = Inr h' \<and> heap_inv h' \<and> script_holds (typed_objects h') xs \<and>
        (heap_fits h' xs \<longleftrightarrow> heap_fits h (x # xs))) \<or>
     test_step h x = Inl Out_Of_Bump_Memory \<and> \<not> heap_fits h (x # xs)"

lemma runs_on_alloc:
  assumes "heap_inv h" and holds: "script_holds (typed_objects h) (T_Op (Op_Alloc T v) # xs)"
  shows "runs_on h (T_Op (Op_Alloc T v)) xs"
proof (cases "need T (b_base (h_bump h) + b_offset (h_bump h)) \<le>
    b_size (h_bump h) - b_offset (h_bump h)")
  case True
  from holds have wf: "wf_layout T" "length v = lsize T" by simp_all
  obtain h' where "heap_step h (Op_Alloc T v) = Inr h'" and "heap_inv h'"
    and "typed_objects h' = typed_objects h @ [(T, v)]"
    and "b_base (h_bump h') = b_base (h_bump h)" and "b_size (h_bump h') = b_size (h_bump h)"
    and "b_offset (h_bump h') =
      b_offset (h_bump h) + need T (b_base (h_bump h) + b_offset (h_bump h))"
    by (rule typed_alloc [OF assms(1) wf True])
  with holds True show ?thesis unfolding runs_on_def by (simp add: heap_fits_def)
next
  case False
  from assms(1) have "bump_ok (h_bump h)" by (simp add: heap_inv_def)
  with False show ?thesis
    by (simp add: runs_on_def heap_fits_def alloc_def alloc_with_def reserve_closed)
qed

lemma runs_on_write:
  assumes "heap_inv h" and "i < length (h_boxes h)"
    and "length v = lsize (fst (typed_objects h ! i))"
    and "script_holds ((typed_objects h)[i := (fst (typed_objects h ! i), v)]) xs"
    and "test_step h x = heap_step h (Op_Write i v)"
    and "heap_fits h (x # xs) = heap_fits h xs"
  shows "runs_on h x xs"
proof -
  from assms(2,3) have l: "length v = lsize (bx_layout (h_boxes h ! i))"
    by (simp add: typed_objects_nth)
  obtain h' where "heap_step h (Op_Write i v) = Inr h'" and "heap_inv h'"
    and "typed_objects h' = (typed_objects h)[i := (fst (typed_objects h ! i), v)]"
    and "b_base (h_bump h') = b_base (h_bump h)" and "b_size (h_bump h') = b_size (h_bump h)"
    and "b_offset (h_bump h') = b_offset (h_bump h)"
    by (rule typed_write [OF assms(1,2) l])
  with assms(4-) show ?thesis unfolding runs_on_def by (simp add: heap_fits_def)
qed

lemma runs_on_drop:
  assumes "heap_inv h" and "script_holds (typed_objects h) (T_Op (Op_Drop i) # xs)"
  shows "runs_on h (T_Op (Op_Drop i)) xs"
proof -
  obtain h' where "heap_step h (Op_Drop i) = Inr h'" and "heap_inv h'"
    and "typed_objects h' = take i (typed_objects h) @ drop (Suc i) (typed_objects h)"
    and "h_bump h' = h_bump h" by (rule typed_drop [OF assms(1)])
  with assms(2) show ?thesis unfolding runs_on_def by (simp add: heap_fits_def)
qed

lemma runs_on_reset:
  assumes "heap_inv h" and "script_holds (typed_objects h) (T_Op Op_Reset # xs)"
  shows "runs_on h (T_Op Op_Reset) xs"
proof -
  let ?h = "h\<lparr>h_bump := bump_reset (h_bump h)\<rparr>"
  from assms(2) have e: "h_boxes h = []" using length_typed_objects [of h] by simp
  from heap_step_reset [of h ?h] assms(1) e have "heap_inv ?h" by simp
  moreover have "typed_objects ?h = []" and "typed_objects h = []"
    using e by (simp_all add: typed_objects_def)
  ultimately show ?thesis
    using assms(2) by (simp add: runs_on_def heap_fits_def bump_reset_def)
qed

lemma script_runs_on:
  assumes "heap_inv h" and "script_holds (typed_objects h) (x # xs)"
  shows "runs_on h x xs"
proof (cases x)
  case (T_Op y)
  show ?thesis
  proof (cases y)
    case (Op_Write i v)
    with T_Op assms show ?thesis
      by (intro runs_on_write [of h i v]) (simp_all add: heap_fits_def)
  qed (use T_Op assms runs_on_alloc runs_on_drop runs_on_reset in auto)
next
  case (T_Update i g)
  with assms(2) have l: "i < length (h_boxes h)" by simp
  with T_Update assms show ?thesis
    by (intro runs_on_write [of h i "g (heap_objects h ! i)"])
      (simp_all add: heap_fits_def typed_objects_nth deref_objects o_def)
next
  case (T_Assert i v)
  with assms(2) have l: "i < length (h_boxes h)" by simp
  with T_Assert assms show ?thesis
    by (auto simp: runs_on_def heap_fits_def typed_objects_nth deref_objects check_that_def)
qed

lemma script_passes_iff:
  assumes "heap_inv h" and "script_holds (typed_objects h) xs"
  shows "(\<exists>h'. run_ops test_step h xs = Inr h') \<and> heap_fits h xs \<or>
         run_ops test_step h xs = Inl Out_Of_Bump_Memory \<and> \<not> heap_fits h xs"
  using assms
proof (induction xs arbitrary: h)
  case Nil
  then show ?case by (simp add: heap_fits_def)
next
  case (Cons x xs)
  from script_runs_on [OF Cons.prems] consider
      (ok) h' where "test_step h x = Inr h'" "heap_inv h'" "script_holds (typed_objects h') xs"
        "heap_fits h' xs \<longleftrightarrow> heap_fits h (x # xs)"
    | (oom) "test_step h x = Inl Out_Of_Bump_Memory" "\<not> heap_fits h (x # xs)"
    unfolding runs_on_def by blast
  then show ?case
  proof cases
    case ok
    with Cons.IH [OF ok(2,3)] show ?thesis by simp
  next
    case oom
    then show ?thesis by simp
  qed
qed

lemma run_test_passes:
  assumes "base + BUMP_SIZE \<le> usize_max" and "script_holds [] xs"
  shows "(\<exists>h. run_test base xs = Inr h) \<longleftrightarrow> script_fits base BUMP_SIZE 0 xs"
proof -
  have "heap_inv (bump_test base)"
    using assms(1) by (simp add: heap_inv_def bump_test_def bump_new_ok slots_apart_def)
  moreover have "typed_objects (bump_test base) = []"
    by (simp add: typed_objects_def bump_test_def)
  ultimately show ?thesis
    using script_passes_iff [of "bump_test base" xs] assms(2)
    by (auto simp: run_test_def heap_fits_def bump_test_def bump_new_def)
qed

section \<open>The tests of the repository\<close>

lemma wf_prim [simp]: "wf_layout (prim n) \<longleftrightarrow> 0 < n"
  by (simp add: wf_layout_def prim_def)

lemma wf_array [simp]: "wf_layout (array_of n k) \<longleftrightarrow> 0 < n"
  by (simp add: wf_layout_def array_of_def)

lemma layout_sel [simp]:
  "lsize (prim n) = n" "lalign (prim n) = n" "lsize (array_of n k) = n * k"
  "lalign (array_of n k) = n"
  by (simp_all add: prim_def array_of_def)

lemma length_le_bytes [simp]: "length (le_bytes n x) = n"
  by (induction n arbitrary: x) simp_all

lemma le_bytes_numeral [simp]:
  "le_bytes (numeral k) x = of_nat (x mod 256) # le_bytes (pred_numeral k) (x div 256)"
  unfolding numeral_eq_Suc [of k] by simp

lemma replicate_pred_numeral: "replicate (numeral k) x = x # replicate (pred_numeral k) x"
  by (simp add: numeral_eq_Suc)

lemma need_le: "0 < lalign T \<Longrightarrow> need T a \<le> lsize T + lalign T - 1"
  using align_pad_less [of T a] by (cases "lsize T = 0") (simp_all add: need_def)

lemma total_need_prim:
  assumes "0 < k" and "0 < n"
  shows "total_need (replicate n (prim k)) a = align_pad (prim k) a + n * k"
proof -
  from assms obtain m where n: "n = Suc m" by (cases n) auto
  have "total_need (replicate m (prim k)) (a + need (prim k) a) = m * lsize (prim k)"
    using assms align_pad_dvd [of "prim k" a]
    by (intro total_need_replicate) (simp_all add: need_def add.assoc [symmetric])
  with assms show ?thesis by (simp add: n need_def)
qed

lemma fits_sum: "n \<le> N - off \<and> m \<le> N - (off + n) \<longleftrightarrow> n + m \<le> N - (off :: nat)"
  by linarith

lemma fits_allocs:
  "script_fits base N off (map (\<lambda>v. T_Op (Op_Alloc T v)) vs @ xs) \<longleftrightarrow>
   total_need (replicate (length vs) T) (base + off) \<le> N - off \<and>
   script_fits base N (off + total_need (replicate (length vs) T) (base + off)) xs"
proof (induction vs arbitrary: off)
  case Nil
  then show ?case by simp
next
  case (Cons v vs)
  let ?n = "need T (base + off)"
  have "base + (off + ?n) = base + off + ?n" by simp
  with Cons.IH [of "off + ?n"] show ?case
    by (simp add: fits_sum [symmetric] add.assoc [of off])
qed

lemma fits_borrow_loop:
  "script_fits base N off
     (concat (replicate n [T_Op (Op_Alloc T v), T_Assert i w, T_Op (Op_Drop j)])) \<longleftrightarrow>
   total_need (replicate n T) (base + off) \<le> N - off"
proof (induction n arbitrary: off)
  case 0
  then show ?case by simp
next
  case (Suc n)
  let ?n = "need T (base + off)"
  have "base + (off + ?n) = base + off + ?n" by simp
  with Suc.IH [of "off + ?n"] show ?case by (simp add: fits_sum [symmetric])
qed

lemma fits_reads: "script_fits base N off (concat (map (\<lambda>v. [T_Assert 0 v, T_Op (Op_Drop 0)]) vs))"
  by (induction vs) simp_all

lemma holds_allocs:
  "script_holds us (map (\<lambda>v. T_Op (Op_Alloc T v)) vs @ xs) \<longleftrightarrow>
   (\<forall>v \<in> set vs. wf_layout T \<and> length v = lsize T) \<and> script_holds (us @ map (Pair T) vs) xs"
  by (induction vs arbitrary: us) auto

lemma holds_reads:
  "script_holds (map (Pair T) vs) (concat (map (\<lambda>v. [T_Assert 0 v, T_Op (Op_Drop 0)]) vs))"
  by (induction vs) simp_all

lemma holds_borrow_loop:
  "wf_layout T \<Longrightarrow> length v = lsize T \<Longrightarrow>
   script_holds [] (concat (replicate n [T_Op (Op_Alloc T v), T_Assert 0 v, T_Op (Op_Drop 0)]))"
  by (induction n) simp_all

lemma test_multiple_unfold:
  "test_multiple_concurrent_borrow =
     map (\<lambda>v. T_Op (Op_Alloc (prim 8) v)) (map (le_bytes 8) [0..<128]) @
     concat (map (\<lambda>v. [T_Assert 0 v, T_Op (Op_Drop 0)]) (map (le_bytes 8) [0..<128]))"
  by (simp add: test_multiple_concurrent_borrow_def BUMP_SIZE_def o_def)

lemma pad_zero_iff: "0 < lalign T \<Longrightarrow> align_pad T a = 0 \<longleftrightarrow> lalign T dvd a"
  using align_pad_dvd [of T a] align_pad_aligned [of T a] by auto

lemma test_one_fits:
  "script_holds [] test_one_concurrent_borrow"
  "script_fits base BUMP_SIZE 0 test_one_concurrent_borrow \<longleftrightarrow> 4 dvd base"
  unfolding test_one_concurrent_borrow_def
  using pad_zero_iff [of "prim 4" base]
  by (simp_all add: holds_borrow_loop fits_borrow_loop BUMP_SIZE_def total_need_prim)

lemma test_multiple_fits:
  "script_holds [] test_multiple_concurrent_borrow"
  "script_fits base BUMP_SIZE 0 test_multiple_concurrent_borrow \<longleftrightarrow> 8 dvd base"
  unfolding test_multiple_unfold fits_allocs holds_allocs
  using pad_zero_iff [of "prim 8" base] holds_reads [of "prim 8" "map (le_bytes 8) [0..<128]"]
    fits_reads [of _ _ _ "map (le_bytes 8) [0..<128]"]
  by (simp_all add: BUMP_SIZE_def total_need_prim del: map_map)

text \<open>A script fits from any address when every alignment is given its largest padding.\<close>

definition room_for :: "layout \<Rightarrow> nat" where
  "room_for T = lsize T + lalign T - 1"

fun script_room :: "nat \<Rightarrow> nat \<Rightarrow> test_op list \<Rightarrow> bool" where
  "script_room N off [] = True"
| "script_room N off (T_Op (Op_Alloc T v) # xs) =
     (0 < lalign T \<and> off + room_for T \<le> N \<and> script_room N (off + room_for T) xs)"
| "script_room N off (T_Op Op_Reset # xs) = script_room N 0 xs"
| "script_room N off (x # xs) = script_room N off xs"

lemma script_room_fits: "script_room N off xs \<Longrightarrow> off' \<le> off \<Longrightarrow> script_fits base N off' xs"
proof (induction N off xs arbitrary: off' rule: script_room.induct)
  case (2 N off T v xs)
  let ?n = "need T (base + off')" and ?m = "room_for T"
  from "2.prems" have le: "?n \<le> ?m" and m: "off + ?m \<le> N" "script_room N (off + ?m) xs"
    and off: "off' \<le> off"
    using need_le [of T "base + off'", folded room_for_def] by simp_all
  from le m(1) off have "?n \<le> N - off'" and "off' + ?n \<le> off + ?m" by linarith+
  with "2.IH" [of "off' + ?n"] "2.prems" m(2) show ?case by simp
qed simp_all

lemma test_interleaved_fits:
  "script_holds [] test_interleaved_mutation"
  "script_fits base BUMP_SIZE 0 test_interleaved_mutation"
proof -
  show "script_holds [] test_interleaved_mutation"
    by (simp add: test_interleaved_mutation_def set_elem_def replicate_pred_numeral)
  have "script_room BUMP_SIZE 0 test_interleaved_mutation"
    by (simp add: test_interleaved_mutation_def BUMP_SIZE_def room_for_def)
  then show "script_fits base BUMP_SIZE 0 test_interleaved_mutation"
    by (rule script_room_fits) simp
qed

lemma test_reset_fits:
  "script_holds [] test_reset_and_reuse"
  "script_fits base BUMP_SIZE 0 test_reset_and_reuse"
proof -
  show "script_holds [] test_reset_and_reuse"
    by (simp add: test_reset_and_reuse_def set_elem_def replicate_pred_numeral)
  have "script_room BUMP_SIZE 0 test_reset_and_reuse"
    by (simp add: test_reset_and_reuse_def BUMP_SIZE_def room_for_def)
  then show "script_fits base BUMP_SIZE 0 test_reset_and_reuse"
    by (rule script_room_fits) simp
qed

lemma test_pinned_passes:
  assumes "base + BUMP_SIZE \<le> usize_max" and "need T base \<le> BUMP_SIZE"
  shows "test_pinned_future T fut base = Inr ()"
proof -
  have "reserve T (bump_new base BUMP_SIZE) =
      Inr (reserve_ptr T base, (bump_new base BUMP_SIZE)\<lparr>b_offset := need T base\<rparr>)"
    using assms(2) reserve_closed [OF bump_new_ok [OF assms(1)], of T] by (simp add: bump_new_def)
  moreover have "sum_list (map unat (replicate 64 (7 :: byte))) = 448"
    by (simp add: sum_list_replicate)
  ultimately show ?thesis
    by (simp add: test_pinned_future_def pin_alloc_def into_pin_def alloc_def alloc_with_def
        poll_until_ready.simps test_future_def check_that_def Let_def)
qed

text \<open>
  The unit tests of the allocator, on the model: at whatever address the arena lies,
  the tests of interleaved mutation, of the reset and of the pinned future (whose object
  fits) pass; the two that fill the arena to the last byte pass exactly when the arena is
  aligned for the type they fill it with.
\<close>

theorem unit_tests_pass:
  assumes "base + BUMP_SIZE \<le> usize_max" and "need T base \<le> BUMP_SIZE"
  shows "((\<exists>h. run_test base test_one_concurrent_borrow = Inr h) \<longleftrightarrow> 4 dvd base) \<and>
    ((\<exists>h. run_test base test_multiple_concurrent_borrow = Inr h) \<longleftrightarrow> 8 dvd base) \<and>
    (\<exists>h. run_test base test_interleaved_mutation = Inr h) \<and>
    (\<exists>h. run_test base test_reset_and_reuse = Inr h) \<and>
    test_pinned_future T fut base = Inr ()"
  using run_test_passes [OF assms(1)] test_one_fits test_multiple_fits
    test_interleaved_fits test_reset_fits test_pinned_passes [OF assms]
  by simp

theorem unit_tests_pass_witness:
  "(\<exists>h. run_test 65540 test_one_concurrent_borrow = Inr h) \<and>
   \<not> (\<exists>h. run_test 65540 test_multiple_concurrent_borrow = Inr h) \<and>
   test_pinned_future \<lparr>lsize = 72, lalign = 8\<rparr> (replicate 72 0) 65540 = Inr ()"
proof -
  have "65540 + BUMP_SIZE \<le> usize_max" and "need \<lparr>lsize = 72, lalign = 8\<rparr> 65540 \<le> BUMP_SIZE"
    by (simp_all add: BUMP_SIZE_def usize_max_def need_def align_pad_def)
  from unit_tests_pass [OF this, of "replicate 72 0"] show ?thesis by simp
qed

end
