(* ===== verification/Netif_Task.thy ===== *)
theory Netif_Task
  imports Netif_Spec
begin

text \<open>
  \<open>run_oper_netif_mdns\<close> of \<^verbatim>\<open>src/src/lib.rs\<close> poll by poll: the \<open>select\<close> of the task that waits
  for a change of the interface with the mDNS task, which runs the responder, and runs it again
  five seconds after it has failed. The supervision loop over snapshots of the theory before is
  shown to be its abstraction.
\<close>

section \<open>The task\<close>

text \<open>
  An evaluation of the \<open>select\<close>: whether the driver's \<open>wait_changed()\<close> is ready, what an
  enumeration of the interfaces made now returns, what the responder's future returns, and
  whether the timer of the retry has elapsed.
\<close>

record netif_obs =
  no_changed :: bool
  no_netifs :: snapshot
  no_mdns :: "unit res option"
  no_timer :: bool

datatype changed_pc = Ch_Load | Ch_Wait

datatype mdns_pc = Md_Start | Md_Running | Md_Retry | Md_Down

text \<open>
  The last three fields record the enumerations made, the states the iterations of the loop ran
  with, and the runs of the responder with the state of their iteration.
\<close>

record netif_run =
  nr_started :: bool
  nr_cur :: netif_state
  nr_new :: netif_state
  nr_changed :: changed_pc
  nr_mdns :: mdns_pc
  nr_snaps :: "snapshot list"
  nr_iters :: "netif_state list"
  nr_runs :: "(netif_state \<times> mdns_activity) list"

definition netif_run_new :: netif_run where
  "netif_run_new =
     \<lparr>nr_started = False, nr_cur = netif_state_new, nr_new = netif_state_new, nr_changed = Ch_Load,
      nr_mdns = Md_Start, nr_snaps = [], nr_iters = [], nr_runs = []\<rparr>"

text \<open>The beginning of an iteration\<close>

definition netif_iterate :: "netif_run \<Rightarrow> netif_run" where
  "netif_iterate s =
     s\<lparr>nr_cur := nr_new s, nr_changed := Ch_Load, nr_mdns := Md_Start,
       nr_iters := nr_iters s @ [nr_new s]\<rparr>"

text \<open>\<open>wait_changed\<close>: load and compare; when nothing has changed, wait for the driver's notice.\<close>

definition poll_load :: "netif_obs \<Rightarrow> netif_run \<Rightarrow> unit res option \<times> netif_run" where
  "poll_load ob s =
     (let (r, st) = load_netif_state (no_netifs ob) (nr_new s);
          s = s\<lparr>nr_new := st, nr_snaps := nr_snaps s @ [no_netifs ob]\<rparr>
      in case r of
           Inl e \<Rightarrow> (Some (Inl e), s)
         | Inr _ \<Rightarrow>
             if st \<noteq> nr_cur s then (Some (Inr ()), s) else (None, s\<lparr>nr_changed := Ch_Wait\<rparr>))"

definition poll_changed :: "netif_obs \<Rightarrow> netif_run \<Rightarrow> unit res option \<times> netif_run" where
  "poll_changed ob s =
     (case nr_changed s of
        Ch_Load \<Rightarrow> poll_load ob s
      | Ch_Wait \<Rightarrow> if no_changed ob then poll_load ob s else (None, s))"

text \<open>The mDNS task; it never completes.\<close>

definition poll_responder :: "bool \<Rightarrow> netif_obs \<Rightarrow> netif_run \<Rightarrow> panic + netif_run" where
  "poll_responder has_udp_bind ob s =
     and_then (mdns_task has_udp_bind (nr_cur s)) (\<lambda>a.
     Inr (s\<lparr>nr_runs := nr_runs s @ [(nr_cur s, a)],
            nr_mdns := (case no_mdns ob of None \<Rightarrow> Md_Running | Some _ \<Rightarrow> Md_Retry)\<rparr>))"

definition poll_mdns :: "bool \<Rightarrow> netif_obs \<Rightarrow> netif_run \<Rightarrow> panic + netif_run" where
  "poll_mdns has_udp_bind ob s =
     (case nr_mdns s of
        Md_Start \<Rightarrow>
          if ns_operational (nr_cur s) then poll_responder has_udp_bind ob s
          else Inr (s\<lparr>nr_mdns := Md_Down\<rparr>)
      | Md_Running \<Rightarrow>
          (case no_mdns ob of None \<Rightarrow> Inr s | Some _ \<Rightarrow> Inr (s\<lparr>nr_mdns := Md_Retry\<rparr>))
      | Md_Retry \<Rightarrow> if no_timer ob then poll_responder has_udp_bind ob s else Inr s
      | Md_Down \<Rightarrow> Inr s)"

text \<open>
  The task itself. The first evaluation loads the first state. In the others the waiting task is
  polled first; when it is ready the mDNS task is dropped with the iteration.
\<close>

definition netif_task :: "bool \<Rightarrow> (netif_run, netif_obs, panic + error) task" where
  "netif_task has_udp_bind s ob =
     (if \<not> nr_started s
      then let (r, st) = load_netif_state (no_netifs ob) (nr_new s);
               s = s\<lparr>nr_new := st, nr_snaps := nr_snaps s @ [no_netifs ob]\<rparr>
           in case r of
                Inl e \<Rightarrow> Inl (Inr e)
              | Inr _ \<Rightarrow> Inr (netif_iterate (s\<lparr>nr_started := True\<rparr>))
      else case poll_changed ob s of
             (Some (Inl e), s) \<Rightarrow> Inl (Inr e)
           | (Some (Inr _), s) \<Rightarrow> Inr (netif_iterate s)
           | (None, s) \<Rightarrow>
               (case poll_mdns has_udp_bind ob s of
                  Inl p \<Rightarrow> Inl (Inl p)
                | Inr s \<Rightarrow> Inr s))"

section \<open>The supervision loop as its abstraction\<close>

lemma loaded_states_snoc:
  "loaded_states st (snaps @ [snap]) =
   loaded_states st snaps @ [snd (load_netif_state snap (last (st # loaded_states st snaps)))]"
  by (induction snaps arbitrary: st) (auto simp: Let_def)

lemma remdups_adj_snoc:
  "remdups_adj (xs @ [x]) =
   (if xs \<noteq> [] \<and> last xs = x then remdups_adj xs else remdups_adj xs @ [x])"
  by (induction xs rule: remdups_adj.induct) auto

text \<open>Nothing has been overlooked: the state loaded last is the one the iteration runs with.\<close>

definition netif_inv :: "bool \<Rightarrow> netif_run \<Rightarrow> bool" where
  "netif_inv has_udp_bind s \<longleftrightarrow>
     (\<forall>snap \<in> set (nr_snaps s). snd snap = Inr ()) \<and>
     nr_iters s = remdups_adj (loaded_states netif_state_new (nr_snaps s)) \<and>
     nr_new s = last (netif_state_new # loaded_states netif_state_new (nr_snaps s)) \<and>
     (nr_started s \<longrightarrow> nr_cur s = nr_new s \<and> nr_snaps s \<noteq> []) \<and>
     (\<not> nr_started s \<longrightarrow> nr_snaps s = []) \<and>
     (nr_mdns s \<in> {Md_Running, Md_Retry} \<longrightarrow> ns_operational (nr_cur s)) \<and>
     (\<forall>(st, a) \<in> set (nr_runs s). st \<in> set (nr_iters s) \<and> ns_operational st \<and>
        mdns_task has_udp_bind st = Inr a)"

lemma netif_inv_new: "netif_inv b netif_run_new"
  by (simp add: netif_inv_def netif_run_new_def)

lemma loaded_states_Nil_iff [simp]: "loaded_states st snaps = [] \<longleftrightarrow> snaps = []"
  by (cases snaps) (simp_all add: Let_def)

text \<open>What an enumeration does to the record of an iteration.\<close>

lemma load_inv:
  assumes "netif_inv b s" and "load_netif_state snap (nr_new s) = (Inr u, st)"
  shows "let s' = s\<lparr>nr_new := st, nr_snaps := nr_snaps s @ [snap]\<rparr>;
             xs = loaded_states netif_state_new (nr_snaps s')
         in (\<forall>snap \<in> set (nr_snaps s'). snd snap = Inr ()) \<and> last xs = st \<and>
            remdups_adj xs = (if nr_started s \<and> st = nr_cur s then nr_iters s else nr_iters s @ [st])"
proof -
  have st: "st = snd (load_netif_state snap (nr_new s))" and ok: "snd snap = Inr ()"
    using assms(2) fst_load_netif_state [of snap "nr_new s"] by (simp_all del: fst_load_netif_state)
  let ?L = "loaded_states netif_state_new (nr_snaps s)"
  from assms(1) have new: "nr_new s = last (netif_state_new # ?L)"
    and iters: "nr_iters s = remdups_adj ?L" and oks: "\<forall>snap \<in> set (nr_snaps s). snd snap = Inr ()"
    and cur: "nr_started s \<Longrightarrow> nr_cur s = nr_new s \<and> nr_snaps s \<noteq> []"
    and init: "\<not> nr_started s \<Longrightarrow> nr_snaps s = []"
    unfolding netif_inv_def by blast+
  have L: "loaded_states netif_state_new (nr_snaps s @ [snap]) = ?L @ [st]"
    unfolding loaded_states_snoc new [symmetric] st ..
  have "remdups_adj (?L @ [st]) =
      (if nr_started s \<and> st = nr_cur s then nr_iters s else nr_iters s @ [st])"
  proof (cases "nr_started s")
    case True
    with cur have "?L \<noteq> []" and "last ?L = nr_cur s" using new by auto
    with True show ?thesis by (auto simp: remdups_adj_snoc iters)
  next
    case False
    with init show ?thesis by (simp add: iters)
  qed
  with oks ok show ?thesis by (simp add: L)
qed

lemma netif_iterate_inv:
  assumes "netif_inv b s" and "load_netif_state snap (nr_new s) = (Inr u, st)"
    and "nr_started s \<longrightarrow> st \<noteq> nr_cur s"
  shows "netif_inv b (netif_iterate (s\<lparr>nr_new := st, nr_snaps := nr_snaps s @ [snap], nr_started := True\<rparr>))"
  using load_inv [OF assms(1,2)] assms
  by (auto simp: netif_inv_def netif_iterate_def Let_def split: if_splits)

lemma netif_same_inv:
  assumes "netif_inv b s" and "nr_started s" and "load_netif_state snap (nr_new s) = (Inr u, st)"
    and "st = nr_cur s"
  shows "netif_inv b (s\<lparr>nr_new := st, nr_snaps := nr_snaps s @ [snap], nr_changed := Ch_Wait\<rparr>)"
  using load_inv [OF assms(1,3)] assms by (auto simp: netif_inv_def Let_def)

lemma poll_mdns_inv:
  assumes "netif_inv b s" and "nr_started s" and "poll_mdns b ob s = Inr s'"
  shows "netif_inv b s'"
proof -
  have cur: "nr_cur s \<in> set (nr_iters s)"
  proof -
    have "nr_iters s \<noteq> []" and "last (nr_iters s) = nr_cur s"
      using assms(1,2) by (auto simp: netif_inv_def last_remdups_adj)
    then show ?thesis using last_in_set [of "nr_iters s"] by simp
  qed
  from assms(3) show ?thesis
    unfolding poll_mdns_def poll_responder_def
    using assms(1) cur
    by (cases "nr_mdns s")
      (auto simp: netif_inv_def and_then_Inr_iff split: if_splits option.splits)
qed

lemma netif_task_start:
  "\<not> nr_started s \<Longrightarrow> netif_task b s ob =
     (case load_netif_state (no_netifs ob) (nr_new s) of
        (Inl e, _) \<Rightarrow> Inl (Inr e)
      | (Inr _, st) \<Rightarrow> Inr (netif_iterate
          (s\<lparr>nr_new := st, nr_snaps := nr_snaps s @ [no_netifs ob], nr_started := True\<rparr>)))"
  by (simp add: netif_task_def Let_def split: prod.split sum.split)

text \<open>The outcomes of the waiting task in an iteration.\<close>

lemma poll_changed_cases:
  assumes "poll_changed ob s = (r, s')"
  obtains "r = None" and "s' = s" and "nr_changed s = Ch_Wait"
  | st e where "load_netif_state (no_netifs ob) (nr_new s) = (Inl e, st)" and "r = Some (Inl e)"
  | st u where "load_netif_state (no_netifs ob) (nr_new s) = (Inr u, st)" and "st \<noteq> nr_cur s"
      and "r = Some (Inr ())" and "s' = s\<lparr>nr_new := st, nr_snaps := nr_snaps s @ [no_netifs ob]\<rparr>"
  | st u where "load_netif_state (no_netifs ob) (nr_new s) = (Inr u, st)" and "st = nr_cur s"
      and "r = None"
      and "s' = s\<lparr>nr_new := st, nr_snaps := nr_snaps s @ [no_netifs ob], nr_changed := Ch_Wait\<rparr>"
proof -
  obtain q st where ld: "load_netif_state (no_netifs ob) (nr_new s) = (q, st)" by fastforce
  let ?s = "s\<lparr>nr_new := st, nr_snaps := nr_snaps s @ [no_netifs ob]\<rparr>"
  have load: "poll_load ob s =
      (case q of Inl e \<Rightarrow> (Some (Inl e), ?s)
       | Inr _ \<Rightarrow> if st \<noteq> nr_cur s then (Some (Inr ()), ?s) else (None, ?s\<lparr>nr_changed := Ch_Wait\<rparr>))"
    using ld by (simp add: poll_load_def Let_def)
  show thesis
  proof (cases "nr_changed s = Ch_Wait \<and> \<not> no_changed ob")
    case True
    with assms have "r = None" and "s' = s" and "nr_changed s = Ch_Wait"
      by (simp_all add: poll_changed_def)
    then show thesis by (rule that(1))
  next
    case False
    with assms have "poll_load ob s = (r, s')"
      by (auto simp: poll_changed_def split: changed_pc.splits)
    with load ld that(2-4) show thesis by (auto split: sum.splits if_splits)
  qed
qed

lemma netif_task_inv:
  assumes inv: "netif_inv b s" and run: "netif_task b s ob = Inr s'"
  shows "netif_inv b s'"
proof (cases "nr_started s")
  case False
  with run obtain u st where ld: "load_netif_state (no_netifs ob) (nr_new s) = (Inr u, st)"
    and s': "s' = netif_iterate (s\<lparr>nr_new := st, nr_snaps := nr_snaps s @ [no_netifs ob], nr_started := True\<rparr>)"
    by (auto simp: netif_task_start split: prod.splits sum.splits)
  from netif_iterate_inv [OF inv ld] False show ?thesis by (simp add: s')
next
  case True
  obtain r t where ch: "poll_changed ob s = (r, t)" by fastforce
  then show ?thesis
  proof (cases rule: poll_changed_cases)
    case 1
    with run True ch have "poll_mdns b ob s = Inr s'"
      by (auto simp: netif_task_def split: sum.splits)
    with inv True show ?thesis by (rule poll_mdns_inv)
  next
    case (2 st e)
    with run True ch show ?thesis by (simp add: netif_task_def)
  next
    case (3 st u)
    with run True ch have "s' = netif_iterate t" by (simp add: netif_task_def)
    moreover have "t = s\<lparr>nr_new := st, nr_snaps := nr_snaps s @ [no_netifs ob], nr_started := True\<rparr>"
      using 3 True by simp
    ultimately show ?thesis using netif_iterate_inv [OF inv 3(1)] 3(2) by simp
  next
    case (4 st u)
    with run True ch have "poll_mdns b ob t = Inr s'"
      by (auto simp: netif_task_def split: sum.splits)
    moreover have "netif_inv b t" using netif_same_inv [OF inv True 4(1,2)] 4(4) by simp
    moreover have "nr_started t" using 4(4) True by simp
    ultimately show ?thesis using poll_mdns_inv by blast
  qed
qed

interpretation netif_machine: op_machine "netif_task b" "\<lambda>_ _. True" "netif_inv b" for b
  by unfold_locales (rule netif_task_inv)

lemma netif_reachable: "run_ops (netif_task b) netif_run_new obs = Inr s \<Longrightarrow> netif_inv b s"
  by (rule netif_machine.run_inv [OF netif_inv_new]) simp_all

text \<open>The end of the task.\<close>

lemma poll_mdns_panic: "poll_mdns b ob s = Inl p \<Longrightarrow> p = Unwrap_Failed \<and> \<not> b"
  by (auto simp: poll_mdns_def poll_responder_def mdns_task_def and_then_Inl_iff
      split: mdns_pc.splits if_splits option.splits)

lemma netif_task_end:
  assumes "netif_task b s ob = Inl x"
  shows "x = Inl Unwrap_Failed \<and> \<not> b \<or> (\<exists>e. x = Inr e \<and> snd (no_netifs ob) = Inl e)"
proof (cases "nr_started s")
  case False
  with assms show ?thesis
    using fst_load_netif_state [of "no_netifs ob" "nr_new s"]
    by (auto simp: netif_task_start simp del: fst_load_netif_state split: prod.splits sum.splits)
next
  case True
  obtain r t where ch: "poll_changed ob s = (r, t)" by fastforce
  then show ?thesis
  proof (cases rule: poll_changed_cases)
    case 1
    with assms True ch show ?thesis
      by (auto simp: netif_task_def dest: poll_mdns_panic split: sum.splits)
  next
    case (2 st e)
    with fst_load_netif_state [of "no_netifs ob" "nr_new s"] have "snd (no_netifs ob) = Inl e"
      by (simp del: fst_load_netif_state)
    with 2 assms True ch show ?thesis by (simp add: netif_task_def)
  next
    case (3 st u)
    with assms True ch show ?thesis by (simp add: netif_task_def)
  next
    case (4 st u)
    with assms True ch show ?thesis
      by (auto simp: netif_task_def dest: poll_mdns_panic split: sum.splits)
  qed
qed

lemma netif_end_abstract:
  assumes "netif_inv b s" and "netif_task b s ob = Inl (Inr e)"
  shows "run_oper_netif_mdns (nr_snaps s @ [no_netifs ob]) = (nr_iters s, Some e)"
proof -
  from netif_task_end [OF assms(2)] have "no_netifs ob = (fst (no_netifs ob), Inl e)"
    by (simp add: prod_eq_iff)
  moreover from assms(1) have "\<forall>snap \<in> set (nr_snaps s). snd snap = Inr ()"
    and "nr_iters s = remdups_adj (loaded_states netif_state_new (nr_snaps s))"
    by (simp_all add: netif_inv_def)
  ultimately show ?thesis
    using netif_supervision_general [of "nr_snaps s" "fst (no_netifs ob)" e "[]"] by metis
qed

section \<open>What the task promises\<close>

text \<open>
  C10. Polled in whatever way the driver's notices, the responder's failures and the timer fall,
  the task is the supervision loop over the enumerations it has made: its iterations ran with the
  states the loop computes from them, every run of the responder - the retries after a failure
  included - was given the addresses of the state of its iteration, which was up, and the task ends
  with an error of the driver only, or with a panic when there is an interface but no socket to be
  had.
\<close>

theorem netif_task_refines:
  assumes "run_ops (netif_task b) netif_run_new obs = Inr s"
  shows "run_oper_netif_mdns (nr_snaps s) = (nr_iters s, None) \<and>
    (\<forall>(st, a) \<in> set (nr_runs s). st \<in> set (nr_iters s) \<and> ns_operational st \<and>
       a = Mdns_Run (ns_mac st) (ns_ipv4 st) (ns_ipv6 st) (ns_netif_index st)) \<and>
    (\<forall>x. netif_task b s ob = Inl x \<longrightarrow>
       x = Inl Unwrap_Failed \<and> \<not> b \<or>
       (\<exists>e. x = Inr e \<and> run_oper_netif_mdns (nr_snaps s @ [no_netifs ob]) = (nr_iters s, Some e)))"
proof (intro conjI)
  note inv = netif_reachable [OF assms]
  then have "\<forall>snap \<in> set (nr_snaps s). snd snap = Inr ()"
    and "nr_iters s = remdups_adj (loaded_states netif_state_new (nr_snaps s))"
    by (simp_all add: netif_inv_def)
  with run_oper_netif_mdns_ok show "run_oper_netif_mdns (nr_snaps s) = (nr_iters s, None)" by simp
  have "\<forall>(st, a) \<in> set (nr_runs s). st \<in> set (nr_iters s) \<and> ns_operational st \<and> mdns_task b st = Inr a"
    using inv unfolding netif_inv_def by blast
  then show "\<forall>(st, a) \<in> set (nr_runs s). st \<in> set (nr_iters s) \<and> ns_operational st \<and>
       a = Mdns_Run (ns_mac st) (ns_ipv4 st) (ns_ipv6 st) (ns_netif_index st)"
    by (auto simp: mdns_task_def split: if_splits)
  show "\<forall>x. netif_task b s ob = Inl x \<longrightarrow>
       x = Inl Unwrap_Failed \<and> \<not> b \<or>
       (\<exists>e. x = Inr e \<and> run_oper_netif_mdns (nr_snaps s @ [no_netifs ob]) = (nr_iters s, Some e))"
    using netif_task_end netif_end_abstract [OF inv] by blast
qed

text \<open>An interface that comes up, a responder that fails, and its retry.\<close>

definition netif_tick :: "snapshot \<Rightarrow> netif_obs" where
  "netif_tick snap = \<lparr>no_changed = True, no_netifs = snap, no_mdns = None, no_timer = False\<rparr>"

definition retry_obs :: "netif_obs list" where
  "retry_obs =
     [netif_tick ([], Inr ()), netif_tick ([], Inr ()), netif_tick ([sample_netif], Inr ()),
      (netif_tick ([sample_netif], Inr ()))\<lparr>no_mdns := Some (Inl StdIoError)\<rparr>,
      (netif_tick ([], Inr ()))\<lparr>no_changed := False, no_timer := True\<rparr>]"

lemmas netif_task_eval =
  netif_task_def poll_changed_def poll_load_def poll_mdns_def poll_responder_def mdns_task_def
  netif_iterate_def netif_run_new_def netif_tick_def retry_obs_def netif_eval

lemma retry_eval:
  "map_sum id (\<lambda>s. (nr_iters s, nr_mdns s, map fst (nr_runs s), nr_snaps s))
     (run_ops (netif_task True) netif_run_new retry_obs) =
   Inr ([netif_state_new, sample_up], Md_Running, [sample_up, sample_up],
     [([], Inr ()), ([], Inr ()), ([sample_netif], Inr ()), ([sample_netif], Inr ())])"
  by code_simp

lemma retry_run:
  "\<exists>s. run_ops (netif_task True) netif_run_new retry_obs = Inr s \<and>
     nr_iters s = [netif_state_new, sample_up] \<and> nr_mdns s = Md_Running \<and>
     map fst (nr_runs s) = [sample_up, sample_up] \<and>
     nr_snaps s = [([], Inr ()), ([], Inr ()), ([sample_netif], Inr ()), ([sample_netif], Inr ())]"
  using retry_eval by (cases "run_ops (netif_task True) netif_run_new retry_obs") simp_all

theorem netif_task_refines_witness:
  "\<exists>s. run_ops (netif_task True) netif_run_new retry_obs = Inr s \<and> map fst (nr_runs s) = [sample_up, sample_up] \<and>
     run_oper_netif_mdns [([], Inr ()), ([], Inr ()), ([sample_netif], Inr ()), ([sample_netif], Inr ())] =
       ([netif_state_new, sample_up], None)"
proof -
  from retry_run obtain s where h: "run_ops (netif_task True) netif_run_new retry_obs = Inr s \<and>
     nr_iters s = [netif_state_new, sample_up] \<and> nr_mdns s = Md_Running \<and>
     map fst (nr_runs s) = [sample_up, sample_up] \<and>
     nr_snaps s = [([], Inr ()), ([], Inr ()), ([sample_netif], Inr ()), ([sample_netif], Inr ())]" ..
  then have r: "run_ops (netif_task True) netif_run_new retry_obs = Inr s" ..
  from h have i: "nr_iters s = [netif_state_new, sample_up]"
    and m: "map fst (nr_runs s) = [sample_up, sample_up]"
    and n: "nr_snaps s = [([], Inr ()), ([], Inr ()), ([sample_netif], Inr ()), ([sample_netif], Inr ())]"
    by (simp_all only: simp_thms)
  have "run_oper_netif_mdns (nr_snaps s) = (nr_iters s, None)"
    by (rule netif_task_refines [OF r, THEN conjunct1])
  note f = this [unfolded n i]
  show ?thesis by (intro exI conjI) (rule r, rule m, rule f)
qed

end
