(* ===== verification/Handover_Spec.thy ===== *)
theory Handover_Spec
  imports Wireless_Spec
begin

text \<open>
  The handover of non-concurrent commissioning terminates: once the credentials are there, the
  BLE phase, the deferred connect and the building of the handlers are left behind after as many
  evaluations that find the awaited future ready as there are await points in between, whatever
  the number of evaluations that find it pending.
\<close>

section \<open>The rank of an await point\<close>

fun handover_rank :: "wl_pc \<Rightarrow> nat" where
  "handover_rank Loop_Head = 7"
| "handover_rank Ble_Start = 6"
| "handover_rank (Ble Act_Wait_Prov _) = 5"
| "handover_rank (Ble Act_Timer _) = 4"
| "handover_rank Oper_Start = 3"
| "handover_rank (Connecting _) = 2"
| "handover_rank Oper_Build = 1"
| "handover_rank (Oper _ _) = 0"

lemma handover_rank_zero: "handover_rank pc = 0 \<Longrightarrow> \<exists>nx im. pc = Oper nx im"
  by (cases pc rule: handover_rank.cases) simp_all

text \<open>
  The commissioning goes on: no future of the phases fails or ends, the window stays open, the
  networking status stays that of the successful connect. An evaluation is \<open>ready\<close> when it finds
  the timer elapsed and the deferred connect done.
\<close>

definition handover_obs :: "('q, 'st) wl_env \<Rightarrow> ('q, 'st) wl_obs \<Rightarrow> bool" where
  "handover_obs env ob \<longleftrightarrow>
     (case ob_net_update ob of None \<Rightarrow> True | Some st \<Rightarrow> we_prov_ready env st) \<and>
     ob_rand ob = None \<and> ob_peripheral ob = None \<and> ob_btp_net ob = None \<and>
     ob_oper_net ob = None \<and> ob_mdns ob = None \<and> ob_user ob = None \<and>
     is_open_on_all_transports (we_window env) (ob_window ob) \<and>
     (case ob_connect ob of Some (Inl _) \<Rightarrow> False | _ \<Rightarrow> True) \<and>
     (case io_startup (ob_im ob) of Some (Inl _) \<Rightarrow> False | _ \<Rightarrow> True) \<and>
     io_responder (ob_im ob) = None \<and> io_run (ob_im ob) = None"

definition handover_ready :: "('q, 'st) wl_obs \<Rightarrow> bool" where
  "handover_ready ob \<longleftrightarrow> ob_timer ob \<and> ob_connect ob = Some (Inr ())"

definition handing_over :: "('q, 'st) wl_env \<Rightarrow> 'st wl_state \<Rightarrow> bool" where
  "handing_over env s \<longleftrightarrow> we_prov_ready env (wl_net s) \<and>
     (case wl_pc s of
        Loop_Head \<Rightarrow> False
      | Ble_Start \<Rightarrow> False
      | Oper nx _ \<Rightarrow> nx = Next_Gone
      | _ \<Rightarrow> True)"

lemma handover_update:
  "handover_obs env ob \<Longrightarrow> we_prov_ready env (wl_net s) \<Longrightarrow>
   we_prov_ready env (wl_net (apply_update ob s))"
  by (auto simp: handover_obs_def apply_update_def split: option.split)

lemma handover_im:
  assumes "select_contract (we_select env)" and "handover_obs env ob"
  obtains im' h' where "run_im (we_select env) im h (ob_im ob) = (None, im', h')"
  using run_im_quiet [OF assms(1), of "ob_im ob" im h] assms(2)
  by (cases "run_im (we_select env) im h (ob_im ob)") (auto simp: handover_obs_def)

lemma handover_ble:
  assumes sel: "select_contract (we_select env)" and ob: "handover_obs env ob"
    and pc: "wl_pc s = Ble act im" and "we_prov_ready env (wl_net s)"
  shows "\<exists>s'. run_wifi env s ob = Inr s' \<and> handing_over env s' \<and>
    handover_rank (wl_pc s') \<le> handover_rank (wl_pc s) \<and>
    (handover_ready ob \<longrightarrow> handover_rank (wl_pc s') < handover_rank (wl_pc s))"
proof -
  let ?s = "apply_update ob s"
  have ready: "we_prov_ready env (wl_net ?s)" by (rule handover_update [OF ob assms(4)])
  obtain im' h' where im: "run_im (we_select env) im (wl_hydration ?s) (ob_im ob) = (None, im', h')"
    by (rule handover_im [OF sel ob])
  have none: "we_select env [None, None] = None" "we_select env [None, None, None, None] = None"
    using select2_None [OF sel, of None None] select4_None [OF sel, of None None None None] by simp_all
  show ?thesis
  proof (cases act)
    case Act_Wait_Prov
    with ob ready none have
      "run_btp (we_select env) (we_window env) act (btp_obs_of env ob ?s) = Inr Act_Timer"
      by (simp add: run_btp_def btp_obs_of_def handover_obs_def)
    with pc im none Act_Wait_Prov have
      "run_wifi env s ob = Inr (?s\<lparr>wl_pc := Ble Act_Timer im', wl_hydration := h'\<rparr>)"
      by (simp add: run_wifi_cases wifi_gatt_poll_def)
    with ready pc Act_Wait_Prov show ?thesis by (simp add: handing_over_def)
  next
    case Act_Timer
    show ?thesis
    proof (cases "ob_timer ob")
      case True
      have "we_select env [None, None, Some (Inr ()), None] \<noteq> None"
        using select4_None [OF sel, of None None "Some (Inr ())" None] by simp
      then obtain r where r: "we_select env [None, None, Some (Inr ()), None] = Some r" by auto
      then have "r = Inr ()" using select_contract_Some [OF sel r] by auto
      with r ob Act_Timer True have
        "run_btp (we_select env) (we_window env) act (btp_obs_of env ob ?s) = Inl (Inr ())"
        by (simp add: run_btp_def btp_obs_of_def handover_obs_def)
      moreover obtain q where q: "we_select env [Some (Inr ()), None] = Some q"
        using select2_None [OF sel, of "Some (Inr ())" None] by auto
      moreover have "q = Inr ()" using select_contract_Some [OF sel q] by auto
      ultimately have "run_wifi env s ob = Inr (?s\<lparr>wl_pc := Oper_Start,
          wl_hydration := ended_hydration ob (wl_hydration ?s) h'\<rparr>)"
        using pc im by (simp add: run_wifi_cases wifi_gatt_poll_def)
      with ready pc Act_Timer show ?thesis by (simp add: handing_over_def)
    next
      case False
      with ob Act_Timer none have
        "run_btp (we_select env) (we_window env) act (btp_obs_of env ob ?s) = Inr Act_Timer"
        by (simp add: run_btp_def btp_obs_of_def handover_obs_def)
      with pc im none Act_Timer have
        "run_wifi env s ob = Inr (?s\<lparr>wl_pc := Ble Act_Timer im', wl_hydration := h'\<rparr>)"
        by (simp add: run_wifi_cases wifi_gatt_poll_def)
      with ready pc Act_Timer False show ?thesis by (simp add: handing_over_def handover_ready_def)
    qed
  qed
qed

lemma handover_oper:
  assumes sel: "select_contract (we_select env)" and ob: "handover_obs env ob"
    and pc: "wl_pc s = Oper Next_Gone im" and "we_prov_ready env (wl_net s)"
  shows "\<exists>s'. run_wifi env s ob = Inr s' \<and> handing_over env s' \<and> handover_rank (wl_pc s') = 0"
proof -
  let ?s = "apply_update ob s"
  obtain im' h' where im: "run_im (we_select env) im (wl_hydration ?s) (ob_im ob) = (None, im', h')"
    by (rule handover_im [OF sel ob])
  have "we_select env [None, None] = None" "we_select env [None, None, None, None] = None"
    using select2_None [OF sel, of None None] select4_None [OF sel, of None None None None] by simp_all
  with ob pc im have "run_wifi env s ob = Inr (?s\<lparr>wl_pc := Oper Next_Gone im', wl_hydration := h'\<rparr>)"
    by (simp add: run_wifi_cases wifi_task_poll_def handover_obs_def)
  with handover_update [OF ob assms(4)] show ?thesis by (simp add: handing_over_def)
qed

lemma handover_step:
  assumes sel: "select_contract (we_select env)" and ob: "handover_obs env ob"
    and s: "handing_over env s"
  shows "\<exists>s'. run_wifi env s ob = Inr s' \<and> handing_over env s' \<and>
    handover_rank (wl_pc s') \<le> handover_rank (wl_pc s) \<and>
    (handover_ready ob \<longrightarrow> handover_rank (wl_pc s') \<le> handover_rank (wl_pc s) - 1)"
proof -
  from s have ready: "we_prov_ready env (wl_net s)" by (simp add: handing_over_def)
  note upd = handover_update [OF ob ready]
  show ?thesis
  proof (cases "wl_pc s")
    case (Ble act im)
    from handover_ble [OF sel ob this ready] show ?thesis by fastforce
  next
    case (Oper nx im)
    with s have "wl_pc s = Oper Next_Gone im" by (simp add: handing_over_def)
    from handover_oper [OF sel ob this ready] show ?thesis by fastforce
  next
    case Oper_Start
    with upd show ?thesis by (simp add: run_wifi_cases wifi_task_start_def handing_over_def)
  next
    case (Connecting n)
    with upd ob show ?thesis
      by (cases "ob_connect ob")
        (auto simp: run_wifi_cases wifi_task_connect_def handing_over_def handover_obs_def
          handover_ready_def split: sum.splits)
  next
    case Oper_Build
    with upd ob show ?thesis
      by (simp add: run_wifi_cases wifi_task_build_def handing_over_def handover_obs_def)
  qed (use s in \<open>simp_all add: handing_over_def\<close>)
qed

lemma handover_run:
  assumes sel: "select_contract (we_select env)"
  shows "\<forall>ob \<in> set obs. handover_obs env ob \<Longrightarrow> handing_over env s \<Longrightarrow>
    \<exists>s'. run_ops (run_wifi env) s obs = Inr s' \<and> handing_over env s' \<and>
      handover_rank (wl_pc s') \<le> handover_rank (wl_pc s) - length (filter handover_ready obs)"
proof (induction obs arbitrary: s)
  case Nil
  then show ?case by simp
next
  case (Cons ob obs)
  from Cons.prems have ob: "handover_obs env ob" by simp
  obtain t where t: "run_wifi env s ob = Inr t" "handing_over env t"
    and le: "handover_rank (wl_pc t) \<le> handover_rank (wl_pc s)"
      "handover_ready ob \<longrightarrow> handover_rank (wl_pc t) \<le> handover_rank (wl_pc s) - 1"
    using handover_step [OF sel ob Cons.prems(2)] by blast
  from Cons.IH [OF _ t(2)] Cons.prems(1) obtain s' where
    "run_ops (run_wifi env) t obs = Inr s'" "handing_over env s'"
    "handover_rank (wl_pc s') \<le> handover_rank (wl_pc t) - length (filter handover_ready obs)"
    by auto
  with t le show ?case by auto
qed

text \<open>
  The handover to the operational network comes to its end: in a BLE phase whose credentials
  have arrived and with nothing failing, five evaluations that find what they wait for - among any
  number of others that do not - are enough for the run to be in the operational phase, where it
  waits for the window of this commissioning to go away.
\<close>

theorem handover_completes:
  assumes "select_contract (we_select env)" and "wl_pc s = Ble act im"
    and "we_prov_ready env (wl_net s)" and "\<forall>ob \<in> set obs. handover_obs env ob"
    and "5 \<le> length (filter handover_ready obs)"
  shows "\<exists>s' im'. run_ops (run_wifi env) s obs = Inr s' \<and> wl_pc s' = Oper Next_Gone im'"
proof -
  have "handing_over env s" using assms(2,3) by (simp add: handing_over_def)
  from handover_run [OF assms(1,4) this] obtain s' where
    r: "run_ops (run_wifi env) s obs = Inr s'" and h: "handing_over env s'"
    and "handover_rank (wl_pc s') \<le> handover_rank (wl_pc s) - length (filter handover_ready obs)"
    by blast
  moreover have "handover_rank (wl_pc s) \<le> 5" using assms(2) by (cases act) simp_all
  ultimately have "handover_rank (wl_pc s') = 0" using assms(5) by simp
  then have "\<exists>nx im'. wl_pc s' = Oper nx im'" by (rule handover_rank_zero)
  with h r show ?thesis by (auto simp: handing_over_def)
qed

definition handover_sample :: "(window, unit) wl_obs list" where
  "handover_sample =
     quiet Open_Basic # replicate 5 ((quiet Open_Basic)\<lparr>ob_timer := True, ob_connect := Some (Inr ())\<rparr>)"

theorem handover_completes_witness:
  "\<exists>s im. run_ops (run_wifi sample_env) (wl_state_new blank) (ble_scenario @ handover_sample) = Inr s \<and>
     wl_pc s = Oper Next_Gone im"
proof -
  let ?s = "\<lparr>wl_pc = Ble Act_Timer Im_Running, wl_net = provisioned,
    wl_ctl = Mode_Commissioning Net_Wifi, wl_hydration = \<lparr>im_hydrated = True, im_startups = 1\<rparr>\<rparr>"
  have p: "we_prov_ready sample_env (wl_net ?s)"
    by (simp add: sample_env_def provisioned_def blank_def)
  have o: "\<forall>ob \<in> set handover_sample. handover_obs sample_env ob"
    by (simp add: handover_sample_def handover_obs_def quiet_def sample_env_def plain_preds_def)
  have n: "5 \<le> length (filter handover_ready handover_sample)"
    by (simp add: handover_sample_def handover_ready_def quiet_def)
  have "wl_pc ?s = Ble Act_Timer Im_Running" by simp
  from handover_completes [OF sample_contracts(1) this p o n] show ?thesis
    unfolding run_ops_append ble_scenario_run by simp
qed

end
