(* ===== verification/Net_Tasks.thy ===== *)
theory Net_Tasks
  imports Netif_Task Udp
begin

text \<open>
  The tasks of the network in the runs: \<open>run_oper_net\<close> of \<^verbatim>\<open>src/src/lib.rs\<close> poll by poll, beside
  the supervision of the interface. Each of them unwraps what the network stack offers for UDP:
  the transport in its first poll, the mDNS task when it begins over an interface that is up. A
  stack that does not offer UDP makes them panic.
\<close>

section \<open>The operational transport\<close>

text \<open>
  An evaluation of \<open>run_oper_net\<close>: what binding the socket returns, with an error of the socket,
  and what \<open>Matter::run\<close> over the transport does. The future \<open>until\<close> is given by the caller.
\<close>

record oper_net_obs =
  on_bind :: "(nat + unit) option"
  on_transport :: "unit res option"

datatype oper_net_pc = Net_Start | Net_Bind | Net_Running

definition poll_bind ::
    "(unit res option list \<Rightarrow> unit res option) \<Rightarrow> unit res option \<Rightarrow> oper_net_obs \<Rightarrow>
     unit res option \<times> oper_net_pc" where
  "poll_bind sel until ob =
     (case on_bind ob of
        None \<Rightarrow> (None, Net_Bind)
      | Some (Inl e) \<Rightarrow> (Some (Inl (udp_map_err e)), Net_Bind)
      | Some (Inr _) \<Rightarrow> (sel [on_transport ob, until], Net_Running))"

definition poll_oper_net ::
    "(unit res option list \<Rightarrow> unit res option) \<Rightarrow> bool \<Rightarrow> unit res option \<Rightarrow> oper_net_pc \<Rightarrow>
     oper_net_obs \<Rightarrow> panic + unit res option \<times> oper_net_pc" where
  "poll_oper_net sel has_udp_bind until pc ob =
     (case pc of
        Net_Start \<Rightarrow> if has_udp_bind then Inr (poll_bind sel until ob) else Inl Unwrap_Failed
      | Net_Bind \<Rightarrow> Inr (poll_bind sel until ob)
      | Net_Running \<Rightarrow> Inr (sel [on_transport ob, until], Net_Running))"

lemma poll_oper_net_panic:
  "poll_oper_net sel b until pc ob = Inl p \<Longrightarrow> p = Unwrap_Failed \<and> \<not> b"
  by (auto simp: poll_oper_net_def split: oper_net_pc.splits if_splits)

section \<open>Both tasks\<close>

text \<open>
  A \<open>select\<close> that is decided by a child need not poll the ones after it. In every run \<open>until\<close> is
  \<open>core::future::pending()\<close>.
\<close>

record nets =
  nt_net :: oper_net_pc
  nt_mdns :: netif_run

record nets_obs =
  nb_net :: oper_net_obs
  nb_netif :: netif_obs
  nb_net_polled :: bool
  nb_mdns_polled :: bool

definition nets_new :: nets where
  "nets_new = \<lparr>nt_net = Net_Start, nt_mdns = netif_run_new\<rparr>"

definition poll_net_task where
  "poll_net_task sel b n ob =
     (if nb_net_polled ob
      then and_then (poll_oper_net sel b None (nt_net n) (nb_net ob))
             (\<lambda>(r, pc). Inr (r, n\<lparr>nt_net := pc\<rparr>))
      else Inr (None, n))"

definition poll_mdns_task where
  "poll_mdns_task b n ob =
     (if nb_mdns_polled ob
      then (case netif_task b (nt_mdns n) (nb_netif ob) of
              Inl (Inl p) \<Rightarrow> Inl p
            | Inl (Inr e) \<Rightarrow> Inr (Some (Inl e), n)
            | Inr s \<Rightarrow> Inr (None, n\<lparr>nt_mdns := s\<rparr>))
      else Inr (None, n))"

definition poll_nets ::
    "(unit res option list \<Rightarrow> unit res option) \<Rightarrow> bool \<Rightarrow> nets \<Rightarrow> nets_obs \<Rightarrow>
     panic + unit res option \<times> unit res option \<times> nets" where
  "poll_nets sel b n ob =
     and_then (poll_net_task sel b n ob) (\<lambda>(net, n).
     and_then (poll_mdns_task b n ob) (\<lambda>(mdns, n). Inr (net, mdns, n)))"

lemma poll_nets_mdns:
  assumes "poll_nets sel b n ob = Inr (net, mdns, n')"
  shows "nt_mdns n' = nt_mdns n \<or> netif_task b (nt_mdns n) (nb_netif ob) = Inr (nt_mdns n')"
    and "mdns = None \<or> (\<exists>e. mdns = Some (Inl e) \<and> netif_task b (nt_mdns n) (nb_netif ob) = Inl (Inr e))"
  using assms
  by (auto simp: poll_nets_def poll_net_task_def poll_mdns_task_def and_then_Inr_iff
      split: if_splits sum.splits)

lemma poll_nets_panic:
  "poll_nets sel b n ob = Inl p \<Longrightarrow> p = Unwrap_Failed \<and> \<not> b"
  by (auto simp: poll_nets_def poll_net_task_def poll_mdns_task_def and_then_Inl_iff
      dest!: poll_oper_net_panic netif_task_end split: if_splits sum.splits)

end
