(* ===== verification/Stack_Run.thy ===== *)
theory Stack_Run
  imports Stack_Core Stack_Memory Net_Tasks
begin

text \<open>
  The stack as the value its callers hold: the fields of \<open>MatterStack\<close> (\<^verbatim>\<open>src/src/lib.rs\<close>),
  its two constructors, and the calls of \<open>run\<close>, \<open>run_coex\<close> and \<open>run_preex\<close> of
  \<^verbatim>\<open>src/src/eth.rs\<close>, \<^verbatim>\<open>src/src/wireless/wifi.rs\<close> and \<^verbatim>\<open>thread.rs\<close> as functions of it. A call
  composes what the other theories model one by one: the transport reset and the future of the
  task in the bump allocator, the task with the allocations it makes where it makes them, and
  the guard that resets the allocator when the call returns, panics or is cancelled. That calls
  do not overlap is the subject of the run lock.
\<close>

section \<open>The stack\<close>

text \<open>
  \<open>matter\<close>, \<open>buffers\<close> and \<open>state\<close> are values of \<^verbatim>\<open>rs-matter\<close>; the run lock is modelled with
  its callers elsewhere.
\<close>

record ('m, 'b, 'i, 'n) mstack =
  ms_matter :: 'm
  ms_buffers :: 'b
  ms_state :: 'i
  ms_bump :: bump
  ms_hydration :: hydration
  ms_network :: 'n

text \<open>
  What \<open>new\<close> and \<open>init\<close> call of \<^verbatim>\<open>rs-matter\<close> and of the network: the constructors proper and
  the in-place initializers, each as the value it leaves behind.
\<close>

record ('d, 'm, 'b, 'i, 'n) ctors =
  ct_matter :: "'d \<Rightarrow> nat \<Rightarrow> 'm"
  ct_buffers :: 'b
  ct_state :: 'i
  ct_network :: 'n

definition stack_new ::
    "('d, 'm, 'b, 'i, 'n) ctors \<Rightarrow> nat \<Rightarrow> nat \<Rightarrow> nat \<Rightarrow> 'd \<Rightarrow> ('m, 'b, 'i, 'n) mstack" where
  "stack_new c matter_port base B dev =
     \<lparr>ms_matter = ct_matter c dev matter_port, ms_buffers = ct_buffers c, ms_state = ct_state c,
      ms_bump = bump_new base B, ms_hydration = hydration_new, ms_network = ct_network c\<rparr>"

definition stack_init ::
    "('d, 'm, 'b, 'i, 'n) ctors \<Rightarrow> nat \<Rightarrow> nat \<Rightarrow> nat \<Rightarrow> 'd \<Rightarrow> ('m, 'b, 'i, 'n) mstack" where
  "stack_init i matter_port base B dev =
     \<lparr>ms_matter = ct_matter i dev matter_port, ms_buffers = ct_buffers i, ms_state = ct_state i,
      ms_bump = bump_init base B, ms_hydration = hydration_new, ms_network = ct_network i\<rparr>"

text \<open>\<open>replace_dev_att\<close>, by the method of \<open>Matter\<close> of the same name\<close>

definition replace_dev_att ::
    "('a \<Rightarrow> 'm \<Rightarrow> 'm) \<Rightarrow> 'a \<Rightarrow> ('m, 'b, 'i, 'n) mstack \<Rightarrow> ('m, 'b, 'i, 'n) mstack" where
  "replace_dev_att matter_replace dev_att s =
     s\<lparr>ms_matter := matter_replace dev_att (ms_matter s)\<rparr>"

section \<open>Networks\<close>

text \<open>
  \<open>Embedding\<close>: the constant and the in-place initializer of user data, which are to be the same
  value; \<open>Eth\<close> and \<open>WirelessBle\<close> embed one and pass on both.
\<close>

locale embedding =
  fixes INIT :: 'e and init :: 'e
  assumes init_is_INIT: "init = INIT"

definition unit_INIT :: unit where
  "unit_INIT = ()"

definition unit_init :: unit where
  "unit_init = ()"

interpretation unit_embedding: embedding unit_INIT unit_init
  by unfold_locales (simp add: unit_INIT_def unit_init_def)

record 'e eth_net =
  en_embedding :: 'e

definition eth_INIT :: "'e \<Rightarrow> 'e eth_net" where
  "eth_INIT e_INIT = \<lparr>en_embedding = e_INIT\<rparr>"

definition eth_init :: "'e \<Rightarrow> 'e eth_net" where
  "eth_init e_init = \<lparr>en_embedding = e_init\<rparr>"

record ('t, 'st, 's, 'e) wireless_ble =
  wb_btp :: 't
  wb_net_state :: "'st net_ctl_state"
  wb_networks :: 's
  wb_embedding :: 'e

definition wireless_ble_new :: "'t \<Rightarrow> 'st net_ctl_state \<Rightarrow> 's \<Rightarrow> 'e \<Rightarrow> ('t, 'st, 's, 'e) wireless_ble" where
  "wireless_ble_new btp_new net_state_new s_INIT e_INIT =
     \<lparr>wb_btp = btp_new, wb_net_state = net_state_new, wb_networks = s_INIT, wb_embedding = e_INIT\<rparr>"

definition wireless_ble_init :: "'t \<Rightarrow> 'st net_ctl_state \<Rightarrow> 's \<Rightarrow> 'e \<Rightarrow> ('t, 'st, 's, 'e) wireless_ble" where
  "wireless_ble_init btp_init net_state_init s_init e_init =
     \<lparr>wb_btp = btp_init, wb_net_state = net_state_init, wb_networks = s_init, wb_embedding = e_init\<rparr>"

section \<open>Allocations of a run\<close>

definition stack_alloc ::
    "layout list \<Rightarrow> ('m, 'b, 'i, 'n) mstack \<Rightarrow> panic + ('m, 'b, 'i, 'n) mstack" where
  "stack_alloc Ts s = map_sum id (\<lambda>b. s\<lparr>ms_bump := b\<rparr>) (site_allocs Ts (ms_bump s))"

text \<open>
  What a call observes in an evaluation: the result of \<open>reset_transport\<close>, what the tasks
  observe, what the two tasks of the network do, and - when the responder ends in the evaluation
  that started it - how many of its allocations it got to.
\<close>

record ('q, 'st) stack_obs =
  so_reset_transport :: "unit res"
  so_obs :: "('q, 'st) wl_obs"
  so_sites :: nat
  so_nets :: nets_obs

type_synonym run_end = "panic + unit res"

type_synonym ('pc, 's, 'o) stack_task = "'pc \<Rightarrow> 's \<Rightarrow> 'o \<Rightarrow> (run_end + 'pc) \<times> 's"

text \<open>
  \<open>run_im_with_bump\<close>: the responder is allocated and polled once the startup has succeeded; its
  first poll allocates the responders and their handlers.
\<close>

definition sites_reached :: "layouts \<Rightarrow> string set \<Rightarrow> ('q, 'st) stack_obs \<Rightarrow> layout list" where
  "sites_reached ly F ob =
     (case io_responder (ob_im (so_obs ob)) of
        None \<Rightarrow> im_sites ly F
      | Some _ \<Rightarrow> take (so_sites ob) (im_sites ly F))"

definition run_im_with_bump ::
    "layouts \<Rightarrow> string set \<Rightarrow> (unit res option list \<Rightarrow> unit res option) \<Rightarrow> im_pc \<Rightarrow>
     ('m, 'b, 'i, 'n) mstack \<Rightarrow> ('q, 'st) stack_obs \<Rightarrow>
     (panic + unit res option) \<times> im_pc \<times> ('m, 'b, 'i, 'n) mstack" where
  "run_im_with_bump ly F sel im s ob =
     (let (r, im', h') = run_im sel im (ms_hydration s) (ob_im (so_obs ob));
          s' = s\<lparr>ms_hydration := h'\<rparr>
      in if im \<noteq> Im_Running \<and> im' = Im_Running
         then (case stack_alloc (sites_reached ly F ob) s' of
                 Inl p \<Rightarrow> (Inl p, im', s')
               | Inr s'' \<Rightarrow> (Inr r, im', s''))
         else (Inr r, im', s'))"

section \<open>The tasks\<close>

text \<open>
  \<open>MatterStackEthernetTask::run\<close>. The transport and the mDNS supervision are the tasks of the code,
  created where the code allocates them and polled before the interaction model, in the order of
  the \<open>select\<close>; a panic of theirs is one of the run. A future polled before the interaction model may
  end the \<open>select\<close> first (\<open>ob_im_polled\<close>).
\<close>

datatype eth_stack_pc = Eth_Begin | Eth_Tasks nets im_pc

definition eth_stack_task ::
    "layouts \<Rightarrow> string set \<Rightarrow> ('q, 'st) wl_env \<Rightarrow>
     (eth_stack_pc, ('m, 'b, 'i, 'n) mstack, ('q, 'st) stack_obs) stack_task" where
  "eth_stack_task ly F env pc s ob =
     (case pc of
        Eth_Begin \<Rightarrow>
          (case ob_rand (so_obs ob) of
             Some e \<Rightarrow> (Inl (Inr (Inl e)), s)
           | None \<Rightarrow>
               (case stack_alloc [ly_net ly, ly_mdns ly, ly_im ly, ly_user ly] s of
                  Inl p \<Rightarrow> (Inl (Inl p), s)
                | Inr s' \<Rightarrow> (Inr (Eth_Tasks nets_new Im_Start), s')))
      | Eth_Tasks n im \<Rightarrow>
          (case poll_nets (we_select env) (we_udp env) n (so_nets ob) of
             Inl p \<Rightarrow> (Inl (Inl p), s)
           | Inr (net, mdns, n') \<Rightarrow>
               (let ob' = so_obs ob;
                    early = (if ob_im_polled ob' then None else we_select env [net, mdns, None, None])
                in case early of
                     Some r \<Rightarrow> (Inl (Inr r), s)
                   | None \<Rightarrow>
                       (let (im_res, im', s') = run_im_with_bump ly F (we_select env) im s ob
                        in case im_res of
                             Inl p \<Rightarrow> (Inl (Inl p), s')
                           | Inr r \<Rightarrow>
                               (case we_select env [net, mdns, r, ob_user ob'] of
                                  None \<Rightarrow> (Inr (Eth_Tasks n' im'), s')
                                | Some r \<Rightarrow> (Inl (Inr r), s'))))))"

text \<open>
  \<open>WifiCoexTask::run\<close> and \<open>ThreadCoexTask::run\<close>: the net task is polled first and allocates the
  three tasks of \<open>run_btp_coex\<close>.
\<close>

datatype coex_stack_pc = Coex_Begin | Coex_Tasks nets gatt_pc im_pc

definition wifi_coex_stack_task ::
    "layouts \<Rightarrow> string set \<Rightarrow> ('q, 'st) wl_env \<Rightarrow>
     (coex_stack_pc, ('m, 'b, 'i, 'n) mstack, ('q, 'st) stack_obs) stack_task" where
  "wifi_coex_stack_task ly F env pc s ob =
     (case pc of
        Coex_Begin \<Rightarrow>
          (case ob_rand (so_obs ob) of
             Some e \<Rightarrow> (Inl (Inr (Inl e)), s)
           | None \<Rightarrow>
               (case stack_alloc [ly_net ly, ly_im ly, ly_user ly, ly_btp ly, ly_oper_net ly, ly_mdns ly] s of
                  Inl p \<Rightarrow> (Inl (Inl p), s)
                | Inr s' \<Rightarrow> (Inr (Coex_Tasks nets_new Gatt_Wait_Open Im_Start), s')))
      | Coex_Tasks n g im \<Rightarrow>
          (case poll_nets (we_select env) (we_udp env) n (so_nets ob) of
             Inl p \<Rightarrow> (Inl (Inl p), s)
           | Inr (net, mdns, n') \<Rightarrow>
               (let ob' = (so_obs ob)\<lparr>ob_oper_net := net, ob_mdns := mdns\<rparr>;
                    net_task = run_btp_coex env g ob';
                    net_res = (case net_task of Inl r \<Rightarrow> Some r | Inr _ \<Rightarrow> None);
                    early = (if ob_im_polled ob' then None else we_select env [net_res, None, None])
                in case early of
                     Some r \<Rightarrow> (Inl (Inr r), s)
                   | None \<Rightarrow>
                       (let (im_res, im', s') = run_im_with_bump ly F (we_select env) im s ob
                        in case im_res of
                             Inl p \<Rightarrow> (Inl (Inl p), s')
                           | Inr r \<Rightarrow>
                               (case we_select env [net_res, r, ob_user ob'] of
                                  None \<Rightarrow>
                                    (Inr (Coex_Tasks n' (case net_task of Inl _ \<Rightarrow> g | Inr g' \<Rightarrow> g') im'), s')
                                | Some r \<Rightarrow> (Inl (Inr r), s'))))))"

definition thread_coex_stack_task ::
    "layouts \<Rightarrow> string set \<Rightarrow> ('q, 'st) wl_env \<Rightarrow>
     (coex_stack_pc, ('m, 'b, 'i, 'n) mstack, ('q, 'st) stack_obs) stack_task" where
  "thread_coex_stack_task ly F env pc s ob =
     (case pc of
        Coex_Begin \<Rightarrow>
          (case ob_rand (so_obs ob) of
             Some e \<Rightarrow> (Inl (Inr (Inl e)), s)
           | None \<Rightarrow>
               (case stack_alloc [ly_net ly, ly_im ly, ly_user ly, ly_btp ly, ly_oper_net ly, ly_mdns ly] s of
                  Inl p \<Rightarrow> (Inl (Inl p), s)
                | Inr s' \<Rightarrow> (Inr (Coex_Tasks nets_new Gatt_Wait_Open Im_Start), s')))
      | Coex_Tasks n g im \<Rightarrow>
          (case poll_nets (we_select env) (we_udp env) n (so_nets ob) of
             Inl p \<Rightarrow> (Inl (Inl p), s)
           | Inr (net, mdns, n') \<Rightarrow>
               (let ob' = (so_obs ob)\<lparr>ob_oper_net := net, ob_mdns := mdns\<rparr>;
                    net_task = run_btp_coex env g ob';
                    net_res = (case net_task of Inl r \<Rightarrow> Some r | Inr _ \<Rightarrow> None);
                    early = (if ob_im_polled ob' then None else we_select env [net_res, None, None])
                in case early of
                     Some r \<Rightarrow> (Inl (Inr r), s)
                   | None \<Rightarrow>
                       (let (im_res, im', s') = run_im_with_bump ly F (we_select env) im s ob
                        in case im_res of
                             Inl p \<Rightarrow> (Inl (Inl p), s')
                           | Inr r \<Rightarrow>
                               (case we_select env [net_res, r, ob_user ob'] of
                                  None \<Rightarrow>
                                    (Inr (Coex_Tasks n' (case net_task of Inl _ \<Rightarrow> g | Inr g' \<Rightarrow> g') im'), s')
                                | Some r \<Rightarrow> (Inl (Inr r), s'))))))"

text \<open>
  \<open>run_wifi\<close> and \<open>run_thread\<close> on the stack: the networking status and the hydration are fields
  of the stack, the phase and its controller belong to the run. Starting the task of a BLE phase
  allocates the future of the peripheral (\<open>run_btp\<close>). A run that ends leaves the status and the
  hydration as the evaluation that ended it did.
\<close>

type_synonym ('m, 'b, 'i, 't, 'st, 's, 'e) wireless_stack =
  "('m, 'b, 'i, ('t, 'st, 's, 'e) wireless_ble) mstack"

definition wl_get ::
    "wl_pc \<times> ctl_mode \<Rightarrow> ('m, 'b, 'i, 't, 'st, 's, 'e) wireless_stack \<Rightarrow> 'st wl_state" where
  "wl_get pc s =
     \<lparr>wl_pc = fst pc, wl_net = wb_net_state (ms_network s), wl_ctl = snd pc,
      wl_hydration = ms_hydration s\<rparr>"

definition wl_put ::
    "'st wl_state \<Rightarrow> ('m, 'b, 'i, 't, 'st, 's, 'e) wireless_stack \<Rightarrow>
     ('m, 'b, 'i, 't, 'st, 's, 'e) wireless_stack" where
  "wl_put w s =
     s\<lparr>ms_network := (ms_network s)\<lparr>wb_net_state := wl_net w\<rparr>, ms_hydration := wl_hydration w\<rparr>"

definition im_ended ::
    "('q, 'st) wl_env \<Rightarrow> im_pc \<Rightarrow> 'st wl_state \<Rightarrow> ('q, 'st) wl_obs \<Rightarrow> 'st wl_state" where
  "im_ended env im w ob =
     w\<lparr>wl_hydration := ended_hydration ob (wl_hydration w)
         (snd (snd (run_im (we_select env) im (wl_hydration w) (ob_im ob))))\<rparr>"

definition wl_ended :: "('q, 'st) wl_env \<Rightarrow> 'st wl_state \<Rightarrow> ('q, 'st) wl_obs \<Rightarrow> 'st wl_state" where
  "wl_ended env w ob =
     (let w = apply_update ob w
      in case wl_pc w of
           Ble _ im \<Rightarrow> im_ended env im w ob
         | Oper _ im \<Rightarrow> im_ended env im w ob
         | _ \<Rightarrow> w)"

text \<open>
  The network tasks of an operational phase: created by the evaluation that builds the phase,
  polled while it lasts, and locals of it - the next phase has its own.
\<close>

type_synonym wl_stack_pc = "(wl_pc \<times> ctl_mode) \<times> nets"

definition poll_phase_nets ::
    "('q, 'st) wl_env \<Rightarrow> wl_pc \<Rightarrow> nets \<Rightarrow> ('q, 'st) stack_obs \<Rightarrow>
     panic + unit res option \<times> unit res option \<times> nets" where
  "poll_phase_nets env p n ob =
     (case p of
        Oper _ _ \<Rightarrow> poll_nets (we_select env) (we_udp env) n (so_nets ob)
      | Oper_Build \<Rightarrow> Inr (None, None, nets_new)
      | _ \<Rightarrow> Inr (None, None, n))"

definition wifi_stack_task ::
    "layouts \<Rightarrow> ('q, 'st) wl_env \<Rightarrow>
     (wl_stack_pc, ('m, 'b, 'i, 't, 'st, 's, 'e) wireless_stack, ('q, 'st) stack_obs) stack_task" where
  "wifi_stack_task ly env pc s ob =
     (let w = wl_get (fst pc) s
      in case poll_phase_nets env (wl_pc w) (snd pc) ob of
           Inl p \<Rightarrow> (Inl (Inl p), wl_put (apply_update (so_obs ob) w) s)
         | Inr (net, mdns, n) \<Rightarrow>
             (let ob' = (so_obs ob)\<lparr>ob_oper_net := net, ob_mdns := mdns\<rparr>
              in case run_wifi env w ob' of
                   Inl r \<Rightarrow> (Inl (Inr r), wl_put (wl_ended env w ob') s)
                 | Inr w' \<Rightarrow>
                     (let s' = wl_put w' s; pc' = ((wl_pc w', wl_ctl w'), n)
                      in if wl_pc w = Ble_Start
                         then (case stack_alloc [ly_btp ly] s' of
                                 Inl p \<Rightarrow> (Inl (Inl p), s')
                               | Inr s'' \<Rightarrow> (Inr pc', s''))
                         else (Inr pc', s'))))"

definition thread_stack_task ::
    "layouts \<Rightarrow> ('q, 'st) wl_env \<Rightarrow>
     (wl_stack_pc, ('m, 'b, 'i, 't, 'st, 's, 'e) wireless_stack, ('q, 'st) stack_obs) stack_task" where
  "thread_stack_task ly env pc s ob =
     (let w = wl_get (fst pc) s
      in case poll_phase_nets env (wl_pc w) (snd pc) ob of
           Inl p \<Rightarrow> (Inl (Inl p), wl_put (apply_update (so_obs ob) w) s)
         | Inr (net, mdns, n) \<Rightarrow>
             (let ob' = (so_obs ob)\<lparr>ob_oper_net := net, ob_mdns := mdns\<rparr>
              in case run_thread env w ob' of
                   Inl r \<Rightarrow> (Inl (Inr r), wl_put (wl_ended env w ob') s)
                 | Inr w' \<Rightarrow>
                     (let s' = wl_put w' s; pc' = ((wl_pc w', wl_ctl w'), n)
                      in if wl_pc w = Ble_Start
                         then (case stack_alloc [ly_btp ly] s' of
                                 Inl p \<Rightarrow> (Inl (Inl p), s')
                               | Inr s'' \<Rightarrow> (Inr pc', s''))
                         else (Inr pc', s'))))"

section \<open>Drivers\<close>

text \<open>
  \<open>Ethernet::run\<close>, \<open>WifiCoex::run\<close> and \<open>ThreadCoex::run\<close> of a user-provided driver: it may not
  have the interface up yet, may fail, and otherwise runs the task it is given; it does not touch
  the stack by itself.
\<close>

type_synonym ('pc, 's, 'o) driver = "('pc, 's, 'o) stack_task \<Rightarrow> ('pc, 's, 'o) stack_task"

definition driver_contract :: "('pc, 's, 'o) driver \<Rightarrow> bool" where
  "driver_contract drv \<longleftrightarrow>
     (\<forall>task pc s ob.
        drv task pc s ob = task pc s ob \<or> drv task pc s ob = (Inr pc, s) \<or>
        (\<exists>r. drv task pc s ob = (Inl (Inr r), s)))"

text \<open>\<open>PreexistingEthernet::run\<close> and \<open>PreexistingWireless::run\<close> call \<open>run\<close> of the task.\<close>

definition preex_ethernet :: "('pc, 's, 'o) driver" where
  "preex_ethernet task = task"

definition preex_wireless :: "('pc, 's, 'o) driver" where
  "preex_wireless task = task"

definition run_ethernet where
  "run_ethernet ethernet ly F env = ethernet (eth_stack_task ly F env)"

definition run_wifi_coex where
  "run_wifi_coex wifi ly F env = wifi (wifi_coex_stack_task ly F env)"

definition run_thread_coex where
  "run_thread_coex thread ly F env = thread (thread_coex_stack_task ly F env)"

section \<open>Calls\<close>

text \<open>
  What the \<open>run\<close> methods have in common once the locks are held and the guard is in place: the
  transport reset, the future of the task in the arena, and awaiting it.
\<close>

datatype 'pc run_pc = Run_Start | Run_Task 'pc

fun guarded_run ::
    "layout \<Rightarrow> ('pc, ('m, 'b, 'i, 'n) mstack, ('q, 'st) stack_obs) stack_task \<Rightarrow> 'pc \<Rightarrow>
     ('pc run_pc, ('m, 'b, 'i, 'n) mstack, ('q, 'st) stack_obs) stack_task" where
  "guarded_run T task start Run_Start s ob =
     (case so_reset_transport ob of
        Inl e \<Rightarrow> (Inl (Inr (Inl e)), s)
      | Inr _ \<Rightarrow>
          (case stack_alloc [T] s of
             Inl p \<Rightarrow> (Inl (Inl p), s)
           | Inr s' \<Rightarrow> (Inr (Run_Task start), s')))"
| "guarded_run T task start (Run_Task pc) s ob =
     (case task pc s ob of
        (Inl r, s') \<Rightarrow> (Inl r, s')
      | (Inr pc', s') \<Rightarrow> (Inr (Run_Task pc'), s'))"

definition eth_run where
  "eth_run ethernet ly F env = guarded_run (ly_run ly) (run_ethernet ethernet ly F env) Eth_Begin"

definition wifi_run_coex where
  "wifi_run_coex wifi ly F env =
     guarded_run (ly_run ly) (run_wifi_coex wifi ly F env) Coex_Begin"

definition thread_run_coex where
  "thread_run_coex thread ly F env =
     guarded_run (ly_run ly) (run_thread_coex thread ly F env) Coex_Begin"

definition wifi_run where
  "wifi_run ly env = guarded_run (ly_run ly) (wifi_stack_task ly env) ((Loop_Head, Mode_None), nets_new)"

definition thread_run where
  "thread_run ly env = guarded_run (ly_run ly) (thread_stack_task ly env) ((Loop_Head, Mode_None), nets_new)"

text \<open>
  The observations of a call end with its result, or with its future being dropped where it is.
  Either way the guard goes, and with it what the call allocated.
\<close>

fun run_future ::
    "('pc, 's, 'o) stack_task \<Rightarrow> 'pc \<Rightarrow> 's \<Rightarrow> 'o list \<Rightarrow> (run_end + 'pc) \<times> 's" where
  "run_future step pc s [] = (Inr pc, s)"
| "run_future step pc s (ob # obs) =
     (case step pc s ob of
        (Inl r, s') \<Rightarrow> (Inl r, s')
      | (Inr pc', s') \<Rightarrow> run_future step pc' s' obs)"

definition drop_guard :: "('m, 'b, 'i, 'n) mstack \<Rightarrow> ('m, 'b, 'i, 'n) mstack" where
  "drop_guard s = s\<lparr>ms_bump := bump_reset (ms_bump s)\<rparr>"

definition call_run ::
    "('pc run_pc, ('m, 'b, 'i, 'n) mstack, 'o) stack_task \<Rightarrow> ('m, 'b, 'i, 'n) mstack \<Rightarrow> 'o list \<Rightarrow>
     run_end option \<times> ('m, 'b, 'i, 'n) mstack" where
  "call_run step s obs =
     (case run_future step Run_Start s obs of
        (Inl r, s') \<Rightarrow> (Some r, drop_guard s')
      | (Inr _, s') \<Rightarrow> (None, drop_guard s'))"

text \<open>
  The calls \<open>run_preex\<close>. The one over Wifi is an \<open>async fn\<close> whose value is the future of
  \<open>run_coex\<close>: polling it yields that future, unpolled.
\<close>

definition eth_run_preex where
  "eth_run_preex ly F env = eth_run preex_ethernet ly F env"

definition thread_run_preex where
  "thread_run_preex ly F env = thread_run_coex preex_wireless ly F env"

definition wifi_run_preex where
  "wifi_run_preex ly F env = (\<lambda>s ob. (Inl (wifi_run_coex preex_wireless ly F env), s))"

text \<open>A sequence of calls on one stack, as a wireless one is used: either kind, in any order.\<close>

fun calls :: "('c \<Rightarrow> 's \<Rightarrow> run_end option \<times> 's) \<Rightarrow> 's \<Rightarrow> 'c list \<Rightarrow> run_end option list \<times> 's" where
  "calls call s [] = ([], s)"
| "calls call s (c # cs) =
     (let (r, s') = call c s; (rs, s'') = calls call s' cs in (r # rs, s''))"

datatype ('q, 'st) wireless_call =
    Call_Run "('q, 'st) stack_obs list"
  | Call_Run_Coex "('q, 'st) stack_obs list"

definition eth_call where
  "eth_call ethernet ly F env obs s = call_run (eth_run ethernet ly F env) s obs"

definition wifi_call where
  "wifi_call wifi ly F env c s =
     (case c of
        Call_Run obs \<Rightarrow> call_run (wifi_run ly env) s obs
      | Call_Run_Coex obs \<Rightarrow> call_run (wifi_run_coex wifi ly F env) s obs)"

definition thread_call where
  "thread_call thread ly F env c s =
     (case c of
        Call_Run obs \<Rightarrow> call_run (thread_run ly env) s obs
      | Call_Run_Coex obs \<Rightarrow> call_run (thread_run_coex thread ly F env) s obs)"

end
