(* ===== verification/Stack_Run_Spec.thy ===== *)
theory Stack_Run_Spec
  imports Stack_Run Core_Spec Memory_Spec
begin

text \<open>
  What the stack promises over any sequence of calls, returned, failed, panicked or cancelled at
  any point: every call begins with the whole arena, the only panics are lack of bump memory and,
  over a network stack without UDP, the unwrapping of its UDP; the interaction model is hydrated at
  most once; over Ethernet and with coexistence an arena that
  holds the sites of one call is enough for all of them, and without coexistence no arena is.
\<close>

section \<open>Tasks on the stack\<close>

definition stack_rel :: "('m, 'b, 'i, 'n) mstack \<Rightarrow> ('m, 'b, 'i, 'n) mstack \<Rightarrow> bool" where
  "stack_rel s s' \<longleftrightarrow>
     (bump_ok (ms_bump s) \<longrightarrow> bump_ok (ms_bump s')) \<and>
     b_base (ms_bump s') = b_base (ms_bump s) \<and> b_size (ms_bump s') = b_size (ms_bump s) \<and>
     (hydration_ok (ms_hydration s) \<longrightarrow> hydration_ok (ms_hydration s'))"

lemma stack_rel_refl [simp]: "stack_rel s s"
  by (simp add: stack_rel_def)

lemma stack_rel_trans: "stack_rel s t \<Longrightarrow> stack_rel t u \<Longrightarrow> stack_rel s u"
  by (simp add: stack_rel_def)

lemma stack_alloc_fits:
  assumes "bump_ok (ms_bump s)"
  shows "stack_alloc Ts s =
    (let n = total_need Ts (b_base (ms_bump s) + b_offset (ms_bump s))
     in if n \<le> b_size (ms_bump s) - b_offset (ms_bump s)
        then Inr (s\<lparr>ms_bump := (ms_bump s)\<lparr>b_offset := b_offset (ms_bump s) + n\<rparr>\<rparr>)
        else Inl Out_Of_Bump_Memory)"
  by (simp add: stack_alloc_def site_allocs_fits [OF assms] Let_def)

lemma take_slots_frame:
  "take_slots reserve Ts b = Inr (ps, b') \<Longrightarrow> b_base b' = b_base b \<and> b_size b' = b_size b"
proof (induction Ts arbitrary: b ps)
  case Nil
  then show ?case by simp
next
  case (Cons T Ts)
  then obtain p b1 qs where r: "reserve T b = Inr (p, b1)" and "take_slots reserve Ts b1 = Inr (qs, b')"
    by (auto simp: and_then_Inr_iff)
  moreover from r have "b_base b1 = b_base b \<and> b_size b1 = b_size b"
    by (auto simp: reserve_def Let_def and_then_Inr_iff)
  ultimately show ?case using Cons.IH by metis
qed

lemma stack_alloc_Inr:
  "stack_alloc Ts s = Inr s' \<longleftrightarrow>
   (\<exists>b. site_allocs Ts (ms_bump s) = Inr b \<and> s' = s\<lparr>ms_bump := b\<rparr>)"
  by (cases "site_allocs Ts (ms_bump s)") (auto simp: stack_alloc_def)

lemma site_allocs_rel:
  assumes "site_allocs Ts b = Inr b'"
  shows "b_base b' = b_base b" and "b_size b' = b_size b" and "bump_ok b \<Longrightarrow> bump_ok b'"
proof -
  from assms obtain ps where t: "take_slots reserve Ts b = Inr (ps, b')"
    by (auto simp: site_allocs_def and_then_Inr_iff)
  from take_slots_frame [OF t] show "b_base b' = b_base b" and "b_size b' = b_size b" by simp_all
  from arena.take_slots_grow [OF _ t] show "bump_ok b \<Longrightarrow> bump_ok b'" by blast
qed

lemma stack_alloc_rel: "stack_alloc Ts s = Inr s' \<Longrightarrow> stack_rel s s'"
  using site_allocs_rel by (fastforce simp: stack_alloc_Inr stack_rel_def)

lemma stack_alloc_keeps:
  "stack_alloc Ts s = Inr s' \<Longrightarrow> ms_hydration s' = ms_hydration s \<and> ms_network s' = ms_network s"
  by (auto simp: stack_alloc_Inr)

lemma stack_alloc_oom:
  "bump_ok (ms_bump s) \<Longrightarrow> stack_alloc Ts s = Inl p \<Longrightarrow> p = Out_Of_Bump_Memory"
  by (simp add: stack_alloc_fits Let_def split: if_splits)

text \<open>
  The panics of a run: the allocator's, and the one of \<open>unwrap!(net_stack.udp_bind())\<close> of the two
  network tasks when UDP is not offered.
\<close>

definition udp_panic :: "bool \<Rightarrow> panic \<Rightarrow> bool" where
  "udp_panic udp p \<longleftrightarrow> p = Unwrap_Failed \<and> \<not> udp"

definition stack_panic :: "bool \<Rightarrow> panic \<Rightarrow> bool" where
  "stack_panic udp p \<longleftrightarrow> p = Out_Of_Bump_Memory \<or> udp_panic udp p"

lemma stack_panic_intros:
  "p = Out_Of_Bump_Memory \<Longrightarrow> stack_panic udp p" "udp_panic udp p \<Longrightarrow> stack_panic udp p"
  by (simp_all add: stack_panic_def)

lemma poll_nets_udp: "poll_nets sel b n ob = Inl p \<Longrightarrow> udp_panic b p"
  by (drule poll_nets_panic) (simp add: udp_panic_def)

lemma phase_nets_udp: "poll_phase_nets env pc n ob = Inl p \<Longrightarrow> udp_panic (we_udp env) p"
  by (auto simp: poll_phase_nets_def split: wl_pc.splits dest: poll_nets_udp)

locale arena_task =
  fixes task :: "('pc, ('m, 'b, 'i, 'n) mstack, ('q, 'st) stack_obs) stack_task"
    and udp :: bool
  assumes task_rel: "task pc s ob = (r, s') \<Longrightarrow> stack_rel s s'"
    and task_panic: "bump_ok (ms_bump s) \<Longrightarrow> task pc s ob = (Inl (Inl p), s') \<Longrightarrow> stack_panic udp p"
begin

lemma future_rel: "run_future task pc s obs = (r, s') \<Longrightarrow> stack_rel s s'"
proof (induction obs arbitrary: pc s)
  case Nil
  then show ?case by simp
next
  case (Cons ob obs)
  show ?case
  proof (cases "task pc s ob")
    case (Pair x t)
    with Cons show ?thesis
      by (cases x) (auto dest: task_rel intro: stack_rel_trans)
  qed
qed

lemma future_panic:
  "bump_ok (ms_bump s) \<Longrightarrow> run_future task pc s obs = (Inl (Inl p), s') \<Longrightarrow> stack_panic udp p"
proof (induction obs arbitrary: pc s)
  case Nil
  then show ?case by simp
next
  case (Cons ob obs)
  show ?case
  proof (cases "task pc s ob")
    case (Pair x t)
    then have "bump_ok (ms_bump t)" using Cons.prems(1) task_rel by (auto simp: stack_rel_def)
    with Pair Cons show ?thesis by (cases x) (auto dest: task_panic)
  qed
qed

lemma driven:
  assumes "driver_contract drv"
  shows "arena_task (drv task) udp"
proof
  fix pc s ob
  from assms have cs: "drv task pc s ob = task pc s ob \<or> drv task pc s ob = (Inr pc, s) \<or>
      (\<exists>r. drv task pc s ob = (Inl (Inr r), s))"
    by (simp add: driver_contract_def)
  show "stack_rel s s'" if "drv task pc s ob = (r, s')" for r s'
    using cs that task_rel [of pc s ob r s'] by auto
  show "stack_panic udp p" if "bump_ok (ms_bump s)" "drv task pc s ob = (Inl (Inl p), s')" for p s'
    using cs that task_panic [of s pc ob p s'] by auto
qed

text \<open>The guard, the transport reset and the future of the task around a task.\<close>

lemma guarded: "arena_task (guarded_run T task start) udp"
proof
  fix pc s ob
  show "stack_rel s s'" if "guarded_run T task start pc s ob = (r, s')" for r s'
    using that by (cases pc) (auto split: sum.splits prod.splits dest: stack_alloc_rel task_rel)
  show "stack_panic udp p"
    if "bump_ok (ms_bump s)" "guarded_run T task start pc s ob = (Inl (Inl p), s')" for p s'
    using that
    by (cases pc) (auto split: sum.splits prod.splits dest: stack_alloc_oom task_panic intro: stack_panic_intros)
qed

end

text \<open>A stack between two calls.\<close>

definition stack_ready :: "('m, 'b, 'i, 'n) mstack \<Rightarrow> bool" where
  "stack_ready s \<longleftrightarrow>
     bump_ok (ms_bump s) \<and> b_offset (ms_bump s) = 0 \<and> hydration_ok (ms_hydration s)"

text \<open>Other device attestation data may be set between two calls.\<close>

lemma replace_dev_att_ready [simp]:
  "stack_ready (replace_dev_att f d s) = stack_ready s" "stack_rel s (replace_dev_att f d s)"
  by (simp_all add: stack_ready_def stack_rel_def replace_dev_att_def)

lemma drop_guard_ready:
  assumes "stack_ready s" and "stack_rel s s'"
  shows "stack_ready (drop_guard s')" and "stack_rel s (drop_guard s')"
  using assms bump_reset_ok [of "ms_bump s'"]
  by (auto simp: stack_ready_def stack_rel_def drop_guard_def) (simp_all add: bump_reset_def)

context arena_task
begin

lemma call_ready:
  assumes "stack_ready s" and "call_run (guarded_run T task start) s obs = (r, s')"
  shows "stack_ready s' \<and> stack_rel s s' \<and> (\<forall>p. r = Some (Inl p) \<longrightarrow> stack_panic udp p)"
proof -
  obtain x t where f: "run_future (guarded_run T task start) Run_Start s obs = (x, t)"
    by fastforce
  from arena_task.future_rel [OF guarded f] have rel: "stack_rel s t" .
  have panic: "stack_panic udp p" if "x = Inl (Inl p)" for p
    using arena_task.future_panic [OF guarded, of s T start Run_Start obs p t] assms(1) f that
    by (simp add: stack_ready_def)
  from assms(2) f have "s' = drop_guard t" and "r = (case x of Inl y \<Rightarrow> Some y | Inr _ \<Rightarrow> None)"
    by (auto simp: call_run_def split: sum.splits)
  with drop_guard_ready [OF assms(1) rel] panic show ?thesis by (auto split: sum.splits)
qed

end

section \<open>The tasks of the code\<close>

lemma run_im_bump_rel:
  assumes "run_im_with_bump ly F sel im s ob = (r, im', s')"
  shows "stack_rel s s'"
proof -
  obtain x j h where im: "run_im sel im (ms_hydration s) (ob_im (so_obs ob)) = (x, j, h)"
    by (rule prod_cases3)
  let ?s = "s\<lparr>ms_hydration := h\<rparr>"
  have rel: "stack_rel s ?s" using run_im_ok [OF im] by (simp add: stack_rel_def)
  from assms im have "s' = ?s \<or> stack_alloc (sites_reached ly F ob) ?s = Inr s'"
    by (auto simp: run_im_with_bump_def Let_def split: if_splits sum.splits)
  with rel show ?thesis by (auto dest: stack_alloc_rel intro: stack_rel_trans)
qed

lemma run_im_bump_oom:
  assumes "bump_ok (ms_bump s)" and "run_im_with_bump ly F sel im s ob = (Inl p, im', s')"
  shows "p = Out_Of_Bump_Memory"
  using assms stack_alloc_oom [of "s\<lparr>ms_hydration := _\<rparr>"]
  by (auto simp: run_im_with_bump_def Let_def split: prod.splits if_splits sum.splits)

interpretation eth_arena: arena_task "eth_stack_task ly F env" "we_udp env" for ly F env
proof
  fix pc s ob
  show "stack_rel s s'" if "eth_stack_task ly F env pc s ob = (r, s')" for r s'
    using that
    by (auto simp: eth_stack_task_def Let_def split: eth_stack_pc.splits option.splits sum.splits prod.splits
        if_splits dest: stack_alloc_rel run_im_bump_rel)
  show "stack_panic (we_udp env) p"
    if "bump_ok (ms_bump s)" "eth_stack_task ly F env pc s ob = (Inl (Inl p), s')" for p s'
    using that
    by (auto simp: eth_stack_task_def Let_def split: eth_stack_pc.splits option.splits sum.splits prod.splits
        if_splits dest: poll_nets_udp stack_alloc_oom run_im_bump_oom intro: stack_panic_intros)
qed

interpretation wifi_coex_arena: arena_task "wifi_coex_stack_task ly F env" "we_udp env" for ly F env
proof
  fix pc s ob
  show "stack_rel s s'" if "wifi_coex_stack_task ly F env pc s ob = (r, s')" for r s'
    using that
    by (auto simp: wifi_coex_stack_task_def Let_def split: coex_stack_pc.splits option.splits sum.splits
        prod.splits if_splits dest: stack_alloc_rel run_im_bump_rel)
  show "stack_panic (we_udp env) p"
    if "bump_ok (ms_bump s)" "wifi_coex_stack_task ly F env pc s ob = (Inl (Inl p), s')" for p s'
    using that
    by (auto simp: wifi_coex_stack_task_def Let_def split: coex_stack_pc.splits option.splits sum.splits
        prod.splits if_splits dest: poll_nets_udp stack_alloc_oom run_im_bump_oom intro: stack_panic_intros)
qed

lemma thread_coex_stack_is_wifi: "thread_coex_stack_task = wifi_coex_stack_task"
  by (intro ext) (simp add: thread_coex_stack_task_def wifi_coex_stack_task_def)

interpretation thread_coex_arena: arena_task "thread_coex_stack_task ly F env" "we_udp env" for ly F env
  unfolding thread_coex_stack_is_wifi by unfold_locales

lemma run_wifi_hydration:
  "hydration_ok (wl_hydration w) \<Longrightarrow> run_wifi env w ob = Inr w' \<Longrightarrow> hydration_ok (wl_hydration w')"
  by (cases "wl_pc w")
    (auto simp: run_wifi_cases run_wifi_defs Let_def ended_hydration_def
      split: if_splits option.splits sum.splits prod.splits dest: run_im_ok)

lemma im_ended_hydration:
  "hydration_ok (wl_hydration w) \<Longrightarrow> hydration_ok (wl_hydration (im_ended env im w ob))"
  by (simp add: im_ended_def ended_hydration_def run_im_hydration startup_im_ok)

lemma wl_ended_hydration:
  "hydration_ok (wl_hydration w) \<Longrightarrow> hydration_ok (wl_hydration (wl_ended env w ob))"
  by (simp add: wl_ended_def Let_def im_ended_hydration split: wl_pc.split)

lemma wl_put_rel: "hydration_ok (ms_hydration s) \<longrightarrow> hydration_ok (wl_hydration w) \<Longrightarrow> stack_rel s (wl_put w s)"
  by (simp add: stack_rel_def wl_put_def)

lemma wl_get_hydration [simp]: "wl_hydration (wl_get pc s) = ms_hydration s"
  by (simp add: wl_get_def)

lemma wl_put_bump [simp]: "ms_bump (wl_put w s) = ms_bump s"
  by (simp add: wl_put_def)

text \<open>The tasks over Wifi and over Thread differ in the run they make the steps of.\<close>

definition wl_stack_task where
  "wl_stack_task run ly env pc s ob =
     (let w = wl_get (fst pc) s
      in case poll_phase_nets env (wl_pc w) (snd pc) ob of
           Inl p \<Rightarrow> (Inl (Inl p), wl_put (apply_update (so_obs ob) w) s)
         | Inr (net, mdns, n) \<Rightarrow>
             (let ob' = (so_obs ob)\<lparr>ob_oper_net := net, ob_mdns := mdns\<rparr>
              in case run env w ob' of
                   Inl r \<Rightarrow> (Inl (Inr r), wl_put (wl_ended env w ob') s)
                 | Inr w' \<Rightarrow>
                     (let s' = wl_put w' s; pc' = ((wl_pc w', wl_ctl w'), n)
                      in if wl_pc w = Ble_Start
                         then (case stack_alloc [ly_btp ly] s' of
                                 Inl p \<Rightarrow> (Inl (Inl p), s')
                               | Inr s'' \<Rightarrow> (Inr pc', s''))
                         else (Inr pc', s'))))"

lemma wifi_stack_task_wl: "wifi_stack_task = wl_stack_task run_wifi"
  by (intro ext) (simp add: wifi_stack_task_def wl_stack_task_def)

lemma thread_stack_task_wl: "thread_stack_task = wl_stack_task run_thread"
  by (intro ext) (simp add: thread_stack_task_def wl_stack_task_def)

text \<open>What a step of the task comes to: a panic of its network tasks, or a step of the phases.\<close>

definition phase_obs where
  "phase_obs ob net mdns = (so_obs ob)\<lparr>ob_oper_net := net, ob_mdns := mdns\<rparr>"

lemma wl_stack_cases [consumes 1, case_names net_panic ended no_memory pending]:
  assumes "wl_stack_task run ly env pc s ob = (r, s')"
  obtains p where "poll_phase_nets env (fst (fst pc)) (snd pc) ob = Inl p" "r = Inl (Inl p)"
      "s' = wl_put (apply_update (so_obs ob) (wl_get (fst pc) s)) s"
  | net mdns n x where "poll_phase_nets env (fst (fst pc)) (snd pc) ob = Inr (net, mdns, n)"
      "run env (wl_get (fst pc) s) (phase_obs ob net mdns) = Inl x" "r = Inl (Inr x)"
      "s' = wl_put (wl_ended env (wl_get (fst pc) s) (phase_obs ob net mdns)) s"
  | net mdns n w p where "poll_phase_nets env (fst (fst pc)) (snd pc) ob = Inr (net, mdns, n)"
      "run env (wl_get (fst pc) s) (phase_obs ob net mdns) = Inr w" "fst (fst pc) = Ble_Start"
      "stack_alloc [ly_btp ly] (wl_put w s) = Inl p" "r = Inl (Inl p)" "s' = wl_put w s"
  | net mdns n w where "poll_phase_nets env (fst (fst pc)) (snd pc) ob = Inr (net, mdns, n)"
      "run env (wl_get (fst pc) s) (phase_obs ob net mdns) = Inr w"
      "r = Inr ((wl_pc w, wl_ctl w), n)"
      "if fst (fst pc) = Ble_Start then stack_alloc [ly_btp ly] (wl_put w s) = Inr s' else s' = wl_put w s"
proof -
  have pc: "wl_pc (wl_get (fst pc) s) = fst (fst pc)" by (simp add: wl_get_def)
  note def = assms [unfolded wl_stack_task_def Let_def pc]
  show thesis
  proof (cases "poll_phase_nets env (fst (fst pc)) (snd pc) ob")
    case (Inl p)
    with def that(1) show thesis by simp
  next
    case nets: (Inr x)
    obtain net mdns n where x: "x = (net, mdns, n)" by (rule prod_cases3)
    note def = def [unfolded nets x, simplified, folded phase_obs_def]
    show thesis
    proof (cases "run env (wl_get (fst pc) s) (phase_obs ob net mdns)")
      case (Inl y)
      with def that(2) nets x show thesis by simp
    next
      case (Inr w)
      with def that(3,4) nets x show thesis by (auto split: if_splits sum.splits)
    qed
  qed
qed

lemma wl_stack_rel:
  assumes step: "\<And>w ob w'. hydration_ok (wl_hydration w) \<Longrightarrow> run env w ob = Inr w' \<Longrightarrow>
      hydration_ok (wl_hydration w')"
    and task: "wl_stack_task run ly env pc s ob = (r, s')"
  shows "stack_rel s s'"
proof -
  have put: "stack_rel s (wl_put w s)" if "run env (wl_get (fst pc) s) ob' = Inr w" for w ob'
    using step [OF _ that] by (intro wl_put_rel) simp
  from task show ?thesis
  proof (cases rule: wl_stack_cases)
    case (net_panic p)
    then show ?thesis by (auto intro!: wl_put_rel)
  next
    case (ended net mdns n x)
    then show ?thesis by (auto intro!: wl_put_rel wl_ended_hydration)
  next
    case (no_memory net mdns n w p)
    with put show ?thesis by simp
  next
    case (pending net mdns n w)
    from pending(4) put [OF pending(2)] show ?thesis
      by (auto split: if_splits dest: stack_alloc_rel intro: stack_rel_trans)
  qed
qed

lemma wl_stack_panic:
  assumes "bump_ok (ms_bump s)" and task: "wl_stack_task run ly env pc s ob = (Inl (Inl p), s')"
  shows "stack_panic (we_udp env) p"
  using task
proof (cases rule: wl_stack_cases)
  case (net_panic q)
  then show ?thesis by (auto intro: stack_panic_intros phase_nets_udp)
next
  case (no_memory net mdns n w q)
  with assms(1) stack_alloc_oom [of "wl_put w s"] show ?thesis by (auto intro: stack_panic_intros)
qed simp_all

lemma run_thread_hydration:
  "hydration_ok (wl_hydration w) \<Longrightarrow> run_thread env w ob = Inr w' \<Longrightarrow> hydration_ok (wl_hydration w')"
  by (cases "wl_pc w")
    (auto simp: run_thread_def run_thread_defs Let_def ended_hydration_def
      split: if_splits option.splits sum.splits prod.splits dest: run_im_ok)

interpretation wifi_arena: arena_task "wifi_stack_task ly env" "we_udp env" for ly env
  unfolding wifi_stack_task_wl
  by unfold_locales (rule wl_stack_rel, rule run_wifi_hydration, assumption+, rule wl_stack_panic)

interpretation thread_arena: arena_task "thread_stack_task ly env" "we_udp env" for ly env
  unfolding thread_stack_task_wl
  by unfold_locales (rule wl_stack_rel, rule run_thread_hydration, assumption+, rule wl_stack_panic)

section \<open>Sequences of calls\<close>

locale call_system =
  fixes call :: "'c \<Rightarrow> ('m, 'b, 'i, 'n) mstack \<Rightarrow> run_end option \<times> ('m, 'b, 'i, 'n) mstack"
    and udp :: bool
  assumes call_safe: "stack_ready s \<Longrightarrow> call c s = (r, s') \<Longrightarrow>
    stack_ready s' \<and> stack_rel s s' \<and> (\<forall>p. r = Some (Inl p) \<longrightarrow> stack_panic udp p)"
begin

lemma calls_safe:
  "stack_ready s \<Longrightarrow> calls call s cs = (rs, s') \<Longrightarrow>
   stack_ready s' \<and> stack_rel s s' \<and> (\<forall>p. Some (Inl p) \<in> set rs \<longrightarrow> stack_panic udp p)"
proof (induction cs arbitrary: s rs)
  case Nil
  then show ?case by simp
next
  case (Cons c cs)
  obtain r t where c: "call c s = (r, t)" by fastforce
  obtain qs where cs: "calls call t cs = (qs, s')" and rs: "rs = r # qs"
    using Cons.prems(2) c by (auto split: prod.splits)
  from call_safe [OF Cons.prems(1) c] have t: "stack_ready t" "stack_rel s t"
    "\<forall>p. r = Some (Inl p) \<longrightarrow> stack_panic udp p" by auto
  from Cons.IH [OF t(1) cs] t rs show ?case by (auto intro: stack_rel_trans)
qed

end

lemma eth_call_system: "driver_contract ethernet \<Longrightarrow> call_system (eth_call ethernet ly F env) (we_udp env)"
  using arena_task.call_ready [OF eth_arena.driven, of ethernet]
  by unfold_locales (simp add: eth_call_def eth_run_def run_ethernet_def)

lemma wifi_call_system: "driver_contract wifi \<Longrightarrow> call_system (wifi_call wifi ly F env) (we_udp env)"
  using arena_task.call_ready [OF wifi_coex_arena.driven, of wifi] wifi_arena.call_ready
  by unfold_locales
    (simp add: wifi_call_def wifi_run_coex_def run_wifi_coex_def wifi_run_def split: wireless_call.splits)

lemma thread_call_system: "driver_contract thread \<Longrightarrow> call_system (thread_call thread ly F env) (we_udp env)"
  using arena_task.call_ready [OF thread_coex_arena.driven, of thread] thread_arena.call_ready
  by unfold_locales
    (simp add: thread_call_def thread_run_coex_def run_thread_coex_def thread_run_def
      split: wireless_call.splits)

lemma preexisting_contract:
  "driver_contract preex_ethernet" "driver_contract preex_wireless"
  by (simp_all add: driver_contract_def preex_ethernet_def preex_wireless_def)

interpretation eth_preex: call_system "eth_call preex_ethernet ly F env" "we_udp env" for ly F env
  by (rule eth_call_system [OF preexisting_contract(1)])

interpretation wifi_preex: call_system "wifi_call preex_wireless ly F env" "we_udp env" for ly F env
  by (rule wifi_call_system [OF preexisting_contract(2)])

interpretation thread_preex: call_system "thread_call preex_wireless ly F env" "we_udp env" for ly F env
  by (rule thread_call_system [OF preexisting_contract(2)])

section \<open>Runs that always fit\<close>

lemma total_need_append:
  "total_need (Ts @ Us) a = total_need Ts a + total_need Us (a + total_need Ts a)"
  by (induction Ts arbitrary: a) (simp_all add: add.assoc)

lemma stack_alloc_at:
  assumes "bump_ok (ms_bump s)" and "b_offset (ms_bump s) = total_need As (b_base (ms_bump s))"
    and "total_need (As @ Bs @ Cs) (b_base (ms_bump s)) \<le> b_size (ms_bump s)"
  obtains s' where "stack_alloc Bs s = Inr s'" and "bump_ok (ms_bump s')"
    and "b_offset (ms_bump s') = total_need (As @ Bs) (b_base (ms_bump s'))"
    and "b_base (ms_bump s') = b_base (ms_bump s)" and "b_size (ms_bump s') = b_size (ms_bump s)"
proof -
  let ?b = "ms_bump s"
  let ?s = "s\<lparr>ms_bump := ?b\<lparr>b_offset := total_need (As @ Bs) (b_base ?b)\<rparr>\<rparr>"
  have le: "total_need (As @ Bs) (b_base ?b) \<le> b_size ?b"
    using assms(3) unfolding append_assoc [symmetric] total_need_append [of "As @ Bs"] by simp
  then have "stack_alloc Bs s = Inr ?s"
    using assms(1,2) by (simp add: stack_alloc_fits Let_def total_need_append)
  moreover have "bump_ok (ms_bump ?s)" using assms(1) le by (simp add: bump_ok_def)
  ultimately show thesis by (intro that [of ?s]) simp_all
qed

locale bounded_task =
  fixes task :: "('pc, ('m, 'b, 'i, 'n) mstack, ('q, 'st) stack_obs) stack_task"
    and fit :: "'pc \<Rightarrow> ('m, 'b, 'i, 'n) mstack \<Rightarrow> bool"
    and enough :: "nat \<Rightarrow> nat"
    and udp :: bool
  assumes task_arena: "task pc s ob = (r, s') \<Longrightarrow> stack_rel s s'"
    and task_fits: "fit pc s \<Longrightarrow> enough (b_base (ms_bump s)) \<le> b_size (ms_bump s) \<Longrightarrow>
      task pc s ob = (r, s') \<Longrightarrow>
      (\<forall>p. r = Inl (Inl p) \<longrightarrow> udp_panic udp p) \<and> (\<forall>pc'. r = Inr pc' \<longrightarrow> fit pc' s')"
begin

lemma future_fits:
  "fit pc s \<Longrightarrow> enough (b_base (ms_bump s)) \<le> b_size (ms_bump s) \<Longrightarrow>
   run_future task pc s obs = (r, s') \<Longrightarrow> \<forall>p. r = Inl (Inl p) \<longrightarrow> udp_panic udp p"
proof (induction obs arbitrary: pc s)
  case Nil
  then show ?case by auto
next
  case (Cons ob obs)
  obtain x t where st: "task pc s ob = (x, t)" by fastforce
  note f = task_fits [OF Cons.prems(1,2) st]
  show ?case
  proof (cases x)
    case (Inl y)
    with f st Cons.prems(3) show ?thesis by auto
  next
    case (Inr pc')
    with f have "fit pc' t" by simp
    moreover have "enough (b_base (ms_bump t)) \<le> b_size (ms_bump t)"
      using task_arena [OF st] Cons.prems(2) by (simp add: stack_rel_def)
    moreover have "run_future task pc' t obs = (r, s')" using st Inr Cons.prems(3) by simp
    ultimately show ?thesis by (rule Cons.IH)
  qed
qed

lemma fits_driven:
  assumes "driver_contract drv"
  shows "bounded_task (drv task) fit enough udp"
proof
  fix pc s ob
  from assms have cs: "drv task pc s ob = task pc s ob \<or> drv task pc s ob = (Inr pc, s) \<or>
      (\<exists>r. drv task pc s ob = (Inl (Inr r), s))"
    by (simp add: driver_contract_def)
  show "stack_rel s s'" if "drv task pc s ob = (r, s')" for r s'
    using cs that task_arena [of pc s ob r s'] by auto
  show "(\<forall>p. r = Inl (Inl p) \<longrightarrow> udp_panic udp p) \<and> (\<forall>pc'. r = Inr pc' \<longrightarrow> fit pc' s')"
    if "fit pc s" "enough (b_base (ms_bump s)) \<le> b_size (ms_bump s)" "drv task pc s ob = (r, s')"
    for r s'
    using cs
  proof (elim disjE exE)
    assume "drv task pc s ob = task pc s ob"
    with that task_fits show ?thesis by metis
  next
    assume "drv task pc s ob = (Inr pc, s)"
    with that(3) have "r = Inr pc" and "s' = s" by simp_all
    with that(1) show ?thesis by simp
  next
    fix x assume "drv task pc s ob = (Inl (Inr x), s)"
    with that(3) have "r = Inl (Inr x)" by simp
    then show ?thesis by simp
  qed
qed

lemma fits_guarded:
  assumes start_fit: "\<And>s. bump_ok (ms_bump s) \<Longrightarrow>
      b_offset (ms_bump s) = total_need [T] (b_base (ms_bump s)) \<Longrightarrow> fit start s"
    and first: "\<And>a. total_need [T] a \<le> enough a"
  shows "bounded_task (guarded_run T task start)
    (\<lambda>pc s. case pc of Run_Start \<Rightarrow> bump_ok (ms_bump s) \<and> b_offset (ms_bump s) = 0
                    | Run_Task pc \<Rightarrow> fit pc s) enough udp"
proof
  fix pc s ob r s'
  assume run: "guarded_run T task start pc s ob = (r, s')"
  then show "stack_rel s s'"
    by (cases pc) (auto split: sum.splits prod.splits dest: stack_alloc_rel task_arena)
  assume fit: "case pc of Run_Start \<Rightarrow> bump_ok (ms_bump s) \<and> b_offset (ms_bump s) = 0
      | Run_Task pc \<Rightarrow> fit pc s"
    and le: "enough (b_base (ms_bump s)) \<le> b_size (ms_bump s)"
  show "(\<forall>p. r = Inl (Inl p) \<longrightarrow> udp_panic udp p) \<and> (\<forall>pc'. r = Inr pc' \<longrightarrow>
      (case pc' of Run_Start \<Rightarrow> bump_ok (ms_bump s') \<and> b_offset (ms_bump s') = 0
       | Run_Task pc \<Rightarrow> fit pc s'))"
  proof (cases pc)
    case Run_Start
    with fit have "bump_ok (ms_bump s)" and "b_offset (ms_bump s) = total_need [] (b_base (ms_bump s))"
      by simp_all
    moreover have "total_need ([] @ [T] @ []) (b_base (ms_bump s)) \<le> b_size (ms_bump s)"
      using first [of "b_base (ms_bump s)"] le by simp
    ultimately obtain t where "stack_alloc [T] s = Inr t" and "bump_ok (ms_bump t)"
      and "b_offset (ms_bump t) = total_need ([] @ [T]) (b_base (ms_bump t))"
      by (rule stack_alloc_at)
    moreover from this have "fit start t" by (intro start_fit) simp_all
    ultimately show ?thesis using run Run_Start by (auto split: sum.splits)
  next
    case (Run_Task pc0)
    with fit le run task_fits [of pc0 s ob] show ?thesis by (auto split: sum.splits prod.splits)
  qed
qed

lemma call_fits:
  assumes "\<And>s. bump_ok (ms_bump s) \<Longrightarrow>
      b_offset (ms_bump s) = total_need [T] (b_base (ms_bump s)) \<Longrightarrow> fit start s"
    and "\<And>a. total_need [T] a \<le> enough a"
    and "stack_ready s" and "enough (b_base (ms_bump s)) \<le> b_size (ms_bump s)"
    and "call_run (guarded_run T task start) s obs = (r, s')"
  shows "r = Some (Inl p) \<Longrightarrow> udp_panic udp p"
proof -
  assume r: "r = Some (Inl p)"
  obtain x t where f: "run_future (guarded_run T task start) Run_Start s obs = (x, t)" by fastforce
  have "\<forall>p. x = Inl (Inl p) \<longrightarrow> udp_panic udp p"
    using assms(3,4) f
    by (intro bounded_task.future_fits [OF fits_guarded [OF assms(1,2)] _ _ f])
      (auto simp: stack_ready_def)
  with assms(5) f r show "udp_panic udp p" by (auto simp: call_run_def split: sum.splits)
qed

end

text \<open>Where the offset stands while a task runs; once the interaction model runs nothing follows.\<close>

definition eth_fit :: "layouts \<Rightarrow> eth_stack_pc \<Rightarrow> ('m, 'b, 'i, 'n) mstack \<Rightarrow> bool" where
  "eth_fit ly pc s \<longleftrightarrow> bump_ok (ms_bump s) \<and>
     (case pc of
        Eth_Begin \<Rightarrow> b_offset (ms_bump s) = total_need [ly_run ly] (b_base (ms_bump s))
      | Eth_Tasks _ im \<Rightarrow> im \<noteq> Im_Running \<longrightarrow> b_offset (ms_bump s) =
          total_need [ly_run ly, ly_net ly, ly_mdns ly, ly_im ly, ly_user ly] (b_base (ms_bump s)))"

definition coex_fit :: "layouts \<Rightarrow> coex_stack_pc \<Rightarrow> ('m, 'b, 'i, 'n) mstack \<Rightarrow> bool" where
  "coex_fit ly pc s \<longleftrightarrow> bump_ok (ms_bump s) \<and>
     (case pc of
        Coex_Begin \<Rightarrow> b_offset (ms_bump s) = total_need [ly_run ly] (b_base (ms_bump s))
      | Coex_Tasks _ _ im \<Rightarrow> im \<noteq> Im_Running \<longrightarrow> b_offset (ms_bump s) =
          total_need [ly_run ly, ly_net ly, ly_im ly, ly_user ly, ly_btp ly, ly_oper_net ly, ly_mdns ly]
            (b_base (ms_bump s)))"

lemma im_bump_fits:
  assumes "bump_ok (ms_bump s)"
    and "im \<noteq> Im_Running \<longrightarrow> b_offset (ms_bump s) = total_need As (b_base (ms_bump s))"
    and "total_need (As @ im_sites ly F) (b_base (ms_bump s)) \<le> b_size (ms_bump s)"
    and "run_im_with_bump ly F sel im s ob = (r, im', s')"
  shows "(\<forall>p. r \<noteq> Inl p) \<and> bump_ok (ms_bump s') \<and>
    (im' \<noteq> Im_Running \<longrightarrow> b_offset (ms_bump s') = total_need As (b_base (ms_bump s')))"
proof -
  obtain x j h where im: "run_im sel im (ms_hydration s) (ob_im (so_obs ob)) = (x, j, h)"
    by (rule prod_cases3)
  let ?s = "s\<lparr>ms_hydration := h\<rparr>"
  show ?thesis
  proof (cases "im \<noteq> Im_Running \<and> j = Im_Running")
    case True
    have "\<exists>Us. im_sites ly F = sites_reached ly F ob @ Us"
      by (auto simp: sites_reached_def split: option.split intro: append_take_drop_id [symmetric])
    then obtain Us where "im_sites ly F = sites_reached ly F ob @ Us" ..
    with True assms(1-3) obtain t where "stack_alloc (sites_reached ly F ob) ?s = Inr t"
      and "bump_ok (ms_bump t)"
      by (auto intro: stack_alloc_at [of ?s As "sites_reached ly F ob" Us])
    with True im assms(4) show ?thesis by (auto simp: run_im_with_bump_def)
  next
    case False
    have "im' = j" and "s' = ?s" and "r = Inr x"
      using False im assms(4) by (auto simp: run_im_with_bump_def)
    moreover have "im = Im_Running \<Longrightarrow> j = Im_Running"
      using im by (auto simp: poll_im_running_def)
    ultimately show ?thesis using assms(1,2) False by auto
  qed
qed

lemma eth_fit_simps:
  "eth_fit ly Eth_Begin s \<longleftrightarrow> bump_ok (ms_bump s) \<and>
     b_offset (ms_bump s) = total_need [ly_run ly] (b_base (ms_bump s))"
  "eth_fit ly (Eth_Tasks n im) s \<longleftrightarrow> bump_ok (ms_bump s) \<and>
     (im \<noteq> Im_Running \<longrightarrow> b_offset (ms_bump s) =
        total_need [ly_run ly, ly_net ly, ly_mdns ly, ly_im ly, ly_user ly] (b_base (ms_bump s)))"
  by (simp_all add: eth_fit_def)

lemma coex_fit_simps:
  "coex_fit ly Coex_Begin s \<longleftrightarrow> bump_ok (ms_bump s) \<and>
     b_offset (ms_bump s) = total_need [ly_run ly] (b_base (ms_bump s))"
  "coex_fit ly (Coex_Tasks n g im) s \<longleftrightarrow> bump_ok (ms_bump s) \<and>
     (im \<noteq> Im_Running \<longrightarrow> b_offset (ms_bump s) =
        total_need [ly_run ly, ly_net ly, ly_im ly, ly_user ly, ly_btp ly, ly_oper_net ly, ly_mdns ly]
          (b_base (ms_bump s)))"
  by (simp_all add: coex_fit_def)

lemma eth_task_fits:
  assumes run: "eth_stack_task ly F env pc s ob = (r, s')" and fit: "eth_fit ly pc s"
    and le: "total_need (eth_sites ly F) (b_base (ms_bump s)) \<le> b_size (ms_bump s)"
  shows "(\<forall>p. r = Inl (Inl p) \<longrightarrow> udp_panic (we_udp env) p) \<and> (\<forall>pc'. r = Inr pc' \<longrightarrow> eth_fit ly pc' s')"
proof (cases pc)
  case Eth_Begin
  have sites: "eth_sites ly F = [ly_run ly] @ [ly_net ly, ly_mdns ly, ly_im ly, ly_user ly] @ im_sites ly F"
    by (simp add: eth_sites_def)
  from fit Eth_Begin have "bump_ok (ms_bump s)"
    and "b_offset (ms_bump s) = total_need [ly_run ly] (b_base (ms_bump s))"
    by (simp_all only: eth_fit_simps)
  from stack_alloc_at [OF this le [unfolded sites]] obtain t where
    al: "stack_alloc [ly_net ly, ly_mdns ly, ly_im ly, ly_user ly] s = Inr t"
    and t: "bump_ok (ms_bump t)"
      "b_offset (ms_bump t) = total_need ([ly_run ly] @ [ly_net ly, ly_mdns ly, ly_im ly, ly_user ly])
         (b_base (ms_bump t))" .
  from t have "eth_fit ly (Eth_Tasks nets_new Im_Start) t" unfolding eth_fit_simps by simp
  with run Eth_Begin al show ?thesis by (auto simp: eth_stack_task_def split: option.splits)
next
  case (Eth_Tasks n im)
  let ?As = "[ly_run ly, ly_net ly, ly_mdns ly, ly_im ly, ly_user ly]"
  have sites: "eth_sites ly F = ?As @ im_sites ly F" by (simp add: eth_sites_def)
  obtain x im' t where im: "run_im_with_bump ly F (we_select env) im s ob = (x, im', t)"
    by (rule prod_cases3)
  from fit [unfolded Eth_Tasks eth_fit_simps] im_bump_fits [OF _ _ le [unfolded sites] im]
  have "\<forall>p. x \<noteq> Inl p" and "eth_fit ly (Eth_Tasks n' im') t" for n'
    unfolding eth_fit_simps by blast+
  with run im Eth_Tasks show ?thesis
    by (auto simp: eth_stack_task_def Let_def split: if_splits option.splits sum.splits dest: poll_nets_udp)
qed

interpretation eth_bounded:
  bounded_task "eth_stack_task ly F env" "eth_fit ly" "total_need (eth_sites ly F)" "we_udp env" for ly F env
  by unfold_locales (rule eth_arena.task_rel, assumption, rule eth_task_fits)

lemma coex_task_fits:
  assumes run: "wifi_coex_stack_task ly F env pc s ob = (r, s')" and fit: "coex_fit ly pc s"
    and le: "total_need (coex_sites ly F) (b_base (ms_bump s)) \<le> b_size (ms_bump s)"
  shows "(\<forall>p. r = Inl (Inl p) \<longrightarrow> udp_panic (we_udp env) p) \<and> (\<forall>pc'. r = Inr pc' \<longrightarrow> coex_fit ly pc' s')"
proof (cases pc)
  case Coex_Begin
  let ?Bs = "[ly_net ly, ly_im ly, ly_user ly, ly_btp ly, ly_oper_net ly, ly_mdns ly]"
  have sites: "coex_sites ly F = [ly_run ly] @ ?Bs @ im_sites ly F"
    by (simp add: coex_sites_def)
  from fit Coex_Begin have "bump_ok (ms_bump s)"
    and "b_offset (ms_bump s) = total_need [ly_run ly] (b_base (ms_bump s))"
    by (simp_all only: coex_fit_simps)
  from stack_alloc_at [OF this le [unfolded sites]] obtain t where
    al: "stack_alloc ?Bs s = Inr t" and t: "bump_ok (ms_bump t)"
      "b_offset (ms_bump t) = total_need ([ly_run ly] @ ?Bs) (b_base (ms_bump t))" .
  from t have "coex_fit ly (Coex_Tasks nets_new Gatt_Wait_Open Im_Start) t"
    unfolding coex_fit_simps by simp
  with run Coex_Begin al show ?thesis by (auto simp: wifi_coex_stack_task_def split: option.splits)
next
  case (Coex_Tasks n g im)
  let ?As = "[ly_run ly, ly_net ly, ly_im ly, ly_user ly, ly_btp ly, ly_oper_net ly, ly_mdns ly]"
  have sites: "coex_sites ly F = ?As @ im_sites ly F" by (simp add: coex_sites_def)
  obtain x im' t where im: "run_im_with_bump ly F (we_select env) im s ob = (x, im', t)"
    by (rule prod_cases3)
  from fit [unfolded Coex_Tasks coex_fit_simps] im_bump_fits [OF _ _ le [unfolded sites] im]
  have "\<forall>p. x \<noteq> Inl p" and "coex_fit ly (Coex_Tasks n' g' im') t" for n' g'
    unfolding coex_fit_simps by blast+
  with run im Coex_Tasks show ?thesis
    by (auto simp: wifi_coex_stack_task_def Let_def split: if_splits option.splits sum.splits dest: poll_nets_udp)
qed

interpretation wifi_coex_bounded:
  bounded_task "wifi_coex_stack_task ly F env" "coex_fit ly" "total_need (coex_sites ly F)" "we_udp env" for ly F env
  by unfold_locales (rule wifi_coex_arena.task_rel, assumption, rule coex_task_fits)

interpretation thread_coex_bounded:
  bounded_task "thread_coex_stack_task ly F env" "coex_fit ly" "total_need (coex_sites ly F)" "we_udp env" for ly F env
  unfolding thread_coex_stack_is_wifi by unfold_locales

end
