(* ===== verification/Calls_Spec.thy ===== *)
theory Calls_Spec
  imports Stack_Run_Spec
begin

text \<open>
  The properties of calls on a stack: calls that always have the memory they need, the arena of a
  run without coexistence that does run out, and the calls over Thread and Wifi, which are the same.
\<close>

section \<open>Sample stacks\<close>

definition unit_stack :: "nat \<Rightarrow> (unit, unit, unit, (unit, unit, unit, unit) wireless_ble) mstack" where
  "unit_stack N =
     \<lparr>ms_matter = (), ms_buffers = (), ms_state = (), ms_bump = bump_new 64 N,
      ms_hydration = hydration_new,
      ms_network = \<lparr>wb_btp = (), wb_net_state = blank, wb_networks = (), wb_embedding = ()\<rparr>\<rparr>"

text \<open>The network tasks with nothing to do: the socket is bound, no interface is up.\<close>

definition quiet_nets :: nets_obs where
  "quiet_nets =
     \<lparr>nb_net = \<lparr>on_bind = Some (Inr ()), on_transport = None\<rparr>,
      nb_netif = \<lparr>no_changed = False, no_netifs = ([], Inr ()), no_mdns = None, no_timer = False\<rparr>,
      nb_net_polled = True, nb_mdns_polled = True\<rparr>"

definition saw :: "(window, unit) wl_obs \<Rightarrow> (window, unit) stack_obs" where
  "saw ob = \<lparr>so_reset_transport = Inr (), so_obs = ob, so_sites = 0, so_nets = quiet_nets\<rparr>"

lemma unit_stack_ready: "N < 1000 \<Longrightarrow> stack_ready (unit_stack N)"
  using bump_new_ok [of 64 N]
  by (simp add: stack_ready_def unit_stack_def hydration_new_ok usize_max_def) (simp add: bump_new_def)

lemma ready_hydration: "stack_ready s \<Longrightarrow> im_startups (ms_hydration s) = (if im_hydrated (ms_hydration s) then 1 else 0)"
  by (simp add: stack_ready_def hydration_ok_def)

lemma coex_sites_bytes: "total_need (coex_sites byte_layouts F) a = 12 + max_responders F"
proof -
  have "set (coex_sites byte_layouts F) \<subseteq> {byte_layout}"
    and "length (coex_sites byte_layouts F) = 12 + max_responders F"
    by (auto simp: coex_sites_def im_sites_def byte_layouts_def max_busy_responders_def)
  with total_need_bytes show ?thesis by metis
qed

text \<open>A call cancelled after its first evaluation, one whose transport reset fails.\<close>

definition sample_calls :: "(window, unit) wireless_call list" where
  "sample_calls =
     [Call_Run [saw (quiet Open_Basic)],
      Call_Run_Coex [(saw (quiet Closed))\<lparr>so_reset_transport := Inl StdIoError\<rparr>]]"

section \<open>Calls that always have their memory\<close>

context call_system
begin

lemma calls_fit:
  assumes "\<And>c s r s'. c \<in> set cs \<Longrightarrow> stack_ready s \<Longrightarrow> enough (b_base (ms_bump s)) \<le> b_size (ms_bump s) \<Longrightarrow>
      call c s = (r, s') \<Longrightarrow> \<forall>p. r = Some (Inl p) \<longrightarrow> udp_panic udp p"
    and "stack_ready s" and "enough (b_base (ms_bump s)) \<le> b_size (ms_bump s)"
    and "calls call s cs = (rs, s')"
  shows "\<forall>p. Some (Inl p) \<in> set rs \<longrightarrow> udp_panic udp p"
  using assms
proof (induction cs arbitrary: s rs)
  case Nil
  then show ?case by simp
next
  case (Cons c cs)
  obtain r t where c: "call c s = (r, t)" by fastforce
  obtain qs where cs: "calls call t cs = (qs, s')" and rs: "rs = r # qs"
    using Cons.prems(4) c by (auto split: prod.splits)
  from call_safe [OF Cons.prems(2) c] have "stack_ready t"
    and "enough (b_base (ms_bump t)) \<le> b_size (ms_bump t)"
    using Cons.prems(3) by (auto simp: stack_rel_def)
  then have "\<forall>p. Some (Inl p) \<in> set qs \<longrightarrow> udp_panic udp p"
    by (intro Cons.IH [OF Cons.prems(1) [OF list.set_intros(2)] _ _ cs])
  moreover have "\<forall>p. r = Some (Inl p) \<longrightarrow> udp_panic udp p"
    using Cons.prems(1) [of c s r t] Cons.prems(2,3) c by simp
  ultimately show ?case by (auto simp: rs)
qed

end

lemma eth_call_fits:
  assumes "driver_contract ethernet" and "stack_ready s"
    and "total_need (eth_sites ly F) (b_base (ms_bump s)) \<le> b_size (ms_bump s)"
    and "eth_call ethernet ly F env obs s = (r, s')"
  shows "\<forall>p. r = Some (Inl p) \<longrightarrow> udp_panic (we_udp env) p"
  using assms(4) unfolding eth_call_def eth_run_def run_ethernet_def
  by (intro allI impI bounded_task.call_fits [OF eth_bounded.fits_driven [OF assms(1)] _ _ assms(2,3)])
    (auto simp: eth_fit_def eth_sites_def)

lemma wifi_coex_call_fits:
  assumes "driver_contract wifi" and "stack_ready s"
    and "total_need (coex_sites ly F) (b_base (ms_bump s)) \<le> b_size (ms_bump s)"
    and "wifi_call wifi ly F env (Call_Run_Coex obs) s = (r, s')"
  shows "\<forall>p. r = Some (Inl p) \<longrightarrow> udp_panic (we_udp env) p"
  using assms(4) unfolding wifi_call_def wifi_run_coex_def run_wifi_coex_def wireless_call.case
  by (intro allI impI bounded_task.call_fits [OF wifi_coex_bounded.fits_driven [OF assms(1)] _ _ assms(2,3)])
    (auto simp: coex_fit_def coex_sites_def)

lemma thread_coex_call_fits:
  assumes "driver_contract thread" and "stack_ready s"
    and "total_need (coex_sites ly F) (b_base (ms_bump s)) \<le> b_size (ms_bump s)"
    and "thread_call thread ly F env (Call_Run_Coex obs) s = (r, s')"
  shows "\<forall>p. r = Some (Inl p) \<longrightarrow> udp_panic (we_udp env) p"
  using assms(4) unfolding thread_call_def thread_run_coex_def run_thread_coex_def wireless_call.case
  by (intro allI impI bounded_task.call_fits [OF thread_coex_bounded.fits_driven [OF assms(1)] _ _ assms(2,3)])
    (auto simp: coex_fit_def coex_sites_def)

text \<open>
  C15. An arena that holds the allocations of one call with their padding is enough for ever:
  over Ethernet, and over Wifi and Thread with coexistence, no call panics over a network stack that
  offers UDP, however many there are and however they end; without UDP the only panic is the one of
  unwrapping it.
\<close>

theorem bounded_calls_panic_for_udp_only:
  assumes "driver_contract ethernet" and "driver_contract wifi" and "driver_contract thread"
    and "stack_ready s" and "stack_ready t"
    and "total_need (eth_sites ly F) (b_base (ms_bump s)) \<le> b_size (ms_bump s)"
    and "total_need (coex_sites ly F) (b_base (ms_bump t)) \<le> b_size (ms_bump t)"
    and "Some (Inl p) \<in> set (fst (calls (eth_call ethernet ly F env) s obss)) \<union>
      set (fst (calls (wifi_call wifi ly F env) t (map Call_Run_Coex obss))) \<union>
      set (fst (calls (thread_call thread ly F env) t (map Call_Run_Coex obss)))"
  shows "p = Unwrap_Failed \<and> \<not> we_udp env"
proof -
  obtain rs s' qs t' us u' where c: "calls (eth_call ethernet ly F env) s obss = (rs, s')"
    "calls (wifi_call wifi ly F env) t (map Call_Run_Coex obss) = (qs, t')"
    "calls (thread_call thread ly F env) t (map Call_Run_Coex obss) = (us, u')" by fastforce
  have "\<forall>p. Some (Inl p) \<in> set rs \<longrightarrow> udp_panic (we_udp env) p"
    using eth_call_fits [OF assms(1)]
    by (intro call_system.calls_fit [where enough = "total_need (eth_sites ly F)",
        OF eth_call_system [OF assms(1)] _ assms(4,6) c(1)]) blast
  moreover have "\<forall>p. Some (Inl p) \<in> set qs \<longrightarrow> udp_panic (we_udp env) p"
    by (intro call_system.calls_fit [where enough = "total_need (coex_sites ly F)",
        OF wifi_call_system [OF assms(2)] _ assms(5,7) c(2)])
      (auto dest: wifi_coex_call_fits [OF assms(2)])
  moreover have "\<forall>p. Some (Inl p) \<in> set us \<longrightarrow> udp_panic (we_udp env) p"
    by (intro call_system.calls_fit [where enough = "total_need (coex_sites ly F)",
        OF thread_call_system [OF assms(3)] _ assms(5,7) c(3)])
      (auto dest: thread_coex_call_fits [OF assms(3)])
  ultimately show ?thesis using assms(8) c by (auto simp: udp_panic_def)
qed

theorem bounded_calls_panic_for_udp_only_witness:
  "\<forall>obss p. Some (Inl p) \<notin>
     set (fst (calls (wifi_call preex_wireless byte_layouts {} sample_env) (unit_stack 16)
       (map Call_Run_Coex obss)))"
proof (intro allI notI)
  fix obss p
  let ?s = "unit_stack 16"
  assume "Some (Inl p) \<in> set (fst (calls (wifi_call preex_wireless byte_layouts {} sample_env) ?s
       (map Call_Run_Coex obss)))"
  then have p: "Some (Inl p) \<in> set (fst (calls (eth_call preex_ethernet byte_layouts {} sample_env) ?s obss)) \<union>
      set (fst (calls (wifi_call preex_wireless byte_layouts {} sample_env) ?s (map Call_Run_Coex obss))) \<union>
      set (fst (calls (thread_call preex_wireless byte_layouts {} sample_env) ?s (map Call_Run_Coex obss)))"
    by blast
  have r: "stack_ready ?s" by (rule unit_stack_ready) simp
  have e: "total_need (eth_sites byte_layouts {}) (b_base (ms_bump ?s)) \<le> b_size (ms_bump ?s)"
    by (simp add: total_need_bytes [OF byte_eth_sites(1)] byte_eth_sites(2) default_responders
        unit_stack_def bump_new_def)
  have c: "total_need (coex_sites byte_layouts {}) (b_base (ms_bump ?s)) \<le> b_size (ms_bump ?s)"
    by (simp add: coex_sites_bytes default_responders unit_stack_def bump_new_def)
  from bounded_calls_panic_for_udp_only [OF preexisting_contract(1,2,2) r r e c p]
  show False by (simp add: sample_env_def)
qed

section \<open>The arena of a run without coexistence\<close>

text \<open>
  One round of the phase loop: a window opens, its BLE phase begins, the window is gone, the
  operational phase begins and goes on until the next window.
\<close>

definition idle_obs :: "'q \<Rightarrow> ('q, 'st) stack_obs" where
  "idle_obs q =
     \<lparr>so_reset_transport = Inr (),
      so_obs = \<lparr>ob_window = q, ob_net_update = None, ob_rand = None, ob_peripheral = None,
        ob_btp_net = None, ob_timer = False, ob_connect = None, ob_oper_net = None, ob_mdns = None,
        ob_user = None,
        ob_im = \<lparr>io_startup = Some (Inr ()), io_responder = None, io_run = None\<rparr>,
        ob_im_polled = True\<rparr>,
      so_sites = 0, so_nets = quiet_nets\<rparr>"

definition window_round :: "'q \<Rightarrow> 'q \<Rightarrow> ('q, 'st) stack_obs list" where
  "window_round opened closed =
     [idle_obs opened, idle_obs opened, idle_obs closed, idle_obs closed, idle_obs closed,
      idle_obs closed, idle_obs opened]"

lemma run_future_append:
  "run_future step pc s (xs @ ys) =
     (case run_future step pc s xs of
        (Inl r, s') \<Rightarrow> (Inl r, s')
      | (Inr pc', s') \<Rightarrow> run_future step pc' s' ys)"
  by (induction xs arbitrary: pc s) (auto split: prod.split sum.split)

lemma select_only:
  assumes "select_contract sel" and "set rs \<subseteq> {None, Some r}" and "Some r \<in> set rs"
  shows "sel rs = Some r"
proof (cases "sel rs")
  case None
  with assms select_contract_None [OF assms(1), of rs] show ?thesis by force
next
  case (Some x)
  with assms(2) select_contract_Some [OF assms(1) Some] show ?thesis by auto
qed

lemma idle_im:
  assumes "select_contract sel"
  shows "fst (run_im sel im h (ob_im (so_obs (idle_obs q)))) = None"
  using select2_None [OF assms, of None None]
  by (cases im) (auto simp: idle_obs_def startup_im_def Let_def poll_im_startup_def poll_im_running_def
      split: prod.split bool.split)

lemma idle_simps [simp]:
  "ob_window (so_obs (idle_obs q)) = q" "ob_net_update (so_obs (idle_obs q)) = None"
  "ob_rand (so_obs (idle_obs q)) = None" "ob_peripheral (so_obs (idle_obs q)) = None"
  "ob_btp_net (so_obs (idle_obs q)) = None" "ob_timer (so_obs (idle_obs q)) = False"
  "ob_oper_net (so_obs (idle_obs q)) = None" "ob_mdns (so_obs (idle_obs q)) = None"
  "ob_user (so_obs (idle_obs q)) = None" "so_reset_transport (idle_obs q) = Inr ()"
  by (simp_all add: idle_obs_def)

text \<open>The rounds are quiet: only the window changes, over a network stack that offers UDP.\<close>

definition windows_alternate :: "('q, 'st) wl_env \<Rightarrow> 'q \<Rightarrow> 'q \<Rightarrow> bool" where
  "windows_alternate env opened closed \<longleftrightarrow>
     select_contract (we_select env) \<and> prov_ready_contract (we_prov_ready env) \<and> we_udp env \<and>
     is_open_on_all_transports (we_window env) opened \<and>
     \<not> is_open_on_all_transports (we_window env) closed"

lemma round_ble:
  assumes "windows_alternate env opened closed" and "wl_pc w = Ble Act_Wait_Prov Im_Start"
    and "\<not> we_prov_ready env (wl_net w)"
  shows "\<exists>h. run_wifi env w (so_obs (idle_obs closed)) = Inr (w\<lparr>wl_pc := Oper_Start, wl_hydration := h\<rparr>)"
proof -
  let ?o = "so_obs (idle_obs closed) :: ('a, 'b) wl_obs"
  from assms(1) have sel: "select_contract (we_select env)" by (simp add: windows_alternate_def)
  have "we_select env [None, None, None, Some (Inr ())] = Some (Inr ())"
    by (rule select_only [OF sel]) auto
  then have btp: "run_btp (we_select env) (we_window env) Act_Wait_Prov (btp_obs_of env ?o w) = Inl (Inr ())"
    using assms(1,3) by (simp add: run_btp_def btp_obs_of_def Let_def windows_alternate_def)
  obtain j h where "run_im (we_select env) Im_Start (wl_hydration w) (ob_im ?o) = (None, j, h)"
    using idle_im [OF sel, of Im_Start "wl_hydration w" closed] by (metis fst_conv prod_cases3)
  moreover have "we_select env [Some (Inr ()), None] = Some (Inr ())"
    by (rule select_only [OF sel]) auto
  ultimately show ?thesis
    using assms(2) btp by (auto simp: run_wifi_cases wifi_gatt_poll_def Let_def)
qed

lemma round_oper:
  fixes env :: "('q, 'st) wl_env"
  assumes "windows_alternate env opened closed" and "wl_pc w = Oper nx im"
  shows "nx = Next_Gone \<Longrightarrow> \<exists>h im'. run_wifi env w (so_obs (idle_obs closed)) =
      Inr (w\<lparr>wl_pc := Oper Next_New im', wl_hydration := h\<rparr>)"
    and "nx = Next_New \<Longrightarrow> \<exists>h. run_wifi env w (so_obs (idle_obs opened)) =
      Inr (w\<lparr>wl_pc := Loop_Head, wl_hydration := h\<rparr>)"
proof -
  from assms(1) have sel: "select_contract (we_select env)" by (simp add: windows_alternate_def)
  have im: "\<exists>j h. run_im (we_select env) im (wl_hydration w) (ob_im (so_obs (idle_obs q :: ('q, 'st) stack_obs))) = (None, j, h)" for q
    using idle_im [OF sel, of im "wl_hydration w" q] by (metis fst_conv prod_cases3)
  have none: "we_select env [None, None, None, None] = None" "we_select env [None, None] = None"
    using select4_None [OF sel, of None None None None] select2_None [OF sel, of None None] by simp_all
  have some: "we_select env [None, Some (Inr ())] = Some (Inr ())"
    by (rule select_only [OF sel]) auto
  show "\<exists>h im'. run_wifi env w (so_obs (idle_obs closed)) =
      Inr (w\<lparr>wl_pc := Oper Next_New im', wl_hydration := h\<rparr>)" if "nx = Next_Gone"
  proof -
    from im [of closed] obtain j h where
      "run_im (we_select env) im (wl_hydration w) (ob_im (so_obs (idle_obs closed :: ('q, 'st) stack_obs))) =
       (None, j, h)" by blast
    with assms that none have "run_wifi env w (so_obs (idle_obs closed)) =
        Inr (w\<lparr>wl_pc := Oper Next_New j, wl_hydration := h\<rparr>)"
      by (simp add: run_wifi_cases wifi_task_poll_def windows_alternate_def)
    then show ?thesis by blast
  qed
  show "\<exists>h. run_wifi env w (so_obs (idle_obs opened)) =
      Inr (w\<lparr>wl_pc := Loop_Head, wl_hydration := h\<rparr>)" if "nx = Next_New"
    using im [of opened] assms that none some
    by (auto simp: run_wifi_cases wifi_task_poll_def Let_def windows_alternate_def)
qed

lemma wl_get_put [simp]: "wl_get (wl_pc w, wl_ctl w) (wl_put w s) = w"
  by (simp add: wl_get_def wl_put_def)

lemma wl_put_put [simp]: "wl_put w' (wl_put w s) = wl_put w' s"
  by (simp add: wl_put_def)

lemma wl_put_get [simp]: "wl_put (wl_get pc s) s = s"
  by (simp add: wl_get_def wl_put_def)

text \<open>The network tasks of a quiet evaluation stay pending.\<close>

lemma quiet_poll:
  assumes "select_contract sel"
  shows "\<exists>n'. poll_nets sel True n quiet_nets = Inr (None, None, n')"
proof -
  have none: "sel [None, None] = None" using select2_None [OF assms, of None None] by simp
  have "\<exists>pc. poll_oper_net sel True None (nt_net n) (nb_net quiet_nets) = Inr (None, pc)"
    using none by (cases "nt_net n") (simp_all add: poll_oper_net_def poll_bind_def quiet_nets_def)
  moreover have "\<exists>m. netif_task True (nt_mdns n) (nb_netif quiet_nets) = Inr m"
  proof (cases "netif_task True (nt_mdns n) (nb_netif quiet_nets)")
    case (Inl x)
    then show ?thesis using netif_task_end [OF Inl] by (auto simp: quiet_nets_def)
  next
    case (Inr m)
    then show ?thesis by blast
  qed
  ultimately show ?thesis
    by (auto simp: poll_nets_def poll_net_task_def poll_mdns_task_def quiet_nets_def)
qed

lemma idle_nets:
  assumes "windows_alternate env opened closed"
  shows "\<exists>n'. poll_phase_nets env p n (idle_obs q) = Inr (None, None, n')"
  using assms quiet_poll [of "we_select env" n]
  by (auto simp: poll_phase_nets_def windows_alternate_def idle_obs_def split: wl_pc.split)

lemma idle_phase_obs [simp]:
  "(so_obs (idle_obs q))\<lparr>ob_oper_net := None, ob_mdns := None\<rparr> = so_obs (idle_obs q)"
  by (simp add: idle_obs_def)

lemma wifi_idle_step:
  assumes "windows_alternate env opened closed" and "run_wifi env w (so_obs (idle_obs q)) = Inr w'"
    and "wl_pc w \<noteq> Ble_Start"
  shows "\<exists>n'. wifi_stack_task ly env ((wl_pc w, wl_ctl w), n) (wl_put w s) (idle_obs q) =
    (Inr ((wl_pc w', wl_ctl w'), n'), wl_put w' s)"
proof -
  from idle_nets [OF assms(1), of "wl_pc w" n q] obtain n' where
    "poll_phase_nets env (wl_pc w) n (idle_obs q) = Inr (None, None, n')" by blast
  with assms(2,3) show ?thesis by (simp add: wifi_stack_task_def Let_def)
qed

text \<open>After the BLE phase has its memory, the rest of the round takes none.\<close>

lemma round_rest:
  assumes alt: "windows_alternate env opened closed"
    and nr: "\<not> we_prov_ready env (wb_net_state (ms_network s))"
  shows "\<exists>s' n'. run_future (wifi_stack_task ly env) ((Ble Act_Wait_Prov Im_Start, c), n) s
      [idle_obs closed, idle_obs closed, idle_obs closed, idle_obs closed, idle_obs opened] =
        (Inr ((Loop_Head, Mode_Operational), n'), s') \<and> ms_bump s' = ms_bump s"
proof -
  let ?o = "so_obs (idle_obs closed)" and ?task = "wifi_stack_task ly env"
  let ?w = "wl_get (Ble Act_Wait_Prov Im_Start, c) s"
  obtain h1 where r1: "run_wifi env ?w ?o = Inr (?w\<lparr>wl_pc := Oper_Start, wl_hydration := h1\<rparr>)"
    using round_ble [OF alt, of ?w] nr by (auto simp: wl_get_def)
  let ?w1 = "?w\<lparr>wl_pc := Oper_Start, wl_hydration := h1\<rparr>"
  let ?w2 = "?w1\<lparr>wl_pc := Oper_Build, wl_ctl := Mode_Operational\<rparr>"
  have r2: "run_wifi env ?w1 ?o = Inr ?w2"
    using nr by (simp add: run_wifi_cases wifi_task_start_def wl_get_def)
  let ?w3 = "?w2\<lparr>wl_pc := Oper Next_Gone Im_Start\<rparr>"
  have r3: "run_wifi env ?w2 ?o = Inr ?w3"
    by (simp add: run_wifi_cases wifi_task_build_def)
  obtain h4 im4 where r4: "run_wifi env ?w3 ?o = Inr (?w3\<lparr>wl_pc := Oper Next_New im4, wl_hydration := h4\<rparr>)"
    using round_oper(1) [OF alt, of ?w3 Next_Gone Im_Start] by auto
  let ?w4 = "?w3\<lparr>wl_pc := Oper Next_New im4, wl_hydration := h4\<rparr>"
  obtain h5 where r5: "run_wifi env ?w4 (so_obs (idle_obs opened)) = Inr (?w4\<lparr>wl_pc := Loop_Head, wl_hydration := h5\<rparr>)"
    using round_oper(2) [OF alt, of ?w4 Next_New im4] by auto
  let ?w5 = "?w4\<lparr>wl_pc := Loop_Head, wl_hydration := h5\<rparr>"
  have pc: "wl_pc ?w = Ble Act_Wait_Prov Im_Start" "wl_ctl ?w = c" by (simp_all add: wl_get_def)
  obtain n1 where "?task ((wl_pc ?w, wl_ctl ?w), n) (wl_put ?w s) (idle_obs closed) =
      (Inr ((wl_pc ?w1, wl_ctl ?w1), n1), wl_put ?w1 s)"
    using wifi_idle_step [OF alt r1, of ly n s] pc(1) by auto
  moreover obtain n2 where "?task ((wl_pc ?w1, wl_ctl ?w1), n1) (wl_put ?w1 s) (idle_obs closed) =
      (Inr ((wl_pc ?w2, wl_ctl ?w2), n2), wl_put ?w2 s)"
    using wifi_idle_step [OF alt r2, of ly n1 s] by auto
  moreover obtain n3 where "?task ((wl_pc ?w2, wl_ctl ?w2), n2) (wl_put ?w2 s) (idle_obs closed) =
      (Inr ((wl_pc ?w3, wl_ctl ?w3), n3), wl_put ?w3 s)"
    using wifi_idle_step [OF alt r3, of ly n2 s] by auto
  moreover obtain n4 where "?task ((wl_pc ?w3, wl_ctl ?w3), n3) (wl_put ?w3 s) (idle_obs closed) =
      (Inr ((wl_pc ?w4, wl_ctl ?w4), n4), wl_put ?w4 s)"
    using wifi_idle_step [OF alt r4, of ly n3 s] by auto
  moreover obtain n5 where "?task ((wl_pc ?w4, wl_ctl ?w4), n4) (wl_put ?w4 s) (idle_obs opened) =
      (Inr ((wl_pc ?w5, wl_ctl ?w5), n5), wl_put ?w5 s)"
    using wifi_idle_step [OF alt r5, of ly n4 s] by auto
  ultimately show ?thesis using pc by simp
qed

lemma round_run:
  assumes alt: "windows_alternate env opened closed"
  shows "case site_allocs [ly_btp ly] (ms_bump s) of
      Inl p \<Rightarrow> \<exists>s'. run_future (wifi_stack_task ly env) ((Loop_Head, c), n) s (window_round opened closed) =
        (Inl (Inl p), s')
    | Inr b \<Rightarrow> \<exists>s' n'. run_future (wifi_stack_task ly env) ((Loop_Head, c), n) s (window_round opened closed) =
        (Inr ((Loop_Head, Mode_Operational), n'), s') \<and> ms_bump s' = b"
proof -
  let ?task = "wifi_stack_task ly env" and ?net = "reset_net_ctl_state (wb_net_state (ms_network s))"
  let ?w = "wl_get (Loop_Head, c) s"
  let ?w1 = "?w\<lparr>wl_net := ?net, wl_pc := Ble_Start\<rparr>"
  let ?w2 = "?w1\<lparr>wl_ctl := Mode_Commissioning Net_Wifi, wl_pc := Ble Act_Wait_Prov Im_Start\<rparr>"
  have nr: "\<not> we_prov_ready env ?net"
    using alt reset_not_ready by (auto simp: windows_alternate_def)
  have r1: "run_wifi env ?w (so_obs (idle_obs opened)) = Inr ?w1"
    using alt by (simp add: run_wifi_cases run_wifi_head_def windows_alternate_def wl_get_def)
  have pc: "wl_pc ?w = Loop_Head" "wl_ctl ?w = c" by (simp_all add: wl_get_def)
  obtain n1 where one: "?task ((Loop_Head, c), n) s (idle_obs opened) =
      (Inr ((wl_pc ?w1, wl_ctl ?w1), n1), wl_put ?w1 s)"
    using wifi_idle_step [OF alt r1, of ly n s] pc by auto
  have r2: "run_wifi env ?w1 (so_obs (idle_obs opened)) = Inr ?w2"
    by (simp add: run_wifi_cases wifi_gatt_start_def)
  have nets: "poll_phase_nets env Ble_Start n1 (idle_obs opened) = Inr (None, None, n1)"
    by (simp add: poll_phase_nets_def)
  show ?thesis
  proof (cases "site_allocs [ly_btp ly] (ms_bump s)")
    case (Inl p)
    have "?task ((wl_pc ?w1, wl_ctl ?w1), n1) (wl_put ?w1 s) (idle_obs opened) = (Inl (Inl p), wl_put ?w2 s)"
      unfolding wifi_stack_task_def Let_def fst_conv snd_conv wl_get_put
      using Inl nets r2 by (simp add: stack_alloc_def)
    with one Inl show ?thesis by (simp add: window_round_def)
  next
    case (Inr b)
    let ?s = "(wl_put ?w2 s)\<lparr>ms_bump := b\<rparr>"
    have two: "?task ((wl_pc ?w1, wl_ctl ?w1), n1) (wl_put ?w1 s) (idle_obs opened) =
        (Inr ((wl_pc ?w2, wl_ctl ?w2), n1), ?s)"
      unfolding wifi_stack_task_def Let_def fst_conv snd_conv wl_get_put
      using Inr nets r2 by (simp add: stack_alloc_def)
    have "\<not> we_prov_ready env (wb_net_state (ms_network ?s))" using nr by (simp add: wl_put_def)
    from round_rest [OF alt this, of ly "Mode_Commissioning Net_Wifi" n1] one two Inr show ?thesis
      by (auto simp: window_round_def)
  qed
qed

text \<open>Enough rounds leave no room for the next BLE phase.\<close>

lemma rounds_exhaust:
  assumes alt: "windows_alternate env opened closed" and "bump_ok (ms_bump s)"
    and "b_size (ms_bump s) - b_offset (ms_bump s) < n * lsize (ly_btp ly)"
  shows "\<exists>s'. run_future (wifi_stack_task ly env) ((Loop_Head, c), m) s
      (concat (replicate n (window_round opened closed))) = (Inl (Inl Out_Of_Bump_Memory), s')"
  using assms(2-)
proof (induction n arbitrary: s c m)
  case 0
  then show ?case by simp
next
  case (Suc n)
  let ?b = "ms_bump s"
  show ?case
  proof (cases "site_allocs [ly_btp ly] ?b")
    case (Inl p)
    then have "p = Out_Of_Bump_Memory"
      using site_allocs_fits [OF Suc.prems(1), of "[ly_btp ly]"] by (auto split: if_splits)
    with Inl round_run [where ly = ly and s = s and c = c and n = m, OF alt] show ?thesis by (auto simp: run_future_append)
  next
    case (Inr b)
    with round_run [where ly = ly and s = s and c = c and n = m, OF alt] obtain s' m' where
      r: "run_future (wifi_stack_task ly env) ((Loop_Head, c), m) s (window_round opened closed) =
        (Inr ((Loop_Head, Mode_Operational), m'), s')" and b: "ms_bump s' = b" by auto
    from Inr site_allocs_rel(3) [OF Inr] Suc.prems(1) have ok: "bump_ok (ms_bump s')" by (simp add: b)
    have "lsize (ly_btp ly) \<le> need (ly_btp ly) (b_base ?b + b_offset ?b)" by (simp add: need_def)
    then have "b_size b = b_size ?b" and "b_offset ?b + lsize (ly_btp ly) \<le> b_offset b"
      using Inr site_allocs_fits [OF Suc.prems(1), of "[ly_btp ly]"] by (auto split: if_splits)
    then have "b_size (ms_bump s') - b_offset (ms_bump s') < n * lsize (ly_btp ly)"
      using Suc.prems(2) ok unfolding b bump_ok_def mult_Suc by linarith
    from Suc.IH [OF ok this] r show ?thesis by (simp add: run_future_append)
  qed
qed

lemma future_guarded:
  "run_future (guarded_run T task start) (Run_Task pc) s obs =
     (case run_future task pc s obs of
        (Inl r, s') \<Rightarrow> (Inl r, s') | (Inr pc', s') \<Rightarrow> (Inr (Run_Task pc'), s'))"
  by (induction obs arbitrary: pc s) (auto split: prod.splits sum.splits)

lemma call_guarded:
  "call_run (guarded_run T task start) s [] = (None, drop_guard s)"
  "call_run (guarded_run T task start) s (ob # obs) =
     (case so_reset_transport ob of
        Inl e \<Rightarrow> (Some (Inr (Inl e)), drop_guard s)
      | Inr _ \<Rightarrow>
          (case stack_alloc [T] s of
             Inl p \<Rightarrow> (Some (Inl p), drop_guard s)
           | Inr t \<Rightarrow>
               (case run_future task start t obs of
                  (Inl r, t') \<Rightarrow> (Some r, drop_guard t')
                | (Inr _, t') \<Rightarrow> (None, drop_guard t'))))"
  by (simp_all add: call_run_def future_guarded split: sum.split prod.split)

lemma run_exhausts:
  assumes "windows_alternate env opened closed" and "stack_ready s"
    and "b_size (ms_bump s) < n * lsize (ly_btp ly)"
  shows "fst (call_run (wifi_run ly env) s
      (idle_obs closed # concat (replicate n (window_round opened closed)))) =
    Some (Inl Out_Of_Bump_Memory)"
proof -
  from assms(2) have ok: "bump_ok (ms_bump s)" and off: "b_offset (ms_bump s) = 0"
    by (simp_all add: stack_ready_def)
  show ?thesis
  proof (cases "stack_alloc [ly_run ly] s")
    case (Inl p)
    with stack_alloc_oom [OF ok] show ?thesis by (simp add: wifi_run_def call_guarded)
  next
    case (Inr t)
    from stack_alloc_rel [OF Inr] ok have "bump_ok (ms_bump t)"
      and "b_size (ms_bump t) - b_offset (ms_bump t) < n * lsize (ly_btp ly)"
      using assms(3) by (auto simp: stack_rel_def)
    from rounds_exhaust [OF assms(1) this, of Mode_None nets_new] Inr show ?thesis
      by (auto simp: wifi_run_def call_guarded)
  qed
qed

section \<open>Thread and Wifi\<close>

text \<open>The steps over Thread are those over Wifi, the network type of the controller apart.\<close>

definition thread_ctl :: "ctl_mode \<Rightarrow> ctl_mode" where
  "thread_ctl c = (if c = Mode_Commissioning Net_Wifi then Mode_Commissioning Net_Thread else c)"

lemma to_thread_get: "to_thread (wl_get (p, c) s) = wl_get (p, thread_ctl c) s"
  by (simp add: to_thread_def wl_get_def thread_ctl_def)

lemma to_thread_ctl: "wl_ctl (to_thread w) = thread_ctl (wl_ctl w)"
  by (simp add: to_thread_def thread_ctl_def)

lemma wl_put_ctl [simp]: "wl_put (to_thread w) s = wl_put w s"
  by (simp add: wl_put_def)

lemma wl_ended_thread: "wl_put (wl_ended env (to_thread w) ob) s = wl_put (wl_ended env w ob) s"
  by (simp add: wl_ended_def Let_def im_ended_def wl_put_def split: wl_pc.split)

definition thread_pc :: "wl_stack_pc \<Rightarrow> wl_stack_pc" where
  "thread_pc = map_prod (map_prod id thread_ctl) id"

lemma thread_stack_step:
  "thread_stack_task ly env (thread_pc pc) s ob =
   map_prod (map_sum id thread_pc) id (wifi_stack_task ly env pc s ob)"
proof -
  obtain p c n where pc: "pc = ((p, c), n)" by (metis prod.collapse)
  show ?thesis
    unfolding pc thread_stack_task_wl wifi_stack_task_wl wl_stack_task_def Let_def thread_pc_def
      map_prod_simp fst_conv snd_conv id_apply to_thread_get [symmetric] to_thread_simps run_thread_step
    by (auto simp: wl_ended_thread to_thread_ctl split: sum.split)
qed

lemma thread_future:
  "run_future (thread_stack_task ly env) (thread_pc pc) s obs =
   map_prod (map_sum id thread_pc) id (run_future (wifi_stack_task ly env) pc s obs)"
proof (induction obs arbitrary: pc s)
  case Nil
  then show ?case by simp
next
  case (Cons ob obs)
  obtain x t where st: "wifi_stack_task ly env pc s ob = (x, t)" by fastforce
  show ?case
  proof (cases x)
    case (Inl r)
    with st show ?thesis by (simp add: thread_stack_step)
  next
    case (Inr pc')
    with st Cons.IH [of pc' t] show ?thesis by (simp add: thread_stack_step)
  qed
qed

lemma thread_call_run: "call_run (thread_run ly env) s obs = call_run (wifi_run ly env) s obs"
proof (cases obs)
  case Nil
  then show ?thesis by (simp add: call_run_def)
next
  case (Cons ob obs')
  have start: "thread_pc ((Loop_Head, Mode_None), nets_new) = ((Loop_Head, Mode_None), nets_new)"
    by (simp add: thread_pc_def thread_ctl_def)
  show ?thesis
  proof (cases "stack_alloc [ly_run ly] s")
    case (Inl p)
    then show ?thesis by (simp add: Cons thread_run_def wifi_run_def call_guarded split: sum.split)
  next
    case (Inr t)
    from thread_future [of ly env "((Loop_Head, Mode_None), nets_new)" t obs', unfolded start] Inr show ?thesis
      by (auto simp: Cons thread_run_def wifi_run_def call_guarded split: sum.split prod.split)
  qed
qed

text \<open>
  C23. A stack over Thread behaves as one over Wifi: a call of \<open>run\<close> or of \<open>run_coex\<close>, given the
  same observations, has the same result and leaves the same stack - fields, arena, networking
  status and hydration - whether it returns, panics or is dropped.
\<close>

theorem thread_call_is_wifi_call: "thread_call drv ly F env c s = wifi_call drv ly F env c s"
  by (cases c)
    (simp_all add: thread_call_def wifi_call_def thread_call_run thread_run_coex_def wifi_run_coex_def
      run_thread_coex_def run_wifi_coex_def thread_coex_stack_is_wifi)

text \<open>
  C21. Nothing a run without coexistence allocates for a BLE phase comes back before the run ends:
  whatever the size of the arena, basic windows opened and closed often enough - and nothing else
  happening, over a network stack that offers UDP - make one and the same run panic for lack of bump memory.
\<close>

theorem reopened_windows_exhaust_arena:
  assumes "windows_alternate env opened closed" and "stack_ready s"
    and "b_size (ms_bump s) < n * lsize (ly_btp ly)"
  shows "fst (call_run (wifi_run ly env) s
      (idle_obs closed # concat (replicate n (window_round opened closed)))) =
    Some (Inl Out_Of_Bump_Memory) \<and>
    fst (call_run (thread_run ly env) s
      (idle_obs closed # concat (replicate n (window_round opened closed)))) =
    Some (Inl Out_Of_Bump_Memory)"
  using run_exhausts [OF assms] by (simp add: thread_call_run)

lemma sample_windows: "windows_alternate sample_env Open_Basic Closed"
  using sample_contracts by (simp add: windows_alternate_def) (simp add: sample_env_def plain_preds_def)

theorem reopened_windows_exhaust_arena_witness:
  "fst (call_run (wifi_run byte_layouts sample_env) (unit_stack 20)
      (idle_obs Closed # concat (replicate 21 (window_round Open_Basic Closed)))) =
    Some (Inl Out_Of_Bump_Memory)"
proof -
  have "stack_ready (unit_stack 20)" by (rule unit_stack_ready) simp
  from reopened_windows_exhaust_arena [OF sample_windows this, of 21 byte_layouts] show ?thesis
    by (simp add: unit_stack_def bump_new_def byte_layouts_def byte_layout_def)
qed

end
