(* ===== verification/Stack_Init_Spec.thy ===== *)
theory Stack_Init_Spec
  imports Calls_Spec Bump_Heap
begin

text \<open>
  The two ways to make a stack: \<open>new\<close>, which leaves the arena uninitialized, and the in-place
  \<open>init\<close>, which zeroes it. The two leave the same fields behind, the bytes of the arena apart; what a
  box of the arena holds is written before it is read, and nothing else a call does depends on the
  bytes, so that stacks made either way cannot be told apart.
\<close>

section \<open>The bytes of the arena\<close>

definition with_mem :: "(nat \<Rightarrow> byte option) \<Rightarrow> ('m, 'b, 'i, 'n) mstack \<Rightarrow> ('m, 'b, 'i, 'n) mstack" where
  "with_mem m s = s\<lparr>ms_bump := (ms_bump s)\<lparr>b_mem := m\<rparr>\<rparr>"

lemma with_mem_simps [simp]:
  "ms_hydration (with_mem m s) = ms_hydration s"
  "ms_network (with_mem m s) = ms_network s"
  "with_mem m (s\<lparr>ms_hydration := h\<rparr>) = (with_mem m s)\<lparr>ms_hydration := h\<rparr>"
  "with_mem m (wl_put w t) = wl_put w (with_mem m t)"
  by (simp_all add: with_mem_def wl_put_def)

lemma wl_get_with_mem [simp]: "wl_get pc (with_mem m s) = wl_get pc s"
  by (simp add: wl_get_def)

lemma reserve_mem:
  "reserve T (b\<lparr>b_mem := m\<rparr>) = map_sum id (map_prod id (\<lambda>b. b\<lparr>b_mem := m\<rparr>)) (reserve T b)"
  by (simp add: reserve_def Let_def and_then_def split: sum.splits prod.splits)

lemma take_slots_mem:
  "take_slots reserve Ts (b\<lparr>b_mem := m\<rparr>) =
   map_sum id (map_prod id (\<lambda>b. b\<lparr>b_mem := m\<rparr>)) (take_slots reserve Ts b)"
proof (induction Ts arbitrary: b)
  case Nil
  then show ?case by simp
next
  case (Cons T Ts)
  show ?case
  proof (cases "reserve T b")
    case (Inl p)
    then show ?thesis by (simp add: reserve_mem)
  next
    case (Inr x)
    then show ?thesis
      using Cons.IH [of "snd x"]
      by (cases x; cases "take_slots reserve Ts (snd x)") (auto simp: reserve_mem)
  qed
qed

lemma stack_alloc_mem [simp]:
  "stack_alloc Ts (with_mem m s) = map_sum id (with_mem m) (stack_alloc Ts s)"
  by (cases "take_slots reserve Ts (ms_bump s)")
    (auto simp: stack_alloc_def site_allocs_def with_mem_def take_slots_mem)

lemma run_im_mem:
  "run_im_with_bump ly F sel im (with_mem m s) ob =
   map_prod id (map_prod id (with_mem m)) (run_im_with_bump ly F sel im s ob)"
proof -
  have "stack_alloc Ts ((with_mem m s)\<lparr>ms_hydration := h\<rparr>) =
      map_sum id (with_mem m) (stack_alloc Ts (s\<lparr>ms_hydration := h\<rparr>))" for Ts h
    using stack_alloc_mem [of Ts m "s\<lparr>ms_hydration := h\<rparr>"] by simp
  then show ?thesis
    by (simp add: run_im_with_bump_def Let_def split: prod.split sum.split)
qed

text \<open>A task that does not look at the bytes of the arena.\<close>

locale blind_task =
  fixes task :: "('pc, ('m, 'b, 'i, 'n) mstack, ('q, 'st) stack_obs) stack_task"
  assumes blind: "task pc (with_mem m s) ob = map_prod id (with_mem m) (task pc s ob)"
begin

lemma guarded_blind:
  "guarded_run T task start pc (with_mem m s) ob =
   map_prod id (with_mem m) (guarded_run T task start pc s ob)"
  by (cases pc) (auto simp: blind split: sum.split prod.split)

lemma future_blind:
  "run_future (guarded_run T task start) pc (with_mem m s) obs =
   map_prod id (with_mem m) (run_future (guarded_run T task start) pc s obs)"
proof (induction obs arbitrary: pc s)
  case Nil
  then show ?case by simp
next
  case (Cons ob obs)
  then show ?case
    by (cases "guarded_run T task start pc s ob") (auto simp: guarded_blind split: sum.split)
qed

lemma call_blind:
  "call_run (guarded_run T task start) (with_mem m s) obs =
   map_prod id (with_mem m) (call_run (guarded_run T task start) s obs)"
proof -
  have "drop_guard (with_mem m t) = with_mem m (drop_guard t)" for t :: "('m, 'b, 'i, 'n) mstack"
    by (simp add: drop_guard_def with_mem_def bump_reset_def)
  then show ?thesis by (simp add: call_run_def future_blind split: prod.split sum.split)
qed

end

interpretation eth_blind: blind_task "eth_stack_task ly F env" for ly F env
  by unfold_locales
    (simp add: eth_stack_task_def Let_def run_im_mem split: eth_stack_pc.split option.split sum.split prod.split)

interpretation wifi_coex_blind: blind_task "wifi_coex_stack_task ly F env" for ly F env
  by unfold_locales
    (simp add: wifi_coex_stack_task_def Let_def run_im_mem
      split: coex_stack_pc.split option.split sum.split prod.split)

lemma wl_stack_blind:
  "wl_stack_task run ly env pc (with_mem m s) ob = map_prod id (with_mem m) (wl_stack_task run ly env pc s ob)"
proof -
  have "stack_alloc Ts (wl_put w (with_mem m s)) = map_sum id (with_mem m) (stack_alloc Ts (wl_put w s))"
    for Ts w
    using stack_alloc_mem [of Ts m "wl_put w s"] by simp
  then show ?thesis by (simp add: wl_stack_task_def Let_def split: sum.split)
qed

interpretation wifi_blind: blind_task "wifi_stack_task ly env" for ly env
  unfolding wifi_stack_task_wl by unfold_locales (rule wl_stack_blind)

interpretation thread_coex_blind: blind_task "thread_coex_stack_task ly F env" for ly F env
  unfolding thread_coex_stack_is_wifi by unfold_locales

interpretation thread_blind: blind_task "thread_stack_task ly env" for ly env
  unfolding thread_stack_task_wl by unfold_locales (rule wl_stack_blind)

section \<open>The boxes of the arena\<close>

text \<open>Two heaps of boxes over the same arena, with other bytes in it.\<close>

definition twin :: "heap \<Rightarrow> heap \<Rightarrow> bool" where
  "twin h k \<longleftrightarrow> h_boxes h = h_boxes k \<and> (\<exists>m. h_bump h = (h_bump k)\<lparr>b_mem := m\<rparr>)"

lemma write_slot_over: "\<exists>m'. write_slot p v (b\<lparr>b_mem := m\<rparr>) = (write_slot p v b)\<lparr>b_mem := m'\<rparr>"
  by (cases p) (auto simp: write_slot_def)

lemma twin_step:
  assumes "twin h k"
  shows "rel_sum (=) twin (heap_step h x) (heap_step k x)"
proof -
  from assms obtain m where m: "h_bump h = (h_bump k)\<lparr>b_mem := m\<rparr>" and bx: "h_boxes h = h_boxes k"
    by (auto simp: twin_def)
  show ?thesis
  proof (cases x)
    case (Op_Alloc T v)
    then show ?thesis
      using write_slot_over bx
      by (cases "reserve T (h_bump k)")
        (auto simp: alloc_def alloc_with_def twin_def m reserve_mem split: prod.splits)
  next
    case (Op_Write i v)
    then show ?thesis using write_slot_over bx by (auto simp: twin_def m box_deref_mut_def)
  next
    case (Op_Drop i)
    then show ?thesis using bx by (auto simp: twin_def m box_drop_def)
  next
    case Op_Reset
    then show ?thesis using bx by (cases "h_bump k") (auto simp: twin_def m bump_reset_def)
  qed
qed

lemma twin_run:
  "twin h k \<Longrightarrow> rel_sum (=) twin (run_ops heap_step h xs) (run_ops heap_step k xs)"
proof (induction xs arbitrary: h k)
  case Nil
  then show ?case by simp
next
  case (Cons x xs)
  from twin_step [OF Cons.prems, of x] Cons.IH show ?case
    by (cases "heap_step h x"; cases "heap_step k x") auto
qed

lemma twin_allowed:
  "twin h k \<Longrightarrow> ops_allowed heap_step heap_pre h xs = ops_allowed heap_step heap_pre k xs"
proof (induction xs arbitrary: h k)
  case Nil
  then show ?case by simp
next
  case (Cons x xs)
  have "heap_pre h x = heap_pre k x" using Cons.prems by (cases x) (simp_all add: twin_def)
  with twin_step [OF Cons.prems, of x] Cons.IH show ?case
    by (cases "heap_step h x"; cases "heap_step k x") auto
qed

text \<open>The boxes made on the two arenas, and what is read through them, are the same.\<close>

definition boxes_agree :: "panic + heap \<Rightarrow> panic + heap \<Rightarrow> bool" where
  "boxes_agree = rel_sum (=) (\<lambda>h k. h_boxes h = h_boxes k \<and> heap_objects h = heap_objects k)"

lemma twin_agree:
  assumes "twin h k" and "heap_inv h" and "heap_inv k" and "heap_objects h = heap_objects k"
    and "ops_allowed heap_step heap_pre k xs"
  shows "boxes_agree (run_ops heap_step h xs) (run_ops heap_step k xs)"
proof -
  from assms(1,5) have al: "ops_allowed heap_step heap_pre h xs" by (simp add: twin_allowed)
  note obj = heap.run_abs [OF assms(2) al] heap.run_abs [OF assms(3,5)]
  show ?thesis
  proof (cases "run_ops heap_step h xs")
    case (Inl p)
    with twin_run [OF assms(1), of xs] show ?thesis
      by (cases "run_ops heap_step k xs") (simp_all add: boxes_agree_def)
  next
    case (Inr h')
    with twin_run [OF assms(1), of xs] obtain k' where k: "run_ops heap_step k xs = Inr k'"
      and "h_boxes h' = h_boxes k'"
      by (cases "run_ops heap_step k xs") (auto simp: twin_def)
    moreover have "heap_objects h' = heap_objects k'" using obj(1) [OF Inr] obj(2) [OF k] assms(4) by simp
    ultimately show ?thesis using Inr by (simp add: boxes_agree_def)
  qed
qed

section \<open>new and init\<close>

lemma calls_blind:
  assumes "\<And>c s. call c (with_mem m s) = map_prod id (with_mem m) (call c s)"
  shows "calls call (with_mem m s) cs = map_prod id (with_mem m) (calls call s cs)"
proof (induction cs arbitrary: s)
  case Nil
  then show ?case by simp
next
  case (Cons c cs)
  then show ?case by (cases "call c s") (simp add: assms split: prod.split)
qed

lemma eth_calls_blind:
  "calls (eth_call preex_ethernet ly F env) (with_mem m s) cs =
   map_prod id (with_mem m) (calls (eth_call preex_ethernet ly F env) s cs)"
  by (rule calls_blind)
    (simp add: eth_call_def eth_run_def run_ethernet_def preex_ethernet_def eth_blind.call_blind)

lemma wifi_calls_blind:
  "calls (wifi_call preex_wireless ly F env) (with_mem m s) cs =
   map_prod id (with_mem m) (calls (wifi_call preex_wireless ly F env) s cs)"
  by (rule calls_blind)
    (simp add: wifi_call_def wifi_run_coex_def run_wifi_coex_def wifi_run_def preex_wireless_def
      wifi_coex_blind.call_blind wifi_blind.call_blind split: wireless_call.split)

lemma thread_calls_blind:
  "calls (thread_call preex_wireless ly F env) (with_mem m s) cs =
   map_prod id (with_mem m) (calls (thread_call preex_wireless ly F env) s cs)"
  by (rule calls_blind)
    (simp add: thread_call_def thread_run_coex_def run_thread_coex_def thread_run_def preex_wireless_def
      thread_coex_blind.call_blind thread_blind.call_blind split: wireless_call.split)

text \<open>
  \<open>same_but_bytes s t\<close>: every field of the two stacks is the same - the \<open>Matter\<close> instance, the buffers,
  the state, the flag, the network, and of the allocator the place, the size and the offset - and only
  the bytes of the arena may differ. \<open>boxes_on\<close> is a heap of boxes that begins on the arena of a stack.
\<close>

definition same_but_bytes :: "('m, 'b, 'i, 'n) mstack \<Rightarrow> ('m, 'b, 'i, 'n) mstack \<Rightarrow> bool" where
  "same_but_bytes s t \<longleftrightarrow> s = with_mem (b_mem (ms_bump s)) t"

definition boxes_on :: "('m, 'b, 'i, 'n) mstack \<Rightarrow> heap" where
  "boxes_on s = \<lparr>h_bump = ms_bump s, h_boxes = []\<rparr>"

lemma same_with_mem: "same_but_bytes (with_mem m s) s"
  by (simp add: same_but_bytes_def with_mem_def)

lemma same_calls:
  assumes "same_but_bytes s t" and "\<And>m t. calls call (with_mem m t) cs = map_prod id (with_mem m) (calls call t cs)"
  shows "fst (calls call s cs) = fst (calls call t cs) \<and> same_but_bytes (snd (calls call s cs)) (snd (calls call t cs))"
proof -
  from assms obtain m where "calls call s cs = map_prod id (with_mem m) (calls call t cs)"
    unfolding same_but_bytes_def by metis
  then show ?thesis by (simp add: same_with_mem)
qed

lemma same_boxes:
  assumes "same_but_bytes s t" and "stack_ready s" and "stack_ready t"
    and "ops_allowed heap_step heap_pre (boxes_on t) xs"
  shows "boxes_agree (run_ops heap_step (boxes_on s) xs) (run_ops heap_step (boxes_on t) xs)"
proof (rule twin_agree [OF _ _ _ _ assms(4)])
  have "ms_bump s = (ms_bump t)\<lparr>b_mem := b_mem (ms_bump s)\<rparr>"
    using arg_cong [OF assms(1) [unfolded same_but_bytes_def], of ms_bump] by (simp add: with_mem_def)
  then show "twin (boxes_on s) (boxes_on t)" by (auto simp: twin_def boxes_on_def)
  show "heap_inv (boxes_on s)" and "heap_inv (boxes_on t)"
    using assms(2,3) by (simp_all add: heap_inv_def boxes_on_def stack_ready_def slots_apart_def)
  show "heap_objects (boxes_on s) = heap_objects (boxes_on t)"
    by (simp add: heap_objects_def boxes_on_def)
qed

lemma init_same:
  assumes "ct_matter i = ct_matter c" and "ct_buffers i = ct_buffers c" and "ct_state i = ct_state c"
    and "ct_network i = ct_network c"
  shows "same_but_bytes (stack_init i port base B dev) (stack_new c port base B dev)"
  using assms
  by (simp add: same_but_bytes_def with_mem_def stack_init_def stack_new_def bump_init_def bump_new_def)

lemma new_ready:
  "base + B \<le> usize_max \<Longrightarrow> stack_ready (stack_new c port base B dev) \<and> stack_ready (stack_init i port base B dev)"
  using bump_new_ok [of base B] bump_init_ok [of base B]
  by (simp add: stack_ready_def stack_new_def stack_init_def hydration_new_ok)
    (simp add: bump_new_def bump_init_def)

text \<open>
  C24. A stack made by \<open>new\<close> and one made in place by \<open>init\<close> cannot be told apart: given that the
  constructors of \<^verbatim>\<open>rs-matter\<close> and of the embedded user data agree with their initializers, over
  Ethernet and over wireless both stacks are ready and the same in every field, the bytes of the
  arena apart; any calls with the pre-existing drivers over Ethernet, Wifi or Thread have the same
  results on both and leave stacks that are the same in this sense; and whatever boxes are made
  in the two arenas, they are at the same places and the same objects are read through them - the
  bytes that \<open>init\<close> zeroes and \<open>new\<close> does not are never seen.
\<close>

theorem init_is_new:
  assumes "e_init = e_INIT" and "btp_init = btp_new" and "st_init = st_new" and "s_init = s_INIT"
    and "base + B \<le> usize_max"
    and "c_eth = \<lparr>ct_matter = mt, ct_buffers = bf, ct_state = ist, ct_network = eth_INIT e_INIT\<rparr>"
    and "i_eth = \<lparr>ct_matter = mt, ct_buffers = bf, ct_state = ist, ct_network = eth_init e_init\<rparr>"
    and "c_wl = \<lparr>ct_matter = mt, ct_buffers = bf, ct_state = ist,
      ct_network = wireless_ble_new btp_new st_new s_INIT e_INIT\<rparr>"
    and "i_wl = \<lparr>ct_matter = mt, ct_buffers = bf, ct_state = ist,
      ct_network = wireless_ble_init btp_init st_init s_init e_init\<rparr>"
    and "ops_allowed heap_step heap_pre (boxes_on (stack_new c_eth port base B dev)) xs"
  defines "n_eth \<equiv> stack_new c_eth port base B dev" and "z_eth \<equiv> stack_init i_eth port base B dev"
    and "n_wl \<equiv> stack_new c_wl port base B dev" and "z_wl \<equiv> stack_init i_wl port base B dev"
  shows "stack_ready n_eth \<and> stack_ready z_eth \<and> same_but_bytes z_eth n_eth \<and>
    stack_ready n_wl \<and> stack_ready z_wl \<and> same_but_bytes z_wl n_wl \<and>
    fst (calls (eth_call preex_ethernet ly F env) z_eth cs) =
      fst (calls (eth_call preex_ethernet ly F env) n_eth cs) \<and>
    same_but_bytes (snd (calls (eth_call preex_ethernet ly F env) z_eth cs))
      (snd (calls (eth_call preex_ethernet ly F env) n_eth cs)) \<and>
    fst (calls (wifi_call preex_wireless ly F env) z_wl cs') =
      fst (calls (wifi_call preex_wireless ly F env) n_wl cs') \<and>
    same_but_bytes (snd (calls (wifi_call preex_wireless ly F env) z_wl cs'))
      (snd (calls (wifi_call preex_wireless ly F env) n_wl cs')) \<and>
    fst (calls (thread_call preex_wireless ly F env) z_wl cs') =
      fst (calls (thread_call preex_wireless ly F env) n_wl cs') \<and>
    same_but_bytes (snd (calls (thread_call preex_wireless ly F env) z_wl cs'))
      (snd (calls (thread_call preex_wireless ly F env) n_wl cs')) \<and>
    boxes_agree (run_ops heap_step (boxes_on z_eth) xs) (run_ops heap_step (boxes_on n_eth) xs) \<and>
    boxes_agree (run_ops heap_step (boxes_on z_wl) xs) (run_ops heap_step (boxes_on n_wl) xs)"
proof -
  have eth: "same_but_bytes z_eth n_eth" and wl: "same_but_bytes z_wl n_wl"
    unfolding z_eth_def n_eth_def z_wl_def n_wl_def using assms(1-9)
    by (auto intro!: init_same simp: eth_INIT_def eth_init_def wireless_ble_new_def wireless_ble_init_def)
  have ready: "stack_ready n_eth \<and> stack_ready z_eth" "stack_ready n_wl \<and> stack_ready z_wl"
    unfolding z_eth_def n_eth_def z_wl_def n_wl_def by (rule new_ready [OF assms(5)])+
  have ops: "ops_allowed heap_step heap_pre (boxes_on n_eth) xs" "boxes_on n_wl = boxes_on n_eth"
    using assms(10) by (simp_all add: n_eth_def n_wl_def boxes_on_def stack_new_def)
  from same_boxes [OF eth] same_boxes [OF wl] ready ops have
    "boxes_agree (run_ops heap_step (boxes_on z_eth) xs) (run_ops heap_step (boxes_on n_eth) xs)"
    "boxes_agree (run_ops heap_step (boxes_on z_wl) xs) (run_ops heap_step (boxes_on n_wl) xs)"
    by simp_all
  with eth wl ready same_calls [OF eth eth_calls_blind, of ly F env cs]
    same_calls [OF wl wifi_calls_blind, of ly F env cs'] same_calls [OF wl thread_calls_blind, of ly F env cs']
  show ?thesis by blast
qed

definition unit_ctors :: "'n \<Rightarrow> (unit, nat, unit, unit, 'n) ctors" where
  "unit_ctors n = \<lparr>ct_matter = (\<lambda>_ port. port), ct_buffers = (), ct_state = (), ct_network = n\<rparr>"

theorem init_is_new_witness:
  "fst (calls (wifi_call preex_wireless byte_layouts {} sample_env)
      (stack_init (unit_ctors (wireless_ble_init () blank () unit_init)) 5540 64 20 ()) sample_calls) =
   fst (calls (wifi_call preex_wireless byte_layouts {} sample_env)
      (stack_new (unit_ctors (wireless_ble_new () blank () unit_INIT)) 5540 64 20 ()) sample_calls) \<and>
   boxes_agree
     (run_ops heap_step (boxes_on (stack_init (unit_ctors (eth_init unit_init)) 5540 64 20 ()))
       [Op_Alloc \<lparr>lsize = 2, lalign = 1\<rparr> [1, 2], Op_Write 0 [3, 4]])
     (run_ops heap_step (boxes_on (stack_new (unit_ctors (eth_INIT unit_INIT)) 5540 64 20 ()))
       [Op_Alloc \<lparr>lsize = 2, lalign = 1\<rparr> [1, 2], Op_Write 0 [3, 4]])"
proof -
  let ?xs = "[Op_Alloc \<lparr>lsize = 2, lalign = 1\<rparr> [1, 2], Op_Write 0 [3, 4]]"
  have u: "(64::nat) + 20 \<le> usize_max" by (simp add: usize_max_def)
  have "ops_allowed heap_step heap_pre (boxes_on (stack_new (unit_ctors (eth_INIT unit_INIT)) 5540 64 20 ())) ?xs"
    by (auto simp: boxes_on_def stack_new_def wf_layout_def alloc_def alloc_with_def and_then_Inr_iff
        split: sum.split)
  note new = init_is_new [OF unit_embedding.init_is_INIT refl refl refl u unit_ctors_def unit_ctors_def
      unit_ctors_def unit_ctors_def this]
  show ?thesis
    using new [where cs' = sample_calls and btp_init = "()" and st_init = blank and s_INIT = "()" and
        ly = byte_layouts and F = "{}" and env = sample_env] by blast
qed

end
