(* ===== verification/Forward.thy ===== *)
theory Forward
  imports Stack_Base Stack_Core
begin

text \<open>
  The implementations of the crate's traits for references: \<open>impl Trait for &mut T\<close> in
  \<^verbatim>\<open>src/src/mdns.rs\<close>, \<^verbatim>\<open>eth.rs\<close>, \<^verbatim>\<open>lib.rs\<close>, \<^verbatim>\<open>ble.rs\<close>, \<^verbatim>\<open>wireless/gatt.rs\<close>, \<^verbatim>\<open>wireless/wifi.rs\<close> and
  \<^verbatim>\<open>wireless/thread.rs\<close>, the ones for a type that has nothing to do, and the responders of
  \<^verbatim>\<open>rs-matter\<close> that take no addresses. A future is polled against a state, here that of its
  receiver; a mutable reference is a place in a larger state. The locale \<open>lawful_place\<close> has the
  laws of a place, and shows that a future polled through one does what it does by itself.
\<close>

section \<open>Futures and places\<close>

type_synonym ('t, 'o, 'r) poll = "'t \<Rightarrow> 'o \<Rightarrow> 'r option \<times> 't"

fun run_polls :: "('t, 'o, 'r) poll \<Rightarrow> 't \<Rightarrow> 'o list \<Rightarrow> 'r option \<times> 't" where
  "run_polls m t [] = (None, t)"
| "run_polls m t (ob # obs) =
     (case m t ob of
        (Some r, t') \<Rightarrow> (Some r, t')
      | (None, t') \<Rightarrow> run_polls m t' obs)"

record ('w, 't) place =
  pl_get :: "'w \<Rightarrow> 't"
  pl_put :: "'t \<Rightarrow> 'w \<Rightarrow> 'w"

text \<open>A method of the type at a place, called through a reference to it.\<close>

definition call_mut :: "('w, 't) place \<Rightarrow> ('t, 'o, 'r) poll \<Rightarrow> ('w, 'o, 'r) poll" where
  "call_mut p m w ob = (let (r, t) = m (pl_get p w) ob in (r, pl_put p t w))"

text \<open>A reference to a reference\<close>

definition place_comp :: "('w, 'v) place \<Rightarrow> ('v, 't) place \<Rightarrow> ('w, 't) place" where
  "place_comp p q =
     \<lparr>pl_get = (\<lambda>w. pl_get q (pl_get p w)), pl_put = (\<lambda>t w. pl_put p (pl_put q t (pl_get p w)) w)\<rparr>"

locale lawful_place =
  fixes p :: "('w, 't) place"
  assumes get_put: "pl_get p (pl_put p t w) = t"
    and put_get: "pl_put p (pl_get p w) w = w"
    and put_put: "pl_put p t (pl_put p u w) = pl_put p t w"
begin

lemma polls_through:
  "run_polls (call_mut p m) w obs =
     (let (r, t) = run_polls m (pl_get p w) obs in (r, pl_put p t w))"
proof (induction obs arbitrary: w)
  case Nil
  then show ?case by (simp add: put_get)
next
  case (Cons ob obs)
  obtain r t where st: "m (pl_get p w) ob = (r, t)" by fastforce
  then have call: "call_mut p m w ob = (r, pl_put p t w)" by (simp add: call_mut_def)
  show ?case
  proof (cases r)
    case None
    with st call Cons.IH [of "pl_put p t w"] show ?thesis
      by (simp add: get_put put_put split: prod.split)
  next
    case (Some x)
    with st call show ?thesis by simp
  qed
qed

lemma comp_lawful: "lawful_place q \<Longrightarrow> lawful_place (place_comp p q)"
  unfolding lawful_place_def by (auto simp: place_comp_def get_put put_get put_put)

end

text \<open>A future that polls as another one does at a place, and leaves the rest alone.\<close>

definition polls_at :: "('w, 't) place \<Rightarrow> ('t, 'o, 'r) poll \<Rightarrow> ('w, 'o, 'r) poll \<Rightarrow> bool" where
  "polls_at p m f \<longleftrightarrow>
     (\<forall>w obs. run_polls f w obs = (let (r, t) = run_polls m (pl_get p w) obs in (r, pl_put p t w)))"

context lawful_place
begin

lemma call_polls_at: "polls_at p m (call_mut p m)"
  by (simp add: polls_at_def polls_through)

end

text \<open>A receiver on its own\<close>

definition here :: "('t, 't) place" where
  "here = \<lparr>pl_get = id, pl_put = (\<lambda>t _. t)\<rparr>"

interpretation here: lawful_place here
  by unfold_locales (simp_all add: here_def)

section \<open>Implementations for references\<close>

text \<open>
  The method of the trait at \<open>T\<close> is the first argument, the place of the \<open>T\<close> that the \<open>&mut T\<close>
  refers to the second, then the arguments in the order the code passes them on.
\<close>

definition mdns_run_mut where
  "mdns_run_mut run self matter crypto udp mac ip4 ip6 interface =
     call_mut self (run matter crypto udp mac ip4 ip6 interface)"

definition ethernet_task_run_mut where
  "ethernet_task_run_mut run self net_stack netif eth_diag mdns =
     call_mut self (run net_stack netif eth_diag mdns)"

definition ethernet_run_mut where
  "ethernet_run_mut run self task = call_mut self (run task)"

definition user_task_run_mut where
  "user_task_run_mut run self net_stack netif = call_mut self (run net_stack netif)"

definition gatt_peripheral_run_mut where
  "gatt_peripheral_run_mut run self btp service_name service_adv =
     call_mut self (run btp service_name service_adv)"

definition gatt_task_run_mut where
  "gatt_task_run_mut run self peripheral = call_mut self (run peripheral)"

definition gatt_run_mut where
  "gatt_run_mut run self task = call_mut self (run task)"

definition wifi_task_run_mut where
  "wifi_task_run_mut run self net_stack netif net_ctl mdns =
     call_mut self (run net_stack netif net_ctl mdns)"

definition wifi_run_mut where
  "wifi_run_mut run self task = call_mut self (run task)"

definition wifi_coex_task_run_mut where
  "wifi_coex_task_run_mut run self net_stack netif net_ctl mdns gatt =
     call_mut self (run net_stack netif net_ctl mdns gatt)"

definition wifi_coex_run_mut where
  "wifi_coex_run_mut run self task = call_mut self (run task)"

definition thread_task_run_mut where
  "thread_task_run_mut run self net_stack netif net_ctl mdns =
     call_mut self (run net_stack netif net_ctl mdns)"

definition thread_driver_run_mut where
  "thread_driver_run_mut run self task = call_mut self (run task)"

definition thread_coex_task_run_mut where
  "thread_coex_task_run_mut run self net_stack netif net_ctl mdns gatt =
     call_mut self (run net_stack netif net_ctl mdns gatt)"

definition thread_coex_run_mut where
  "thread_coex_run_mut run self task = call_mut self (run task)"

lemmas forward_defs =
  mdns_run_mut_def ethernet_task_run_mut_def ethernet_run_mut_def user_task_run_mut_def
  gatt_peripheral_run_mut_def gatt_task_run_mut_def gatt_run_mut_def wifi_task_run_mut_def
  wifi_run_mut_def wifi_coex_task_run_mut_def wifi_coex_run_mut_def thread_task_run_mut_def
  thread_driver_run_mut_def thread_coex_task_run_mut_def thread_coex_run_mut_def

section \<open>Implementations with nothing to do\<close>

text \<open>\<open>UserTask for ()\<close> is pending for ever.\<close>

definition unit_user_task :: "'s \<Rightarrow> 'n \<Rightarrow> (unit, 'o, unit res) poll" where
  "unit_user_task net_stack netif = (\<lambda>_ _. (None, ()))"

text \<open>
  \<open>into_fallible\<close> (\<^verbatim>\<open>src/src/utils.rs\<close>): a future as one with a \<open>Result\<close>. It is polled as the future
  is and never fails.
\<close>

definition into_fallible :: "('t, 'o, 'r) poll \<Rightarrow> ('t, 'o, 'e + 'r) poll" where
  "into_fallible self t ob = (let (r, t) = self t ob in (map_option Inr r, t))"

lemma into_fallible_polls:
  "run_polls (into_fallible self) t obs = map_prod (map_option Inr) id (run_polls self t obs)"
  by (induction obs arbitrary: t) (auto simp: into_fallible_def Let_def split: prod.split option.split)

text \<open>\<open>DummyAttrNotifier\<close>: no data model is there yet to notify.\<close>

datatype attr_change =
    Attr_Changed nat nat nat
  | Cluster_Changed nat nat
  | Endpoint_Changed nat
  | All_Changed

fun dummy_notify :: "attr_change \<Rightarrow> 'w \<Rightarrow> 'w" where
  "dummy_notify (Attr_Changed e c a) w = w"
| "dummy_notify (Cluster_Changed e c) w = w"
| "dummy_notify (Endpoint_Changed e) w = w"
| "dummy_notify All_Changed w = w"

section \<open>Responders of the system\<close>

text \<open>
  The responders that use a service of the operating system: the future of their own method
  \<open>run\<close> (code of \<^verbatim>\<open>rs-matter\<close>), which is given the \<open>Matter\<close> instance alone.
\<close>

definition avahi_run where
  "avahi_run self_run matter crypto udp mac ip4 ip6 interface = self_run matter"

definition resolve_run where
  "resolve_run self_run matter crypto udp mac ip4 ip6 interface = self_run matter"

definition zeroconf_run where
  "zeroconf_run self_run matter crypto udp mac ip4 ip6 interface = self_run matter"

definition astro_run where
  "astro_run self_run matter crypto udp mac ip4 ip6 interface = self_run matter"

section \<open>Peripherals of the system\<close>

text \<open>\<open>run_peripheral\<close> of the two Bluetooth stacks is code of \<^verbatim>\<open>rs-matter\<close>.\<close>

datatype bluer_peripheral = BluerGattPeripheral "string option"

definition bluer_new :: "string option \<Rightarrow> bluer_peripheral" where
  "bluer_new adapter_name = BluerGattPeripheral adapter_name"

definition bluer_run where
  "bluer_run run_peripheral self btp service_name service_adv =
     (case self of BluerGattPeripheral adapter \<Rightarrow> run_peripheral adapter service_name service_adv btp)"

record 'c bluez_peripheral =
  bz_connection :: 'c
  bz_adapter_name :: "string option"

definition bluez_new :: "'c \<Rightarrow> string option \<Rightarrow> 'c bluez_peripheral" where
  "bluez_new connection adapter_name =
     \<lparr>bz_connection = connection, bz_adapter_name = adapter_name\<rparr>"

definition bluez_run where
  "bluez_run run_peripheral self btp service_name service_adv =
     run_peripheral (bz_connection self) (bz_adapter_name self) service_name service_adv btp"

section \<open>Network stacks\<close>

text \<open>
  \<open>NetStack\<close>: what a network stack offers, each if it is supported. A reference to one offers
  the same; the stack of the standard library offers itself for all of them.
\<close>

record ('s, 'ub, 'uc, 'tb, 'tc, 'd) net_stack =
  ns_udp_bind :: "'s \<Rightarrow> 'ub option"
  ns_udp_connect :: "'s \<Rightarrow> 'uc option"
  ns_tcp_bind :: "'s \<Rightarrow> 'tb option"
  ns_tcp_connect :: "'s \<Rightarrow> 'tc option"
  ns_dns :: "'s \<Rightarrow> 'd option"

definition net_stack_ref ::
    "('s, 'ub, 'uc, 'tb, 'tc, 'd) net_stack \<Rightarrow> ('r \<Rightarrow> 's) \<Rightarrow> ('r, 'ub, 'uc, 'tb, 'tc, 'd) net_stack" where
  "net_stack_ref n deref =
     \<lparr>ns_udp_bind = (\<lambda>r. ns_udp_bind n (deref r)), ns_udp_connect = (\<lambda>r. ns_udp_connect n (deref r)),
      ns_tcp_bind = (\<lambda>r. ns_tcp_bind n (deref r)), ns_tcp_connect = (\<lambda>r. ns_tcp_connect n (deref r)),
      ns_dns = (\<lambda>r. ns_dns n (deref r))\<rparr>"

definition std_net_stack :: "('s, 's, 's, 's, 's, 's) net_stack" where
  "std_net_stack =
     \<lparr>ns_udp_bind = (\<lambda>self. Some self), ns_udp_connect = (\<lambda>self. Some self),
      ns_tcp_bind = (\<lambda>self. Some self), ns_tcp_connect = (\<lambda>self. Some self),
      ns_dns = (\<lambda>self. Some self)\<rparr>"

end
