(* ===== verification/Drivers.thy ===== *)
theory Drivers
  imports Forward
begin

text \<open>
  The drivers for interfaces that are up already: \<open>PreexistingEthernet\<close> of \<^verbatim>\<open>src/src/eth.rs\<close> and
  \<open>PreexistingWireless\<close> of \<^verbatim>\<open>src/src/wireless.rs\<close> with its implementations of \<open>Gatt\<close>, \<open>Wifi\<close>,
  \<open>WifiCoex\<close>, \<open>Thread\<close> and \<open>ThreadCoex\<close>. A task is given shared references to the stack, the
  interface and the controller, and mutable references to the responder and the peripheral: places
  in the driver.
\<close>

section \<open>Ethernet\<close>

record ('s, 'n, 'd, 'm) preexisting_ethernet =
  pe_stack :: 's
  pe_netif :: 'n
  pe_eth_diag :: 'd
  pe_mdns :: 'm

definition preexisting_ethernet_new :: "'s \<Rightarrow> 'n \<Rightarrow> 'd \<Rightarrow> 'm \<Rightarrow> ('s, 'n, 'd, 'm) preexisting_ethernet" where
  "preexisting_ethernet_new stack netif eth_diag mdns =
     \<lparr>pe_stack = stack, pe_netif = netif, pe_eth_diag = eth_diag, pe_mdns = mdns\<rparr>"

text \<open>The state is that of the task (\<open>mut task\<close>, owned by the call) and the driver.\<close>

definition pe_task_place :: "('k \<times> ('s, 'n, 'd, 'm) preexisting_ethernet, 'k \<times> 'm) place" where
  "pe_task_place =
     \<lparr>pl_get = (\<lambda>(k, self). (k, pe_mdns self)),
      pl_put = (\<lambda>(k, m) (_, self). (k, self\<lparr>pe_mdns := m\<rparr>))\<rparr>"

definition preexisting_ethernet_run ::
    "('s \<Rightarrow> 'n \<Rightarrow> 'd \<Rightarrow> ('k \<times> 'm, 'o, unit res) poll) \<Rightarrow>
     ('k \<times> ('s, 'n, 'd, 'm) preexisting_ethernet, 'o, unit res) poll" where
  "preexisting_ethernet_run task_run = (\<lambda>(k, self).
     call_mut pe_task_place (task_run (pe_stack self) (pe_netif self) (pe_eth_diag self)) (k, self))"

section \<open>Wireless\<close>

record ('s, 'n, 'c, 'm, 'g) preexisting_wireless =
  pw_net_stack :: 's
  pw_netif :: 'n
  pw_net_ctl :: 'c
  pw_mdns :: 'm
  pw_gatt :: 'g

definition preexisting_wireless_new ::
    "'s \<Rightarrow> 'n \<Rightarrow> 'c \<Rightarrow> 'm \<Rightarrow> 'g \<Rightarrow> ('s, 'n, 'c, 'm, 'g) preexisting_wireless" where
  "preexisting_wireless_new net_stack netif net_ctl mdns gatt =
     \<lparr>pw_net_stack = net_stack, pw_netif = netif, pw_net_ctl = net_ctl, pw_mdns = mdns,
      pw_gatt = gatt\<rparr>"

definition pw_mdns_place :: "('k \<times> ('s, 'n, 'c, 'm, 'g) preexisting_wireless, 'k \<times> 'm) place" where
  "pw_mdns_place =
     \<lparr>pl_get = (\<lambda>(k, self). (k, pw_mdns self)),
      pl_put = (\<lambda>(k, m) (_, self). (k, self\<lparr>pw_mdns := m\<rparr>))\<rparr>"

definition pw_gatt_place :: "('k \<times> ('s, 'n, 'c, 'm, 'g) preexisting_wireless, 'k \<times> 'g) place" where
  "pw_gatt_place =
     \<lparr>pl_get = (\<lambda>(k, self). (k, pw_gatt self)),
      pl_put = (\<lambda>(k, g) (_, self). (k, self\<lparr>pw_gatt := g\<rparr>))\<rparr>"

definition pw_both_place :: "('k \<times> ('s, 'n, 'c, 'm, 'g) preexisting_wireless, 'k \<times> 'm \<times> 'g) place" where
  "pw_both_place =
     \<lparr>pl_get = (\<lambda>(k, self). (k, pw_mdns self, pw_gatt self)),
      pl_put = (\<lambda>(k, m, g) (_, self). (k, self\<lparr>pw_mdns := m, pw_gatt := g\<rparr>))\<rparr>"

definition preexisting_gatt_run ::
    "('k \<times> 'g, 'o, unit res) poll \<Rightarrow>
     ('k \<times> ('s, 'n, 'c, 'm, 'g) preexisting_wireless, 'o, unit res) poll" where
  "preexisting_gatt_run task_run = call_mut pw_gatt_place task_run"

definition preexisting_wifi_run ::
    "('s \<Rightarrow> 'n \<Rightarrow> 'c \<Rightarrow> ('k \<times> 'm, 'o, unit res) poll) \<Rightarrow>
     ('k \<times> ('s, 'n, 'c, 'm, 'g) preexisting_wireless, 'o, unit res) poll" where
  "preexisting_wifi_run task_run = (\<lambda>(k, self).
     call_mut pw_mdns_place (task_run (pw_net_stack self) (pw_netif self) (pw_net_ctl self)) (k, self))"

definition preexisting_wifi_coex_run ::
    "('s \<Rightarrow> 'n \<Rightarrow> 'c \<Rightarrow> ('k \<times> 'm \<times> 'g, 'o, unit res) poll) \<Rightarrow>
     ('k \<times> ('s, 'n, 'c, 'm, 'g) preexisting_wireless, 'o, unit res) poll" where
  "preexisting_wifi_coex_run task_run = (\<lambda>(k, self).
     call_mut pw_both_place (task_run (pw_net_stack self) (pw_netif self) (pw_net_ctl self)) (k, self))"

definition preexisting_thread_run ::
    "('s \<Rightarrow> 'n \<Rightarrow> 'c \<Rightarrow> ('k \<times> 'm, 'o, unit res) poll) \<Rightarrow>
     ('k \<times> ('s, 'n, 'c, 'm, 'g) preexisting_wireless, 'o, unit res) poll" where
  "preexisting_thread_run task_run = (\<lambda>(k, self).
     call_mut pw_mdns_place (task_run (pw_net_stack self) (pw_netif self) (pw_net_ctl self)) (k, self))"

definition preexisting_thread_coex_run ::
    "('s \<Rightarrow> 'n \<Rightarrow> 'c \<Rightarrow> ('k \<times> 'm \<times> 'g, 'o, unit res) poll) \<Rightarrow>
     ('k \<times> ('s, 'n, 'c, 'm, 'g) preexisting_wireless, 'o, unit res) poll" where
  "preexisting_thread_coex_run task_run = (\<lambda>(k, self).
     call_mut pw_both_place (task_run (pw_net_stack self) (pw_netif self) (pw_net_ctl self)) (k, self))"

interpretation pe_place: lawful_place pe_task_place
  by unfold_locales (auto simp: pe_task_place_def)

interpretation pw_mdns: lawful_place pw_mdns_place
  by unfold_locales (auto simp: pw_mdns_place_def)

interpretation pw_gatt: lawful_place pw_gatt_place
  by unfold_locales (auto simp: pw_gatt_place_def)

interpretation pw_both: lawful_place pw_both_place
  by unfold_locales (auto simp: pw_both_place_def)

section \<open>What the task is given does not change under it\<close>

lemma preexisting_ethernet_polls:
  "run_polls (preexisting_ethernet_run task_run) (k, self) obs =
     run_polls (call_mut pe_task_place (task_run (pe_stack self) (pe_netif self) (pe_eth_diag self)))
       (k, self) obs"
proof (induction obs arbitrary: k self)
  case Nil
  then show ?case by simp
next
  case (Cons ob obs)
  obtain r k' m where st: "task_run (pe_stack self) (pe_netif self) (pe_eth_diag self) (k, pe_mdns self) ob = (r, k', m)"
    by (rule prod_cases3)
  with Cons.IH [of k' "self\<lparr>pe_mdns := m\<rparr>"] show ?case
    by (simp add: preexisting_ethernet_run_def call_mut_def pe_task_place_def split: option.split)
qed

lemma preexisting_wifi_polls:
  "run_polls (preexisting_wifi_run task_run) (k, self) obs =
     run_polls (call_mut pw_mdns_place (task_run (pw_net_stack self) (pw_netif self) (pw_net_ctl self)))
       (k, self) obs"
proof (induction obs arbitrary: k self)
  case Nil
  then show ?case by simp
next
  case (Cons ob obs)
  obtain r k' m where st: "task_run (pw_net_stack self) (pw_netif self) (pw_net_ctl self) (k, pw_mdns self) ob = (r, k', m)"
    by (rule prod_cases3)
  with Cons.IH [of k' "self\<lparr>pw_mdns := m\<rparr>"] show ?case
    by (simp add: preexisting_wifi_run_def call_mut_def pw_mdns_place_def split: option.split)
qed

lemma preexisting_coex_polls:
  "run_polls (preexisting_wifi_coex_run task_run) (k, self) obs =
     run_polls (call_mut pw_both_place (task_run (pw_net_stack self) (pw_netif self) (pw_net_ctl self)))
       (k, self) obs"
proof (induction obs arbitrary: k self)
  case Nil
  then show ?case by simp
next
  case (Cons ob obs)
  obtain r k' m g where st:
    "task_run (pw_net_stack self) (pw_netif self) (pw_net_ctl self) (k, pw_mdns self, pw_gatt self) ob = (r, k', m, g)"
    by (rule prod_cases4)
  with Cons.IH [of k' "self\<lparr>pw_mdns := m, pw_gatt := g\<rparr>"] show ?case
    by (simp add: preexisting_wifi_coex_run_def call_mut_def pw_both_place_def split: option.split)
qed

lemma preexisting_thread_is_wifi:
  "preexisting_thread_run = preexisting_wifi_run"
  "preexisting_thread_coex_run = preexisting_wifi_coex_run"
  by (intro ext, simp add: preexisting_thread_run_def preexisting_wifi_run_def)
    (intro ext, simp add: preexisting_thread_coex_run_def preexisting_wifi_coex_run_def)

text \<open>
  A driver for an interface that is up already runs its task and nothing else: the result is
  the task's when it runs with the driver's own stack, interface and diagnostics (controller), the
  task and the responder and the peripheral lent to it end as they do there, and the rest of the
  driver is what it was.
\<close>

theorem preexisting_drivers_run_task:
  "run_polls (preexisting_ethernet_run eth_task_run) (k, e) obs =
     (let (r, k', m) = run_polls (eth_task_run (pe_stack e) (pe_netif e) (pe_eth_diag e)) (k, pe_mdns e) obs
      in (r, k', e\<lparr>pe_mdns := m\<rparr>)) \<and>
   run_polls (preexisting_wifi_run task_run) (k, w) obs =
     (let (r, k', m) = run_polls (task_run (pw_net_stack w) (pw_netif w) (pw_net_ctl w)) (k, pw_mdns w) obs
      in (r, k', w\<lparr>pw_mdns := m\<rparr>)) \<and>
   run_polls (preexisting_thread_run task_run) (k, w) obs = run_polls (preexisting_wifi_run task_run) (k, w) obs \<and>
   run_polls (preexisting_wifi_coex_run coex_task_run) (k, w) obs =
     (let (r, k', m, g) = run_polls (coex_task_run (pw_net_stack w) (pw_netif w) (pw_net_ctl w))
            (k, pw_mdns w, pw_gatt w) obs
      in (r, k', w\<lparr>pw_mdns := m, pw_gatt := g\<rparr>)) \<and>
   run_polls (preexisting_thread_coex_run coex_task_run) (k, w) obs =
     run_polls (preexisting_wifi_coex_run coex_task_run) (k, w) obs \<and>
   run_polls (preexisting_gatt_run gatt_task_run) (k, w) obs =
     (let (r, k', g) = run_polls gatt_task_run (k, pw_gatt w) obs in (r, k', w\<lparr>pw_gatt := g\<rparr>))"
  unfolding preexisting_ethernet_polls preexisting_wifi_polls preexisting_coex_polls
    preexisting_thread_is_wifi preexisting_gatt_run_def pe_place.polls_through pw_mdns.polls_through
    pw_both.polls_through pw_gatt.polls_through
  by (simp add: pe_task_place_def pw_mdns_place_def pw_both_place_def pw_gatt_place_def
      split: prod.split)

text \<open>
  A task, a driver, a responder or a peripheral handed over by mutable reference does what it
  does by value: whichever of the traits it implements, polling through the reference - or through a
  reference to the reference - gives the same result, leaves the referenced value as polling it does,
  and changes nothing around it.
\<close>

theorem references_transparent:
  assumes "lawful_place p" and "lawful_place q" and "self = p \<or> self = place_comp p q"
  shows "polls_at self (mdns_run matter crypto udp mac ip4 ip6 interface)
      (mdns_run_mut mdns_run self matter crypto udp mac ip4 ip6 interface) \<and>
    polls_at self (user_run net_stack netif) (user_task_run_mut user_run self net_stack netif) \<and>
    polls_at self (peripheral_run btp name adv) (gatt_peripheral_run_mut peripheral_run self btp name adv) \<and>
    polls_at self (gatt_task_run peripheral) (gatt_task_run_mut gatt_task_run self peripheral) \<and>
    polls_at self (gatt_run gatt_task) (gatt_run_mut gatt_run self gatt_task) \<and>
    polls_at self (eth_task_run net_stack netif diag mdns)
      (ethernet_task_run_mut eth_task_run self net_stack netif diag mdns) \<and>
    polls_at self (ethernet_run eth_task) (ethernet_run_mut ethernet_run self eth_task) \<and>
    polls_at self (wifi_task_run net_stack netif net_ctl mdns)
      (wifi_task_run_mut wifi_task_run self net_stack netif net_ctl mdns) \<and>
    polls_at self (wifi_run wifi_task) (wifi_run_mut wifi_run self wifi_task) \<and>
    polls_at self (wifi_coex_task_run net_stack netif net_ctl mdns gatt)
      (wifi_coex_task_run_mut wifi_coex_task_run self net_stack netif net_ctl mdns gatt) \<and>
    polls_at self (wifi_coex_run coex_task) (wifi_coex_run_mut wifi_coex_run self coex_task) \<and>
    polls_at self (thread_task_run net_stack netif net_ctl mdns)
      (thread_task_run_mut thread_task_run self net_stack netif net_ctl mdns) \<and>
    polls_at self (thread_run thread_task) (thread_driver_run_mut thread_run self thread_task) \<and>
    polls_at self (thread_coex_task_run net_stack netif net_ctl mdns gatt)
      (thread_coex_task_run_mut thread_coex_task_run self net_stack netif net_ctl mdns gatt) \<and>
    polls_at self (thread_coex_run coex_task) (thread_coex_run_mut thread_coex_run self coex_task)"
proof -
  have l: "lawful_place self"
    using assms lawful_place.comp_lawful by metis
  show ?thesis
    unfolding forward_defs by (intro conjI lawful_place.call_polls_at [OF l])
qed

text \<open>A responder in a driver, through a reference to the driver's responder and the task's state.\<close>

definition counting_mdns :: "nat \<Rightarrow> (nat \<times> nat, bool, unit res) poll" where
  "counting_mdns limit = (\<lambda>(k, m) b. (if limit \<le> m then Some (Inr ()) else None, k, if b then Suc m else m))"

theorem references_transparent_witness:
  "run_polls (mdns_run_mut (\<lambda>limit _ _ _ _ _ _. counting_mdns limit)
        (place_comp pe_task_place here) 1 () () () () () ())
      (5, preexisting_ethernet_new () () () 0) [True, True] =
    (Some (Inr ()), 5, preexisting_ethernet_new () () () 2)"
proof -
  note t = references_transparent [OF pe_place.lawful_place_axioms here.lawful_place_axioms disjI2 [OF refl],
      where mdns_run = "\<lambda>limit _ _ _ _ _ _. counting_mdns limit" and matter = 1, THEN conjunct1,
      unfolded polls_at_def, rule_format]
  show ?thesis
    unfolding t
    by (simp add: counting_mdns_def place_comp_def here_def pe_task_place_def preexisting_ethernet_new_def)
qed

section \<open>Sockets to unwrap\<close>

text \<open>
  Through any number of references the network stack of the standard library offers its sockets, so
  that the \<open>unwrap!\<close> of \<open>run_oper_net\<close> and of the mDNS task, which ask for the binding of UDP
  sockets, do not panic with it.
\<close>

lemma std_stack_offers:
  "ns_udp_bind (net_stack_ref std_net_stack deref) r = Some (deref r)"
  "ns_udp_bind (net_stack_ref (net_stack_ref std_net_stack deref) deref') r' = Some (deref (deref' r'))"
  by (simp_all add: net_stack_ref_def std_net_stack_def)

end
