(* ===== verification/Fmt.thy ===== *)
theory Fmt
  imports Mdns_Host
begin

text \<open>
  \<^verbatim>\<open>src/src/fmt.rs\<close>: what the crate's macros expand to under the enabled cargo features, the
  \<open>unwrap!\<close> macro with the \<open>Try\<close> trait behind it, and the formatting of \<open>Bytes\<close>, with the parts
  of \<open>core::fmt\<close> that the format string \<open>{:#02x?}\<close> reaches.
\<close>

section \<open>Macros by feature\<close>

text \<open>
  A macro of \<open>core\<close> with the same name, or the one of \<open>defmt\<close>: \<open>assert\<close>, \<open>assert_eq\<close>,
  \<open>assert_ne\<close>, the three \<open>debug_assert\<close>s, \<open>todo\<close>, \<open>unreachable\<close> and \<open>panic\<close>.
\<close>

datatype expansion = Core_Macro string | Defmt_Macro string

definition core_macro :: "string set \<Rightarrow> string \<Rightarrow> expansion list" where
  "core_macro F name =
     (if ''defmt'' \<notin> F then [Core_Macro name] else []) @
     (if ''defmt'' \<in> F then [Defmt_Macro name] else [])"

text \<open>
  \<open>trace\<close>, \<open>debug\<close>, \<open>info\<close>, \<open>warn\<close> and \<open>error\<close>: a macro of a logging crate decides by its level
  and filters whether it evaluates the arguments, so it is given them unevaluated; with neither
  crate they are evaluated, in order, for a reference to each.
\<close>

definition log_macro ::
    "string set \<Rightarrow> (('w \<Rightarrow> 'w) list \<Rightarrow> 'w \<Rightarrow> 'w) \<Rightarrow> (('w \<Rightarrow> 'w) list \<Rightarrow> 'w \<Rightarrow> 'w) \<Rightarrow>
     ('w \<Rightarrow> 'w) list \<Rightarrow> 'w \<Rightarrow> 'w" where
  "log_macro F log_crate defmt_crate args w =
     (let w = if ''log'' \<in> F then log_crate args w else w;
          w = if ''defmt'' \<in> F then defmt_crate args w else w
      in if ''log'' \<notin> F \<and> ''defmt'' \<notin> F then fold (\<lambda>a. a) args w else w)"

text \<open>\<open>display2format\<close> and \<open>debug2format\<close>: a wrapper of \<open>defmt\<close>, or the argument itself.\<close>

datatype 'a formatted = Display_Format 'a | Debug_Format 'a | As_It_Is 'a

definition display2format :: "string set \<Rightarrow> 'a \<Rightarrow> 'a formatted" where
  "display2format F arg = (if ''defmt'' \<in> F then Display_Format arg else As_It_Is arg)"

definition debug2format :: "string set \<Rightarrow> 'a \<Rightarrow> 'a formatted" where
  "debug2format F arg = (if ''defmt'' \<in> F then Debug_Format arg else As_It_Is arg)"

text \<open>
  A statement whose crates evaluate each argument once evaluates it once, but twice with both
  crates enabled; two crates that filter the statement out do not evaluate it.
\<close>

lemma log_macro_evaluates:
  assumes "\<And>args w. log_crate args w = fold (\<lambda>a. a) args w"
    and "\<And>args w. defmt_crate args w = fold (\<lambda>a. a) args w"
  shows "log_macro F log_crate defmt_crate args w =
     ((fold (\<lambda>a. a) args) ^^ (if {''log'', ''defmt''} \<subseteq> F then 2 else 1)) w"
  by (simp add: log_macro_def assms numeral_2_eq_2)

lemma log_macro_filtered:
  "log_macro F (\<lambda>_ w. w) (\<lambda>_ w. w) args w =
     (if F \<inter> {''log'', ''defmt''} = {} then fold (\<lambda>a. a) args w else w)"
  by (auto simp: log_macro_def)

section \<open>Unwrapping\<close>

text \<open>\<open>NoneError\<close>, \<open>Try\<close> for \<open>Option\<close> and for \<open>Result\<close>\<close>

datatype none_error = NoneError

definition option_into_result :: "'a option \<Rightarrow> none_error + 'a" where
  "option_into_result self = (case self of Some t \<Rightarrow> Inr t | None \<Rightarrow> Inl NoneError)"

definition result_into_result :: "'e + 'a \<Rightarrow> 'e + 'a" where
  "result_into_result self = self"

text \<open>
  \<open>unwrap!\<close> without \<open>defmt\<close>, with and without a message: the text of the expression, the message
  as it is formatted, and the \<open>Debug\<close> form of the error make the message of the panic.
\<close>

definition unwrap_macro :: "('e \<Rightarrow> string) \<Rightarrow> string \<Rightarrow> string option \<Rightarrow> 'e + 'a \<Rightarrow> string + 'a" where
  "unwrap_macro debug arg msg r =
     (case r of
        Inr t \<Rightarrow> Inr t
      | Inl e \<Rightarrow>
          Inl (''unwrap of `'' @ arg @ ''` failed: '' @
               (case msg of None \<Rightarrow> [] | Some m \<Rightarrow> m @ '': '') @ debug e))"

text \<open>
  A panic carries no message in the rest of the development. That of the write into the host
  name is the panic of \<open>unwrap!\<close>, for one piece and so for the whole of \<open>write_unwrap\<close>.
\<close>

definition write_piece :: "nat \<Rightarrow> string \<Rightarrow> string \<Rightarrow> unit + string" where
  "write_piece cap s piece = (if length s + length piece \<le> cap then Inr (s @ piece) else Inl ())"

lemma write_str_unwraps:
  "write_str cap s piece =
     map_sum (\<lambda>_. Unwrap_Failed) id
       (unwrap_macro debug arg msg (result_into_result (write_piece cap s piece)))"
  by (simp add: write_str_def write_piece_def unwrap_macro_def result_into_result_def)

lemma write_unwrap_cons:
  "write_unwrap cap s (p # ps) =
     and_then
       (map_sum (\<lambda>_. Unwrap_Failed) id
         (unwrap_macro debug arg msg (result_into_result (write_piece cap s p))))
       (\<lambda>s. write_unwrap cap s ps)"
  by (simp add: write_str_unwraps [symmetric])

text \<open>
  With \<open>defmt\<close>, \<open>unwrap!\<close> is the macro of that crate, and the error of a write is wrapped in
  \<open>FmtError\<close> so that it can be formatted. What is written for a \<open>FmtError\<close> and for a \<open>Bytes\<close> is a
  format string with its argument, which is put together on the host.
\<close>

datatype fmt_error = FmtError unit

definition fmt_error_format :: "fmt_error \<Rightarrow> string \<times> string" where
  "fmt_error_format self = (''{}'', ''FmtError'')"

definition bytes_format :: "8 word list \<Rightarrow> string \<times> 8 word list" where
  "bytes_format self = (''{:02x}'', self)"

definition unwrap_by_feature where
  "unwrap_by_feature F defmt_unwrap debug arg msg r =
     (if ''defmt'' \<in> F then defmt_unwrap r else unwrap_macro debug arg msg (result_into_result r))"

fun write_unwrap_defmt :: "(fmt_error + string \<Rightarrow> string + string) \<Rightarrow> nat \<Rightarrow> string \<Rightarrow> string list \<Rightarrow> string + string" where
  "write_unwrap_defmt defmt_unwrap cap s [] = Inr s"
| "write_unwrap_defmt defmt_unwrap cap s (p # ps) =
     and_then (defmt_unwrap (map_sum FmtError id (write_piece cap s p)))
       (\<lambda>s. write_unwrap_defmt defmt_unwrap cap s ps)"

text \<open>Either way a write succeeds with the same text, and panics on the same pieces.\<close>

lemma unwrap_features:
  assumes "\<And>e. \<exists>msg. defmt_unwrap (Inl e) = Inl msg" and "\<And>t. defmt_unwrap (Inr t) = Inr t"
  shows "map_sum (\<lambda>_. Unwrap_Failed) id (unwrap_by_feature F defmt_unwrap debug arg msg r) =
    map_sum (\<lambda>_. Unwrap_Failed) id r"
  using assms(1) by (cases r) (auto simp: unwrap_by_feature_def unwrap_macro_def result_into_result_def assms(2)
      dest: spec split: option.split, metis map_sum.simps(1) assms(1))

lemma write_unwrap_features:
  assumes "\<And>e. \<exists>msg. defmt_unwrap (Inl e) = Inl msg" and "\<And>t. defmt_unwrap (Inr t) = Inr t"
  shows "map_sum (\<lambda>_. Unwrap_Failed) id (write_unwrap_defmt defmt_unwrap cap s ps) = write_unwrap cap s ps"
proof (induction ps arbitrary: s)
  case Nil
  then show ?case by simp
next
  case (Cons p ps)
  from assms(1) obtain msg where "defmt_unwrap (Inl (FmtError ())) = Inl msg" by blast
  with Cons show ?case by (simp add: write_piece_def write_str_def assms(2))
qed

section \<open>The bytes of a slice\<close>

definition newline :: char where
  "newline = CHR 0x0A"

definition lower_digit :: "nat \<Rightarrow> char" where
  "lower_digit d = ''0123456789abcdef'' ! d"

text \<open>The digits of a byte in lower case hexadecimal, without leading zeros.\<close>

definition lower_hex :: "8 word \<Rightarrow> string" where
  "lower_hex b =
     (if unat b < 16 then [lower_digit (unat b)]
      else [lower_digit (unat b div 16), lower_digit (unat b mod 16)])"

text \<open>\<open>Formatter::pad_integral\<close> with the flags \<open>#\<close> and \<open>0\<close>: the prefix counts for the width.\<close>

definition pad_integral :: "nat \<Rightarrow> string \<Rightarrow> string \<Rightarrow> string" where
  "pad_integral width prefix digits =
     prefix @ replicate (width - (length prefix + length digits)) CHR ''0'' @ digits"

text \<open>\<open>PadAdapter\<close>, which indents the lines of an entry of a pretty-printed list.\<close>

fun pad_adapter :: "bool \<Rightarrow> string \<Rightarrow> string" where
  "pad_adapter on_newline [] = []"
| "pad_adapter on_newline (c # s) =
     (if on_newline then ''    '' else []) @ c # pad_adapter (c = newline) s"

text \<open>\<open>Debug\<close> of a slice with the flag \<open>#\<close>, over the forms of its entries\<close>

definition pretty_list :: "string list \<Rightarrow> string" where
  "pretty_list es =
     (if es = [] then ''[]''
      else ''['' @ [newline] @ concat (map (\<lambda>e. pad_adapter True (e @ '','' @ [newline])) es) @ '']'')"

text \<open>\<open>Debug\<close>, \<open>Display\<close> and \<open>LowerHex\<close> for \<open>Bytes\<close>: all three write \<open>{:#02x?}\<close> of the slice.\<close>

definition bytes_fmt :: "8 word list \<Rightarrow> string" where
  "bytes_fmt bs = pretty_list (map (\<lambda>b. pad_integral 2 ''0x'' (lower_hex b)) bs)"

text \<open>The documented form, \<open>{:x?}\<close>: on one line, without prefixes.\<close>

definition bytes_doc :: "8 word list \<Rightarrow> string" where
  "bytes_doc bs =
     ''['' @ concat (map (\<lambda>(i, b). (if i = 0 then [] else '', '') @ lower_hex b)
                       (zip [0..<length bs] bs)) @ '']''"

subsection \<open>Reading the bytes back\<close>

definition lower_value :: "char \<Rightarrow> nat" where
  "lower_value c = (if of_char c < (58::nat) then of_char c - 48 else of_char c - 87)"

fun scan_bytes :: "nat option \<Rightarrow> string \<Rightarrow> 8 word list" where
  "scan_bytes acc [] = []"
| "scan_bytes None (c # s) = (if c = CHR ''x'' then scan_bytes (Some 0) s else scan_bytes None s)"
| "scan_bytes (Some n) (c # s) =
     (if c = CHR '','' then of_nat n # scan_bytes None s
      else scan_bytes (Some (16 * n + lower_value c)) s)"

lemma lower_digits:
  assumes "d < 16"
  shows "lower_value (lower_digit d) = d" "lower_digit d \<noteq> CHR '',''" "lower_digit d \<noteq> newline"
proof -
  have "\<forall>d \<in> set [0..<16]. lower_value (lower_digit d) = d \<and> lower_digit d \<noteq> CHR '','' \<and>
      lower_digit d \<noteq> newline"
    by (simp add: lower_value_def lower_digit_def newline_def upt_rec)
  with assms show "lower_value (lower_digit d) = d" "lower_digit d \<noteq> CHR '',''"
    "lower_digit d \<noteq> newline" by simp_all
qed

lemma unat_high_digit: "unat (b :: 8 word) div 16 < 16"
  using unat_byte [of b] by (simp add: less_mult_imp_div_less)

lemma bytes_entry:
  "pad_adapter True (pad_integral 2 ''0x'' (lower_hex b) @ '','' @ [newline]) =
     ''    0x'' @ lower_hex b @ '','' @ [newline]"
  by (simp add: pad_integral_def lower_hex_def lower_digits unat_high_digit)
    (simp add: newline_def)

lemma scan_entry:
  "scan_bytes None (''    0x'' @ lower_hex b @ '','' @ [newline] @ s) = b # scan_bytes None s"
proof -
  have "16 * (unat b div 16) + unat b mod 16 = unat b" by simp
  then show ?thesis
    by (simp add: lower_hex_def lower_digits unat_high_digit newline_def del: mult_div_mod_eq)
qed

lemma bytes_fmt_unfold:
  "bytes_fmt bs =
     (if bs = [] then ''[]''
      else ''['' @ [newline] @ concat (map (\<lambda>b. ''    0x'' @ lower_hex b @ '','' @ [newline]) bs) @ '']'')"
  by (simp add: bytes_fmt_def pretty_list_def comp_def bytes_entry
      del: append_Cons pad_adapter.simps)

text \<open>
  The form of a \<open>Bytes\<close> has every byte of the slice, in order: they can be read back from it.
\<close>

theorem bytes_fmt_roundtrip: "scan_bytes None (bytes_fmt bs) = bs"
proof -
  have "scan_bytes None (concat (map (\<lambda>b. ''    0x'' @ lower_hex b @ '','' @ [newline]) bs) @ '']'') = bs"
    by (induction bs) (simp_all add: scan_entry del: append_Cons)
  then show ?thesis
    by (simp add: bytes_fmt_unfold newline_def)
qed

text \<open>
  \<open>Bytes\<close> is documented to format a slice as \<open>{:x?}\<close> does. It does so for the empty slice
  alone: any other one is spread over a line for each byte and two more, and a byte below 16 has
  one digit, because the width 2 of the format is used up by the prefix.
\<close>

theorem bytes_fmt_as_documented:
  "(bytes_fmt bs = bytes_doc bs \<longleftrightarrow> bs = []) \<and>
   length (filter (\<lambda>c. c = newline) (bytes_fmt bs)) = (if bs = [] then 0 else Suc (length bs))"
proof -
  have lines: "length (filter (\<lambda>c. c = newline)
      (concat (map (\<lambda>b. ''    0x'' @ lower_hex b @ '','' @ [newline]) bs))) = length bs" for bs
    by (induction bs) (simp_all add: lower_hex_def lower_digits unat_high_digit, simp_all add: newline_def)
  have plain: "newline \<notin> set (lower_hex b)" for b
    using lower_digits(3) [of "unat b"] lower_digits(3) [of "unat b div 16"]
      lower_digits(3) [of "unat b mod 16"] unat_high_digit [of b]
    by (auto simp: lower_hex_def)
  have "newline \<notin> set (bytes_doc bs)"
    using plain by (auto simp: bytes_doc_def newline_def split: if_splits)
  moreover have "bs \<noteq> [] \<Longrightarrow> newline \<in> set (bytes_fmt bs)"
    by (simp add: bytes_fmt_unfold)
  moreover have "bytes_fmt [] = bytes_doc []"
    by (simp add: bytes_fmt_def pretty_list_def bytes_doc_def)
  moreover have "length (filter (\<lambda>c. c = newline) (bytes_fmt bs)) = (if bs = [] then 0 else Suc (length bs))"
    using lines [of bs] by (simp add: bytes_fmt_unfold, simp add: newline_def)
  ultimately show ?thesis by metis
qed

end
