(* ===== verification/Live_Net.thy ===== *)
theory Live_Net
  imports Net_Tasks Core_Spec
begin

text \<open>
  The network tasks composed with the phases: what the Ethernet and the coexistence machine observe
  of the transport and of the supervision is here what the two tasks do, memory apart. What the
  supervision does with the responder after a change of the interface is shown for the task by
  itself.
\<close>

section \<open>The phases with their tasks\<close>

text \<open>
  A phase machine given by its \<open>step\<close>, and \<open>oper\<close>, the states in which the two tasks exist. They are
  created by the evaluation that enters such a state.
\<close>

record 'w live_state =
  lv_phase :: 'w
  lv_nets :: nets

record ('q, 'st) live_obs =
  lo_phase :: "('q, 'st) wl_obs"
  lo_nets :: nets_obs

definition live_new :: "'w \<Rightarrow> 'w live_state" where
  "live_new w = \<lparr>lv_phase = w, lv_nets = nets_new\<rparr>"

definition live ::
    "('w \<Rightarrow> bool) \<Rightarrow> ('w, ('q, 'st) wl_obs, unit res) task \<Rightarrow>
     (unit res option list \<Rightarrow> unit res option) \<Rightarrow> bool \<Rightarrow>
     ('w live_state, ('q, 'st) live_obs, panic + unit res) task" where
  "live oper step sel b s ob =
     (if oper (lv_phase s)
      then (case poll_nets sel b (lv_nets s) (lo_nets ob) of
              Inl p \<Rightarrow> Inl (Inl p)
            | Inr (net, mdns, n) \<Rightarrow>
                map_sum Inr (\<lambda>w. \<lparr>lv_phase = w, lv_nets = n\<rparr>)
                  (step (lv_phase s) ((lo_phase ob)\<lparr>ob_oper_net := net, ob_mdns := mdns\<rparr>)))
      else map_sum Inr (\<lambda>w. \<lparr>lv_phase = w, lv_nets = nets_new\<rparr>) (step (lv_phase s) (lo_phase ob)))"

fun eth_operational :: "eth_state \<Rightarrow> bool" where
  "eth_operational s = (case et_pc s of Eth_Running _ \<Rightarrow> True | Eth_Start \<Rightarrow> False)"

fun coex_operational :: "coex_state \<Rightarrow> bool" where
  "coex_operational s = (case cx_pc s of Coex_Running _ _ \<Rightarrow> True | Coex_Start \<Rightarrow> False)"

definition eth_live where
  "eth_live env b = live eth_operational (eth_task env) (we_select env) b"

definition wifi_coex_live where
  "wifi_coex_live env b = live coex_operational (wifi_coex_task env) (we_select env) b"

section \<open>The responder follows the interface\<close>

text \<open>The mDNS task sleeps for ever only over an interface that is down.\<close>

definition sleeps_down :: "netif_run \<Rightarrow> bool" where
  "sleeps_down s \<longleftrightarrow> (nr_mdns s = Md_Down \<longrightarrow> \<not> ns_operational (nr_cur s))"

lemma poll_mdns_sleeps: "sleeps_down s \<Longrightarrow> poll_mdns b ob s = Inr s' \<Longrightarrow> sleeps_down s'"
  by (auto simp: sleeps_down_def poll_mdns_def poll_responder_def and_then_Inr_iff
      split: mdns_pc.splits if_splits option.splits)

interpretation netif_sleeper: op_machine "netif_task b" "\<lambda>_ _. True" sleeps_down for b
proof
  fix s ob s' assume inv: "sleeps_down s" and run: "netif_task b s ob = Inr s'"
  have iter: "sleeps_down (netif_iterate t)" for t by (simp add: sleeps_down_def netif_iterate_def)
  show "sleeps_down s'"
  proof (cases "nr_started s")
    case False
    with run iter show ?thesis by (auto simp: netif_task_start split: prod.splits sum.splits)
  next
    case True
    obtain r t where ch: "poll_changed ob s = (r, t)" by fastforce
    then have "sleeps_down t"
      using inv by (auto simp: sleeps_down_def poll_changed_def poll_load_def Let_def
          split: changed_pc.splits if_splits prod.splits sum.splits)
    with run True ch iter show ?thesis
      by (auto simp: netif_task_def dest: poll_mdns_sleeps split: sum.splits option.splits)
  qed
qed

text \<open>What the responder is to be doing, given the state of the interface.\<close>

definition follows :: "netif_run \<Rightarrow> bool" where
  "follows s \<longleftrightarrow> nr_mdns s \<in> (if ns_operational (nr_cur s) then {Md_Running, Md_Retry} else {Md_Down})"

lemma poll_mdns_follows:
  assumes "netif_inv True s" and "sleeps_down s"
  shows "\<exists>s'. poll_mdns True ob s = Inr s' \<and> nr_cur s' = nr_cur s \<and> nr_new s' = nr_new s \<and>
    nr_started s' = nr_started s \<and> follows s'"
  using assms unfolding netif_inv_def
  by (cases "nr_mdns s")
    (auto simp: poll_mdns_def poll_responder_def mdns_task_def follows_def sleeps_down_def
      split: option.splits)

text \<open>An evaluation that finds the interface in the state the iteration runs with.\<close>

lemma netif_task_settled:
  assumes "netif_inv True s" and "sleeps_down s" and "nr_started s"
    and "load_netif_state (no_netifs ob) (nr_new s) = (Inr u, nr_cur s)"
  shows "\<exists>s'. netif_task True s ob = Inr s' \<and> nr_cur s' = nr_cur s \<and> nr_new s' = nr_cur s \<and>
    nr_started s' \<and> follows s'"
proof -
  have new: "nr_new s = nr_cur s" using assms(1,3) by (simp add: netif_inv_def)
  obtain r t where ch: "poll_changed ob s = (r, t)" by fastforce
  then have t: "r = None \<and> nr_cur t = nr_cur s \<and> nr_new t = nr_cur s \<and> nr_started t \<and> netif_inv True t \<and>
      sleeps_down t"
  proof (cases rule: poll_changed_cases)
    case 1
    with assms new show ?thesis by simp
  next
    case (4 st v)
    with netif_same_inv [OF assms(1,3) 4(1,2)] assms show ?thesis by (simp add: sleeps_down_def)
  qed (use assms(4) in simp_all)
  with poll_mdns_follows [of t ob] ch assms(3) show ?thesis
    by (auto simp: netif_task_def)
qed

lemma netif_task_two:
  assumes "netif_inv True s" and "sleeps_down s" and "no_changed ob"
    and "no_netifs ob = snap" and "no_netifs ob' = snap" and "snd snap = Inr ()"
  shows "\<exists>s'. run_ops (netif_task True) s [ob, ob'] = Inr s' \<and>
    nr_cur s' = snd (load_netif_state snap (nr_new s)) \<and> follows s'"
proof -
  obtain st where ld: "load_netif_state snap (nr_new s) = (Inr (), st)"
    using assms(6) by (metis fst_load_netif_state prod.collapse)
  then have again: "load_netif_state snap st = (Inr (), st)"
    using load_again [of snap "nr_new s"] by simp
  have "\<exists>t. netif_task True s ob = Inr t \<and> nr_started t \<and> nr_cur t = st \<and> nr_new t = st"
  proof (cases "nr_started s \<and> st = nr_cur s")
    case True
    with netif_task_settled [of s ob "()"] ld assms show ?thesis by auto
  next
    case False
    then show ?thesis
      using ld assms(3,4)
      by (cases "nr_started s")
        (auto simp: netif_task_start netif_iterate_def netif_task_def poll_changed_def poll_load_def
          split: changed_pc.split)
  qed
  then obtain t where t: "netif_task True s ob = Inr t" "nr_started t" "nr_cur t = st" "nr_new t = st"
    by blast
  have "netif_inv True t" and "sleeps_down t"
    using netif_task_inv [OF assms(1) t(1)] netif_sleeper.step_inv [OF assms(2) _ t(1)] by simp_all
  from netif_task_settled [OF this t(2), of ob' "()"] t again ld assms(5) show ?thesis by auto
qed

text \<open>
  C27. The responder is up when the interface is, and with its present addresses: from any state of
  the task, two evaluations after the driver has given notice of a change - the interfaces not
  changing in between - the iteration runs with what the driver reports, and the responder is
  running, or waiting for its retry, when an operational interface with an IPv6 address is among the
  interfaces, and is not running when there is none.
\<close>

theorem responder_follows_interface:
  assumes "run_ops (netif_task True) netif_run_new obs = Inr s"
    and "no_changed ob" and "no_netifs ob = (nis, Inr ())" and "no_netifs ob' = (nis, Inr ())"
  shows "\<exists>s'. run_ops (netif_task True) s [ob, ob'] = Inr s' \<and>
    nr_cur s' = snd (load_netif_state (nis, Inr ()) (nr_new s)) \<and>
    (if \<exists>ni \<in> set nis. advertisable ni then nr_mdns s' \<in> {Md_Running, Md_Retry} else nr_mdns s' = Md_Down)"
proof -
  have "sleeps_down netif_run_new" by (simp add: sleeps_down_def netif_run_new_def)
  from netif_sleeper.run_inv [OF this _ assms(1)] have "sleeps_down s" by simp
  from netif_task_two [OF netif_reachable [OF assms(1)] this assms(2-4)] obtain s' where
    r: "run_ops (netif_task True) s [ob, ob'] = Inr s'"
    and c: "nr_cur s' = snd (load_netif_state (nis, Inr ()) (nr_new s))" and f: "follows s'"
    by auto
  have "ns_operational (nr_cur s') \<longleftrightarrow> (\<exists>ni \<in> set nis. advertisable ni)"
  proof (cases "rev (filter advertisable nis)")
    case Nil
    then show ?thesis by (simp add: c load_netif_state_closed filter_empty_conv)
  next
    case (Cons ni ms)
    with rev_filter_hd [OF Cons] show ?thesis by (auto simp: c load_netif_state_closed)
  qed
  with f have "if \<exists>ni \<in> set nis. advertisable ni then nr_mdns s' \<in> {Md_Running, Md_Retry}
      else nr_mdns s' = Md_Down"
    by (simp only: follows_def if_split) simp
  with r c show ?thesis by blast
qed

theorem responder_follows_interface_witness:
  "\<exists>s. run_ops (netif_task True) netif_run_new [netif_tick ([sample_netif], Inr ()), netif_tick ([sample_netif], Inr ())] = Inr s \<and>
     nr_mdns s \<in> {Md_Running, Md_Retry}"
proof -
  let ?o = "netif_tick ([sample_netif], Inr ())"
  have "run_ops (netif_task True) netif_run_new [] = Inr netif_run_new" by simp
  from responder_follows_interface [OF this, of ?o "[sample_netif]" ?o] show ?thesis
    by (auto simp: netif_tick_def sample_netif_def advertisable_def)
qed

end
