(* ===== verification/User_Task.thy ===== *)
theory User_Task
  imports Live_Net
begin

text \<open>
  The task of the user in the runs of \<^verbatim>\<open>src/src/eth.rs\<close> and, with coexistence, of
  \<^verbatim>\<open>src/src/wireless/wifi.rs\<close> and \<^verbatim>\<open>thread.rs\<close>: a child of the same \<open>select\<close> as the network tasks, polled
  from the first evaluation of the run on. The state of the interface decides about the mDNS
  responder only.
\<close>

section \<open>An interface that stays down\<close>

text \<open>
  Every enumeration finds no interface that is up, and none of the tasks but the user's is ready.
\<close>

definition down_obs :: "('q, 'st) live_obs \<Rightarrow> bool" where
  "down_obs ob \<longleftrightarrow>
     (let ph = lo_phase ob; nb = lo_nets ob
      in ob_rand ph = None \<and> ob_peripheral ph = None \<and>
         (case io_startup (ob_im ph) of Some (Inl _) \<Rightarrow> False | _ \<Rightarrow> True) \<and>
         io_responder (ob_im ph) = None \<and> io_run (ob_im ph) = None \<and>
         (case on_bind (nb_net nb) of Some (Inl _) \<Rightarrow> False | _ \<Rightarrow> True) \<and> on_transport (nb_net nb) = None \<and>
         filter advertisable (fst (no_netifs (nb_netif nb))) = [] \<and> snd (no_netifs (nb_netif nb)) = Inr ())"

definition nets_down :: "nets \<Rightarrow> bool" where
  "nets_down n \<longleftrightarrow>
     (let m = nt_mdns n
      in nr_cur m = netif_state_new \<and> nr_new m = netif_state_new \<and> nr_mdns m \<in> {Md_Start, Md_Down})"

lemma nets_new_down: "nets_down nets_new"
  by (simp add: nets_down_def nets_new_def netif_run_new_def)

lemma load_down:
  "filter advertisable nis = [] \<Longrightarrow> load_netif_state (nis, Inr ()) netif_state_new = (Inr (), netif_state_new)"
  by (simp add: load_netif_state_closed) (simp add: netif_state_new_def)

lemma netif_task_down:
  assumes "snd (no_netifs ob) = Inr ()" and "filter advertisable (fst (no_netifs ob)) = []"
    and "nr_cur m = netif_state_new" and "nr_new m = netif_state_new" and "nr_mdns m \<in> {Md_Start, Md_Down}"
  shows "\<exists>m'. netif_task b m ob = Inr m' \<and> nr_cur m' = netif_state_new \<and> nr_new m' = netif_state_new \<and>
    nr_mdns m' \<in> {Md_Start, Md_Down}"
proof -
  have "load_netif_state (no_netifs ob) netif_state_new = (Inr (), netif_state_new)"
    using load_down [OF assms(2)] assms(1) by (metis prod.collapse)
  moreover have "\<not> ns_operational netif_state_new" by (simp add: netif_state_new_def)
  ultimately show ?thesis
    using assms(3-5)
    by (cases "nr_changed m")
      (auto simp: netif_task_def netif_iterate_def poll_changed_def poll_load_def poll_mdns_def)
qed

lemma poll_nets_down:
  assumes "select_contract sel" and "down_obs ob" and "nets_down n"
  shows "\<exists>n'. poll_nets sel True n (lo_nets ob) = Inr (None, None, n') \<and> nets_down n'"
proof -
  let ?nb = "lo_nets ob"
  have none: "sel [None, None] = None" using select2_None [OF assms(1), of None None] by simp
  have "\<exists>pc. poll_oper_net sel True None (nt_net n) (nb_net ?nb) = Inr (None, pc)"
    using assms(2) none
    by (cases "nt_net n"; cases "on_bind (nb_net ?nb)")
      (auto simp: poll_oper_net_def poll_bind_def down_obs_def Let_def split: sum.splits)
  then obtain n1 where n1: "poll_net_task sel True n ?nb = Inr (None, n1)" "nt_mdns n1 = nt_mdns n"
    by (cases "nb_net_polled ?nb") (auto simp: poll_net_task_def)
  from assms(2,3) obtain m where m: "netif_task True (nt_mdns n1) (nb_netif ?nb) = Inr m"
    "nr_cur m = netif_state_new" "nr_new m = netif_state_new" "nr_mdns m \<in> {Md_Start, Md_Down}"
    using netif_task_down [of "nb_netif ?nb" "nt_mdns n1" True] n1(2)
    by (auto simp: down_obs_def nets_down_def Let_def)
  have "nets_down n1" using assms(3) n1(2) by (simp add: nets_down_def)
  with n1(1) m show ?thesis
    by (cases "nb_mdns_polled ?nb") (auto simp: poll_nets_def poll_mdns_task_def nets_down_def)
qed

section \<open>The run goes on, and ends with the user's task\<close>

text \<open>A phase machine whose operational states do nothing but wait for the user's task.\<close>

locale user_waits =
  fixes oper :: "'w \<Rightarrow> bool" and step :: "('w, ('q, 'st) wl_obs, unit res) task"
    and sel :: "unit res option list \<Rightarrow> unit res option" and start :: 'w
  assumes select_ok: "select_contract sel"
    and begins: "\<not> oper start" "down_obs ob \<Longrightarrow> \<exists>w. step start (lo_phase ob) = Inr w \<and> oper w"
    and waits: "oper w \<Longrightarrow> down_obs ob \<Longrightarrow> ob_user (lo_phase ob) = None \<Longrightarrow>
      \<exists>w'. step w ((lo_phase ob)\<lparr>ob_oper_net := None, ob_mdns := None\<rparr>) = Inr w' \<and> oper w'"
    and user_ends: "oper w \<Longrightarrow> down_obs ob \<Longrightarrow> ob_user (lo_phase ob) = Some r \<Longrightarrow>
      step w ((lo_phase ob)\<lparr>ob_oper_net := None, ob_mdns := None\<rparr>) = Inl r"
begin

lemma live_waits:
  assumes "oper (lv_phase s)" and "nets_down (lv_nets s)"
    and "\<forall>ob \<in> set obs. down_obs ob \<and> ob_user (lo_phase ob) = None"
  shows "\<exists>s'. run_ops (live oper step sel True) s obs = Inr s' \<and> oper (lv_phase s') \<and> nets_down (lv_nets s')"
  using assms
proof (induction obs arbitrary: s)
  case Nil
  then show ?case by simp
next
  case (Cons ob obs)
  from Cons.prems(3) have ob: "down_obs ob" "ob_user (lo_phase ob) = None" by simp_all
  from poll_nets_down [OF select_ok ob(1) Cons.prems(2)] obtain n where
    n: "poll_nets sel True (lv_nets s) (lo_nets ob) = Inr (None, None, n)" "nets_down n" by blast
  from waits [OF Cons.prems(1) ob] obtain w where
    w: "step (lv_phase s) ((lo_phase ob)\<lparr>ob_oper_net := None, ob_mdns := None\<rparr>) = Inr w" "oper w" by blast
  have "live oper step sel True s ob = Inr \<lparr>lv_phase = w, lv_nets = n\<rparr>"
    using Cons.prems(1) n(1) w by (simp add: live_def)
  with Cons.IH [of "\<lparr>lv_phase = w, lv_nets = n\<rparr>"] w(2) n(2) Cons.prems(3) show ?case by simp
qed

lemma live_user:
  assumes "\<forall>ob \<in> set obs. down_obs ob \<and> ob_user (lo_phase ob) = None" and "down_obs first"
    and "down_obs ob" and "ob_user (lo_phase ob) = Some r"
  shows "\<exists>s. run_ops (live oper step sel True) (live_new start) (first # obs) = Inr s \<and>
    \<not> ns_operational (nr_cur (nt_mdns (lv_nets s))) \<and> live oper step sel True s ob = Inl (Inr r)"
proof -
  from begins assms(2) obtain w where w: "step start (lo_phase first) = Inr w" "oper w" by blast
  have "live oper step sel True (live_new start) first = Inr \<lparr>lv_phase = w, lv_nets = nets_new\<rparr>"
    using begins(1) w by (simp add: live_def live_new_def)
  moreover from live_waits [of "\<lparr>lv_phase = w, lv_nets = nets_new\<rparr>" obs] w(2) assms(1) nets_new_down
  obtain s where s: "run_ops (live oper step sel True) \<lparr>lv_phase = w, lv_nets = nets_new\<rparr> obs = Inr s"
    "oper (lv_phase s)" "nets_down (lv_nets s)" by auto
  moreover from poll_nets_down [OF select_ok assms(3) s(3)] obtain n where
    "poll_nets sel True (lv_nets s) (lo_nets ob) = Inr (None, None, n)" by blast
  with s(2) user_ends [OF s(2) assms(3,4)] have "live oper step sel True s ob = Inl (Inr r)"
    by (simp add: live_def)
  moreover have "\<not> ns_operational (nr_cur (nt_mdns (lv_nets s)))"
    using s(3) by (simp add: nets_down_def Let_def netif_state_new_def)
  ultimately show ?thesis by auto
qed

end

lemma down_im:
  assumes "select_contract sel" and "down_obs ob"
  obtains im' h' where "run_im sel im h (ob_im (lo_phase ob)) = (None, im', h')"
  using run_im_quiet [OF assms(1), of "ob_im (lo_phase ob)" im h] assms(2)
  by (cases "run_im sel im h (ob_im (lo_phase ob))") (auto simp: down_obs_def Let_def)

lemma select_lone:
  assumes "select_contract sel" and "set rs \<subseteq> {None, Some r}" and "Some r \<in> set rs"
  shows "sel rs = Some r"
proof -
  from select_contract_None [OF assms(1), of rs] assms(3) obtain x where "sel rs = Some x" by fastforce
  with select_contract_Some [OF assms(1) this] assms(2) show ?thesis by auto
qed

lemma eth_user_waits:
  assumes sel: "select_contract (we_select env)"
  shows "user_waits eth_operational (eth_task env) (we_select env) \<lparr>et_pc = Eth_Start, et_hydration = h\<rparr>"
proof
  fix w :: eth_state and ob :: "('a, 'b) live_obs" and r
  let ?ph = "(lo_phase ob)\<lparr>ob_oper_net := None, ob_mdns := None\<rparr>"
  show "select_contract (we_select env)" by (rule sel)
  show "\<not> eth_operational \<lparr>et_pc = Eth_Start, et_hydration = h\<rparr>" by simp
  show "down_obs ob \<Longrightarrow> \<exists>w. eth_task env \<lparr>et_pc = Eth_Start, et_hydration = h\<rparr> (lo_phase ob) = Inr w \<and> eth_operational w"
    by (simp add: eth_task_def down_obs_def Let_def)
  assume "eth_operational w" and ob: "down_obs ob"
  then obtain im where pc: "et_pc w = Eth_Running im" by (cases "et_pc w") auto
  obtain im' h' where im: "run_im (we_select env) im (et_hydration w) (ob_im (lo_phase ob)) = (None, im', h')"
    by (rule down_im [OF sel ob])
  show "ob_user (lo_phase ob) = None \<Longrightarrow> \<exists>w'. eth_task env w ?ph = Inr w' \<and> eth_operational w'"
    using pc im select4_None [OF sel, of None None None None] by (simp add: eth_task_def)
  show "ob_user (lo_phase ob) = Some r \<Longrightarrow> eth_task env w ?ph = Inl r"
    using pc im select_lone [OF sel, of "[None, None, None, Some r]" r] by (simp add: eth_task_def)
qed

lemma coex_user_waits:
  assumes sel: "select_contract (we_select env)"
  shows "user_waits coex_operational (wifi_coex_task env) (we_select env)
    \<lparr>cx_pc = Coex_Start, cx_ctl = c, cx_hydration = h\<rparr>"
proof
  fix w :: coex_state and ob :: "('a, 'b) live_obs" and r
  let ?s = "\<lparr>cx_pc = Coex_Start, cx_ctl = c, cx_hydration = h\<rparr>"
  let ?ph = "(lo_phase ob)\<lparr>ob_oper_net := None, ob_mdns := None\<rparr>"
  show "select_contract (we_select env)" by (rule sel)
  show "\<not> coex_operational ?s" by simp
  show "down_obs ob \<Longrightarrow> \<exists>w. wifi_coex_task env ?s (lo_phase ob) = Inr w \<and> coex_operational w"
    by (simp add: wifi_coex_task_def down_obs_def Let_def)
  assume "coex_operational w" and ob: "down_obs ob"
  then obtain g im where pc: "cx_pc w = Coex_Running g im" by (cases "cx_pc w") auto
  obtain im' h' where im: "run_im (we_select env) im (cx_hydration w) (ob_im (lo_phase ob)) = (None, im', h')"
    by (rule down_im [OF sel ob])
  have none: "we_select env [None, None, None] = None" "we_select env [None, None] = None"
    using select_contract_None [OF sel] by simp_all
  have "\<exists>g'. run_gatt_while_ble_commissionable (we_select env) (we_window env) g (q, None) = Inr g'" for q
    using none select_lone [OF sel, of "[None, Some (Inr ())]" "Inr ()"]
    by (cases g) (auto simp: Let_def split: sum.split)
  then obtain g' where
    "run_gatt_while_ble_commissionable (we_select env) (we_window env) g (ob_window (lo_phase ob), None) = Inr g'"
    by blast
  moreover have "ob_peripheral (lo_phase ob) = None" using ob by (simp add: down_obs_def Let_def)
  ultimately have "run_btp_coex env g ?ph = Inr g'"
    using none by (simp add: run_btp_coex_def)
  then show "ob_user (lo_phase ob) = None \<Longrightarrow> \<exists>w'. wifi_coex_task env w ?ph = Inr w' \<and> coex_operational w'"
    and "ob_user (lo_phase ob) = Some r \<Longrightarrow> wifi_coex_task env w ?ph = Inl r"
    using pc im none select_lone [OF sel, of "[None, None, Some r]" r] by (simp_all add: wifi_coex_task_def)
qed

interpretation eth_user: user_waits eth_operational "eth_task sample_env" "we_select sample_env"
    "\<lparr>et_pc = Eth_Start, et_hydration = h\<rparr>" for h
  by (rule eth_user_waits [OF sample_contracts(1)])

interpretation coex_user: user_waits coex_operational "wifi_coex_task sample_env" "we_select sample_env"
    "\<lparr>cx_pc = Coex_Start, cx_ctl = c, cx_hydration = h\<rparr>" for c h
  by (rule coex_user_waits [OF sample_contracts(1)])

text \<open>
  C37. The user's task is polled whether or not the interface is up. Over Ethernet and with
  coexistence, in a run over an interface that has been down from the beginning and in which nothing
  else is ready, the run goes on for as long as the user's task is pending, and ends with its result
  in the first evaluation in which it is ready - the interface still down.
\<close>

theorem user_task_while_down:
  assumes "select_contract (we_select env)" and "down_obs first"
    and "\<forall>ob \<in> set obs. down_obs ob \<and> ob_user (lo_phase ob) = None"
    and "down_obs ob" and "ob_user (lo_phase ob) = Some r"
  shows "(\<exists>s. run_ops (eth_live env True) (live_new \<lparr>et_pc = Eth_Start, et_hydration = h\<rparr>) (first # obs) = Inr s \<and>
      \<not> ns_operational (nr_cur (nt_mdns (lv_nets s))) \<and> eth_live env True s ob = Inl (Inr r)) \<and>
    (\<exists>s. run_ops (wifi_coex_live env True) (live_new \<lparr>cx_pc = Coex_Start, cx_ctl = c, cx_hydration = h\<rparr>)
        (first # obs) = Inr s \<and>
      \<not> ns_operational (nr_cur (nt_mdns (lv_nets s))) \<and> wifi_coex_live env True s ob = Inl (Inr r))"
  unfolding eth_live_def wifi_coex_live_def
  using user_waits.live_user [OF eth_user_waits [OF assms(1)] assms(3,2,4,5)]
    user_waits.live_user [OF coex_user_waits [OF assms(1)] assms(3,2,4,5)]
  by blast

definition user_tick :: "unit res option \<Rightarrow> (window, unit) live_obs" where
  "user_tick r =
     \<lparr>lo_phase = (quiet Closed)\<lparr>ob_user := r\<rparr>,
      lo_nets = \<lparr>nb_net = \<lparr>on_bind = Some (Inr ()), on_transport = None\<rparr>,
        nb_netif = \<lparr>no_changed = False, no_netifs = ([], Inr ()), no_mdns = None, no_timer = False\<rparr>,
        nb_net_polled = True, nb_mdns_polled = True\<rparr>\<rparr>"

theorem user_task_while_down_witness:
  "\<exists>s. run_ops (eth_live sample_env True) (live_new \<lparr>et_pc = Eth_Start, et_hydration = hydration_new\<rparr>)
       [user_tick None, user_tick None] = Inr s \<and>
     \<not> ns_operational (nr_cur (nt_mdns (lv_nets s))) \<and>
     eth_live sample_env True s (user_tick (Some (Inl StdIoError))) = Inl (Inr (Inl StdIoError))"
proof -
  have d: "down_obs (user_tick r)" for r by (simp add: down_obs_def user_tick_def quiet_def)
  have "\<forall>ob \<in> set [user_tick None]. down_obs ob \<and> ob_user (lo_phase ob) = None"
    using d by (simp add: user_tick_def quiet_def)
  moreover have "ob_user (lo_phase (user_tick (Some (Inl StdIoError)))) = Some (Inl StdIoError)"
    by (simp add: user_tick_def)
  ultimately show ?thesis
    using user_task_while_down [OF sample_contracts(1) d _ d] by blast
qed

end
