(* ===== verification/Window_Polls.thy ===== *)
theory Window_Polls
  imports Comm_Spec
begin

text \<open>
  \<open>wait_comm_window\<close> of \<^verbatim>\<open>src/src/wireless.rs\<close> as the tasks of the phases use it: polled as a whole,
  while other code writes the window and notifies between the polls. A poll makes the steps of the
  waiter that can be made; it looks at the window when there has been a notification since the last
  look, and only then. The tasks that observe one window at each evaluation are justified by it.
\<close>

section \<open>Polls\<close>

definition wait_poll :: "('q \<Rightarrow> bool) \<Rightarrow> 'q window_chan \<Rightarrow> 'q wait_pc \<Rightarrow> 'q wait_pc" where
  "wait_poll until ch pc =
     (let look = (if until (ch_window ch) then Wait_Done (ch_window ch) else Wait_Changed (ch_notified ch))
      in case pc of
           Wait_Subscribe \<Rightarrow> look
         | Wait_Read v \<Rightarrow>
             if until (ch_window ch) then Wait_Done (ch_window ch)
             else if ch_notified ch \<noteq> v then look else Wait_Changed v
         | Wait_Changed v \<Rightarrow> if ch_notified ch \<noteq> v then look else Wait_Changed v
         | Wait_Done q \<Rightarrow> Wait_Done q)"

fun waiter_steps :: "nat \<Rightarrow> ('q \<Rightarrow> bool) \<Rightarrow> 'q window_chan \<Rightarrow> 'q wait_pc \<Rightarrow> 'q wait_pc option" where
  "waiter_steps 0 until ch pc = Some pc"
| "waiter_steps (Suc k) until ch pc =
     (case waiter_step until ch pc of None \<Rightarrow> None | Some pc \<Rightarrow> waiter_steps k until ch pc)"

text \<open>A poll is a maximal run of the waiter's own steps, of at most five.\<close>

lemma wait_poll_steps:
  "\<exists>k \<le> 5. waiter_steps k until ch pc = Some (wait_poll until ch pc)"
  "waiter_step until ch (wait_poll until ch pc) = None"
proof -
  have "\<exists>k \<in> {0, 2, 3, 1, 4, 5}. waiter_steps k until ch pc = Some (wait_poll until ch pc)"
    by (cases pc) (auto simp: wait_poll_def Let_def eval_nat_numeral)
  then obtain k where "k \<in> {0, 2, 3, 1, 4, 5 :: nat}" "waiter_steps k until ch pc = Some (wait_poll until ch pc)" ..
  then show "\<exists>k \<le> 5. waiter_steps k until ch pc = Some (wait_poll until ch pc)"
    by (intro exI [of _ k]) auto
  show "waiter_step until ch (wait_poll until ch pc) = None"
    by (cases pc) (simp_all add: wait_poll_def Let_def)
qed

section \<open>The environment\<close>

datatype 'q env_event = Env_Write 'q | Env_Notify

fun env_act :: "'q env_event \<Rightarrow> 'q window_chan \<Rightarrow> 'q window_chan" where
  "env_act (Env_Write q) ch = ch\<lparr>ch_window := q, ch_pending_notify := True\<rparr>"
| "env_act Env_Notify ch = ch\<lparr>ch_notified := Suc (ch_notified ch), ch_pending_notify := False\<rparr>"

lemma env_act_step: "wait_step until (ch, pc) (env_act a ch, pc)"
  by (cases a) (auto intro: wait_step.intros)

text \<open>Between two polls there is a list of such acts; the wait ends with the poll that accepts.\<close>

fun wait_polls ::
    "('q \<Rightarrow> bool) \<Rightarrow> 'q window_chan \<times> 'q wait_pc \<Rightarrow> 'q env_event list \<Rightarrow> 'q + 'q window_chan \<times> 'q wait_pc" where
  "wait_polls until (ch, pc) acts =
     (let ch = fold env_act acts ch
      in case wait_poll until ch pc of Wait_Done q \<Rightarrow> Inl q | pc \<Rightarrow> Inr (ch, pc))"

text \<open>
  The windows a waiter has looked at, poll by poll: the one there is at a poll that looks, the
  last one otherwise. \<open>seen\<close> is the notification count and the window of the last look.
\<close>

definition look_at :: "'q window_chan \<Rightarrow> (nat \<times> 'q) option \<Rightarrow> 'q" where
  "look_at ch seen =
     (case seen of None \<Rightarrow> ch_window ch | Some (v, q) \<Rightarrow> if ch_notified ch \<noteq> v then ch_window ch else q)"

lemma look_at_simps [simp]:
  "look_at ch None = ch_window ch"
  "look_at ch (Some (v, q)) = (if ch_notified ch \<noteq> v then ch_window ch else q)"
  by (simp_all add: look_at_def)

fun observed :: "'q window_chan \<Rightarrow> (nat \<times> 'q) option \<Rightarrow> 'q env_event list list \<Rightarrow> 'q list" where
  "observed ch seen [] = []"
| "observed ch seen (acts # actss) =
     (let ch = fold env_act acts ch; q = look_at ch seen
      in q # observed ch (Some (ch_notified ch, q)) actss)"

text \<open>The windows there are at the polls\<close>

fun windows_at :: "'q window_chan \<Rightarrow> 'q env_event list list \<Rightarrow> 'q list" where
  "windows_at ch [] = []"
| "windows_at ch (acts # actss) = (let ch = fold env_act acts ch in ch_window ch # windows_at ch actss)"

fun all_notified :: "'q window_chan \<Rightarrow> 'q env_event list list \<Rightarrow> bool" where
  "all_notified ch [] = True"
| "all_notified ch (acts # actss) =
     (let ch = fold env_act acts ch in \<not> ch_pending_notify ch \<and> all_notified ch actss)"

lemma env_acts_notified:
  "ch_notified ch \<le> ch_notified (fold env_act acts ch) \<and>
   (ch_notified (fold env_act acts ch) = ch_notified ch \<and> \<not> ch_pending_notify (fold env_act acts ch) \<longrightarrow>
      ch_window (fold env_act acts ch) = ch_window ch)"
proof (induction acts arbitrary: ch)
  case Nil
  then show ?case by simp
next
  case (Cons a acts)
  show ?case
  proof (cases a)
    case Env_Notify
    with Cons.IH [of "env_act a ch"] show ?thesis by auto
  next
    case (Env_Write q)
    let ?ch = "env_act a ch"
    have pend: "ch_pending_notify ?ch" and n: "ch_notified ?ch = ch_notified ch" by (simp_all add: Env_Write)
    have keep: "ch_pending_notify c \<Longrightarrow> ch_notified (fold env_act acts c) = ch_notified c \<Longrightarrow>
        ch_pending_notify (fold env_act acts c)" for c
    proof (induction acts arbitrary: c)
      case Nil
      then show ?case by simp
    next
      case (Cons b acts)
      have le: "ch_notified c \<le> ch_notified (fold env_act acts c)" for c :: "'a window_chan"
      proof (induction acts arbitrary: c)
        case (Cons b acts)
        from Cons [of "env_act b c"] show ?case by (cases b) auto
      qed simp
      from Cons.prems Cons.IH [of "env_act b c"] le [of "env_act b c"] show ?case by (cases b) auto
    qed
    from Cons.IH [of ?ch] keep [OF pend] n show ?thesis by auto
  qed
qed

section \<open>What a wait observes\<close>

text \<open>The state of a pending wait, by what it has looked at last.\<close>

definition wait_at :: "('q \<Rightarrow> bool) \<Rightarrow> (nat \<times> 'q) option \<Rightarrow> 'q wait_pc \<Rightarrow> bool" where
  "wait_at until seen pc \<longleftrightarrow>
     (case seen of None \<Rightarrow> pc = Wait_Subscribe | Some (v, q) \<Rightarrow> pc = Wait_Changed v \<and> \<not> until q)"

lemma wait_poll_at:
  assumes "wait_at until seen pc"
  shows "wait_polls until (ch, pc) acts =
    (let ch = fold env_act acts ch; q = look_at ch seen
     in if until q then Inl q else Inr (ch, Wait_Changed (ch_notified ch)))"
  using assms
  by (auto simp: wait_at_def wait_poll_def Let_def split: option.splits prod.splits)

lemma polls_observe:
  "wait_at until seen pc \<Longrightarrow>
   map_sum id (\<lambda>_. ()) (run_ops (wait_polls until) (ch, pc) actss) =
     run_ops (wait_task until) () (observed ch seen actss)"
proof (induction actss arbitrary: ch seen pc)
  case Nil
  then show ?case by simp
next
  case (Cons acts actss)
  let ?ch = "fold env_act acts ch"
  let ?q = "look_at ?ch seen"
  show ?case
  proof (cases "until ?q")
    case True
    then show ?thesis by (simp add: wait_poll_at [OF Cons.prems] Let_def wait_task.simps del: wait_polls.simps)
  next
    case False
    then have "wait_at until (Some (ch_notified ?ch, ?q)) (Wait_Changed (ch_notified ?ch))"
      by (simp add: wait_at_def)
    from Cons.IH [OF this, of ?ch] False show ?thesis
      by (simp add: wait_poll_at [OF Cons.prems] Let_def wait_task.simps del: wait_polls.simps)
  qed
qed

lemma observed_notified:
  "all_notified ch actss \<Longrightarrow> seen = None \<or> seen = Some (ch_notified ch, ch_window ch) \<Longrightarrow>
   observed ch seen actss = windows_at ch actss"
proof (induction actss arbitrary: ch seen)
  case Nil
  then show ?case by simp
next
  case (Cons acts actss)
  let ?ch = "fold env_act acts ch"
  have "look_at ?ch seen = ch_window ?ch"
    using Cons.prems env_acts_notified [of ch acts] by (auto simp: Let_def)
  with Cons show ?case by (simp add: Let_def)
qed

text \<open>
  C26. A wait for the window that is polled as a whole, with any writes and notifications between its
  polls, is the task of the phases over the windows it has looked at: it ends at the same poll with
  the same window, or is pending with it. Where every write has been notified by the next poll, these
  are the very windows there are at the polls, although it looks only after notifications.
\<close>

theorem wait_polls_refine:
  "map_sum id (\<lambda>_. ()) (run_ops (wait_polls until) (ch, Wait_Subscribe) actss) =
     run_ops (wait_task until) () (observed ch None actss) \<and>
   (all_notified ch actss \<longrightarrow> observed ch None actss = windows_at ch actss)"
  using polls_observe [of until None Wait_Subscribe ch actss] observed_notified [of ch actss None]
  by (simp add: wait_at_def)

definition idle_chan :: "window window_chan" where
  "idle_chan = \<lparr>ch_window = Closed, ch_notified = 0, ch_pending_notify = False\<rparr>"

text \<open>A poll that finds the window closed, a quiet one, and one after the window was opened.\<close>

theorem wait_polls_refine_witness:
  "observed idle_chan None [[], [], [Env_Write Open_Basic, Env_Notify]] = [Closed, Closed, Open_Basic] \<and>
   run_ops (wait_polls (\<lambda>q. q = Open_Basic)) (idle_chan, Wait_Subscribe) [[], [], [Env_Write Open_Basic, Env_Notify]] =
     Inl Open_Basic"
proof -
  have "all_notified idle_chan [[], [], [Env_Write Open_Basic, Env_Notify]]"
    by (simp add: idle_chan_def)
  with wait_polls_refine [of "\<lambda>q. q = Open_Basic" idle_chan "[[], [], [Env_Write Open_Basic, Env_Notify]]"]
  have "observed idle_chan None [[], [], [Env_Write Open_Basic, Env_Notify]] = [Closed, Closed, Open_Basic]"
    by (simp add: idle_chan_def)
  then show ?thesis
    by (simp add: idle_chan_def wait_poll_def Let_def)
qed

end
