(* ===== verification/Commissioning.thy ===== *)
theory Commissioning
  imports Handover_Spec Core_Spec
begin

text \<open>
  Non-concurrent commissioning from end to end, over Wifi and over Thread: a device without fabrics
  starts up, and its first run advertises over BLE until the credentials of a network arrive, hands
  over to that network, and goes on operating there.
\<close>

section \<open>Waiting for credentials\<close>

definition waiting_obs :: "('q, 'st) wl_env \<Rightarrow> ('q, 'st) wl_obs \<Rightarrow> bool" where
  "waiting_obs env ob \<longleftrightarrow> handover_obs env ob \<and> ob_net_update ob = None"

definition ble_without_creds :: "('q, 'st) wl_env \<Rightarrow> 'st wl_state \<Rightarrow> bool" where
  "ble_without_creds env s \<longleftrightarrow> (\<exists>im. wl_pc s = Ble Act_Wait_Prov im) \<and> \<not> we_prov_ready env (wl_net s)"

lemma waiting_step:
  assumes sel: "select_contract (we_select env)" and ob: "waiting_obs env ob" and s: "ble_without_creds env s"
  shows "\<exists>s'. run_wifi env s ob = Inr s' \<and> ble_without_creds env s'"
proof -
  from s obtain im where pc: "wl_pc s = Ble Act_Wait_Prov im" and nr: "\<not> we_prov_ready env (wl_net s)"
    by (auto simp: ble_without_creds_def)
  from ob have h: "handover_obs env ob" "apply_update ob s = s"
    by (simp_all add: waiting_obs_def)
  obtain im' h' where im: "run_im (we_select env) im (wl_hydration s) (ob_im ob) = (None, im', h')"
    by (rule handover_im [OF sel h(1)])
  have "we_select env [None, None] = None" "we_select env [None, None, None, None] = None"
    using select2_None [OF sel, of None None] select4_None [OF sel, of None None None None] by simp_all
  moreover from this have "run_btp (we_select env) (we_window env) Act_Wait_Prov (btp_obs_of env ob s) = Inr Act_Wait_Prov"
    using h nr by (simp add: run_btp_def btp_obs_of_def handover_obs_def)
  ultimately have "run_wifi env s ob = Inr (s\<lparr>wl_pc := Ble Act_Wait_Prov im', wl_hydration := h'\<rparr>)"
    using pc im h(2) by (simp add: run_wifi_cases wifi_gatt_poll_def)
  with nr show ?thesis by (simp add: ble_without_creds_def)
qed

lemma waiting_run:
  assumes "select_contract (we_select env)"
  shows "\<forall>ob \<in> set obs. waiting_obs env ob \<Longrightarrow> ble_without_creds env s \<Longrightarrow>
    \<exists>s'. run_ops (run_wifi env) s obs = Inr s' \<and> ble_without_creds env s'"
proof (induction obs arbitrary: s)
  case Nil
  then show ?case by simp
next
  case (Cons ob obs)
  then obtain t where "run_wifi env s ob = Inr t" "ble_without_creds env t"
    using waiting_step [OF assms, of ob s] by auto
  with Cons show ?case by auto
qed

lemma first_phase:
  assumes "prov_ready_contract (we_prov_ready env)" and "is_open_on_all_transports (we_window env) (ob_window ob0)"
    and "ob_net_update ob0 = None" and "waiting_obs env ob1"
  shows "\<exists>s. run_ops (run_wifi env) (wl_state_new st0) [ob0, ob1] = Inr s \<and> ble_without_creds env s"
  using assms reset_not_ready [OF assms(1)]
  by (auto simp: run_wifi_cases run_wifi_head_def wifi_gatt_start_def wl_state_new_def waiting_obs_def
      handover_obs_def ble_without_creds_def)

section \<open>The credentials and the connect\<close>

lemma credentials_step:
  assumes sel: "select_contract (we_select env)" and ob: "handover_obs env ob"
    and st: "ob_net_update ob = Some st" "we_prov_ready env st" and s: "ble_without_creds env s"
  shows "\<exists>s' im. run_wifi env s ob = Inr s' \<and> wl_pc s' = Ble Act_Timer im \<and> wl_net s' = st"
proof -
  from s obtain im where pc: "wl_pc s = Ble Act_Wait_Prov im" by (auto simp: ble_without_creds_def)
  let ?s = "s\<lparr>wl_net := st\<rparr>"
  have upd: "apply_update ob s = ?s" using st(1) by (simp add: apply_update_def)
  obtain im' h' where im: "run_im (we_select env) im (wl_hydration s) (ob_im ob) = (None, im', h')"
    by (rule handover_im [OF sel ob])
  have "we_select env [None, None] = None" "we_select env [None, None, None, None] = None"
    using select2_None [OF sel, of None None] select4_None [OF sel, of None None None None] by simp_all
  moreover from this have "run_btp (we_select env) (we_window env) Act_Wait_Prov (btp_obs_of env ob ?s) = Inr Act_Timer"
    using ob st(2) by (simp add: run_btp_def btp_obs_of_def handover_obs_def)
  ultimately have "run_wifi env s ob = Inr (?s\<lparr>wl_pc := Ble Act_Timer im', wl_hydration := h'\<rparr>)"
    using pc im upd by (simp add: run_wifi_cases wifi_gatt_poll_def)
  then show ?thesis by auto
qed

text \<open>On its way to the operational phase the run makes the deferred connect.\<close>

definition before_connect :: "'st net_ctl_state \<Rightarrow> 'st wl_state \<Rightarrow> bool" where
  "before_connect st s \<longleftrightarrow> wl_net s = st \<and> (case wl_pc s of Ble _ _ \<Rightarrow> True | Oper_Start \<Rightarrow> True | _ \<Rightarrow> False)"

lemma before_connect_step:
  assumes "select_contract (we_select env)" and "we_prov_ready env st" and "waiting_obs env ob"
    and "before_connect st s" and "run_wifi env s ob = Inr s'"
  shows "before_connect st s' \<or> wl_pc s' = Connecting (ncs_network_id st)"
proof -
  from assms(3) have "apply_update ob s = s" by (simp add: waiting_obs_def)
  with assms(2,4,5) show ?thesis
    by (cases "wl_pc s")
      (auto simp: before_connect_def run_wifi_cases wifi_gatt_poll_def wifi_task_start_def Let_def
        split: option.splits sum.splits prod.splits)
qed

lemma passes_connect:
  assumes "select_contract (we_select env)" and "we_prov_ready env st"
  shows "\<forall>ob \<in> set obs. waiting_obs env ob \<Longrightarrow> before_connect st s \<Longrightarrow> run_ops (run_wifi env) s obs = Inr s' \<Longrightarrow>
    \<not> before_connect st s' \<Longrightarrow>
    \<exists>k t. run_ops (run_wifi env) s (take k obs) = Inr t \<and> wl_pc t = Connecting (ncs_network_id st)"
proof (induction obs arbitrary: s)
  case Nil
  then show ?case by simp
next
  case (Cons ob obs)
  then obtain t where t: "run_wifi env s ob = Inr t" "run_ops (run_wifi env) t obs = Inr s'"
    by (auto simp: and_then_Inr_iff)
  from before_connect_step [OF assms _ Cons.prems(2) t(1)] Cons.prems(1)
  consider "before_connect st t" | "wl_pc t = Connecting (ncs_network_id st)" by auto
  then show ?case
  proof cases
    case 1
    with Cons.IH [OF _ 1 t(2) Cons.prems(4)] Cons.prems(1) obtain k u where
      "run_ops (run_wifi env) t (take k obs) = Inr u" "wl_pc u = Connecting (ncs_network_id st)" by auto
    with t(1) show ?thesis by (intro exI [of _ "Suc k"] exI [of _ u]) simp
  next
    case 2
    with t(1) show ?thesis by (intro exI [of _ "Suc 0"] exI [of _ t]) simp
  qed
qed

section \<open>From the startup to the operational phase\<close>

text \<open>
  C14. A device is commissioned. After a startup that leaves it without fabrics, a run over Wifi or
  over Thread in which nothing fails and the window stays open is in the operational phase, waiting
  for that window to go away, once the credentials have arrived - however late - and five of the
  evaluations after that have found what they wait for, among any number of others; and on its way
  there it has made the connect to the network of these credentials.
\<close>

theorem commissioning_completes:
  assumes sel: "select_contract (we_select env)" and prov: "prov_ready_contract (we_prov_ready env)"
    and matter: "matter_contract m (we_window env) window"
    and "\<not> is_open_on_all_transports (we_window env) (window w)"
    and "wireless_startup m w = (Inr (Inr u), w')" and "\<not> mt_has_fabrics m w'"
    and "ob_window first = window w'" and "ob_net_update first = None"
    and "\<forall>ob \<in> set (second # waits @ rest). waiting_obs env ob"
    and creds: "handover_obs env creds" "ob_net_update creds = Some st" "we_prov_ready env st"
    and "5 \<le> length (filter handover_ready rest)"
  defines "obs \<equiv> first # second # waits @ creds # rest"
  shows "\<exists>s im k t. run_ops (run_wifi env) (wl_state_new st0) obs = Inr s \<and>
    run_ops (run_thread env) (wl_state_new st0) obs = Inr (to_thread s) \<and> wl_pc s = Oper Next_Gone im \<and>
    run_ops (run_wifi env) (wl_state_new st0) (take k obs) = Inr t \<and> wl_pc t = Connecting (ncs_network_id st)"
proof -
  let ?run = "run_ops (run_wifi env)" and ?s0 = "wl_state_new st0"
  let ?pre = "first # second # waits @ [creds]"
  have "is_open_on_all_transports (we_window env) (ob_window first)"
    using wireless_startup_window [OF matter assms(4,5)] assms(6,7) by simp
  moreover have "waiting_obs env second" "\<forall>ob \<in> set waits. waiting_obs env ob" using assms(9) by simp_all
  ultimately obtain s1 where s1: "?run ?s0 [first, second] = Inr s1" "ble_without_creds env s1"
    using first_phase [OF prov _ assms(8)] by blast
  from waiting_run [OF sel \<open>\<forall>ob \<in> set waits. waiting_obs env ob\<close> s1(2)] obtain s2 where
    s2: "?run s1 waits = Inr s2" "ble_without_creds env s2" by blast
  from credentials_step [OF sel creds s2(2)] obtain s3 im where
    s3: "run_wifi env s2 creds = Inr s3" "wl_pc s3 = Ble Act_Timer im" "wl_net s3 = st" by blast
  have "?pre = [first, second] @ waits @ [creds]" by simp
  with s1(1) s2(1) s3(1) have upto: "?run ?s0 ?pre = Inr s3" by (simp only: run_ops_append) simp
  have rest: "\<forall>ob \<in> set rest. handover_obs env ob" "\<forall>ob \<in> set rest. waiting_obs env ob"
    using assms(9) by (auto simp: waiting_obs_def)
  from handover_completes [OF sel s3(2) _ rest(1) assms(13)] s3(3) creds(3) obtain s im' where
    s: "?run s3 rest = Inr s" "wl_pc s = Oper Next_Gone im'" by auto
  have split: "obs = ?pre @ rest" by (simp add: obs_def)
  have run: "?run ?s0 obs = Inr s"
    unfolding split by (simp only: run_ops_append upto and_then_simps s)
  have "before_connect st s3" "\<not> before_connect st s" using s3(2,3) s(2) by (simp_all add: before_connect_def)
  from passes_connect [OF sel creds(3) rest(2) this(1) s(1) this(2)] obtain k t where
    k: "?run s3 (take k rest) = Inr t" "wl_pc t = Connecting (ncs_network_id st)" by blast
  have "take (length ?pre + k) obs = ?pre @ take k rest" unfolding split by simp
  then have "?run ?s0 (take (length ?pre + k) obs) = Inr t"
    by (simp only: run_ops_append upto and_then_simps k)
  moreover have "to_thread ?s0 = ?s0" by (simp add: to_thread_def wl_state_new_def)
  then have "run_ops (run_thread env) ?s0 obs = Inr (to_thread s)"
    using thread_run_is_wifi_run [of env ?s0 obs] run by simp
  ultimately show ?thesis using run s(2) k(2) by blast
qed

theorem commissioning_completes_witness:
  "\<exists>s im k t. run_ops (run_wifi sample_env) (wl_state_new blank)
       (quiet Open_Basic # quiet Open_Basic # [quiet Open_Basic] @
        (quiet Open_Basic)\<lparr>ob_net_update := Some provisioned\<rparr> # handover_sample) = Inr s \<and>
     wl_pc s = Oper Next_Gone im \<and>
     run_ops (run_wifi sample_env) (wl_state_new blank)
       (take k (quiet Open_Basic # quiet Open_Basic # [quiet Open_Basic] @
        (quiet Open_Basic)\<lparr>ob_net_update := Some provisioned\<rparr> # handover_sample)) = Inr t \<and>
     wl_pc t = Connecting [1, 2, 3]"
proof -
  have c: "matter_contract small_matter (we_window sample_env) snd"
    using small_matter_contract by (simp add: sample_env_def)
  have st: "wireless_startup small_matter (0, Closed) = (Inr (Inr ()), (0, Open_Basic))"
    by (simp add: wireless_startup_def open_basic_comm_window_def small_matter_def act_then_def)
  have closed: "\<not> is_open_on_all_transports (we_window sample_env) (snd (0, Closed))"
    by (simp add: sample_env_def plain_preds_def)
  have fab: "\<not> mt_has_fabrics small_matter (0, Open_Basic)" by (simp add: small_matter_def)
  have w: "\<forall>ob \<in> set (quiet Open_Basic # [quiet Open_Basic] @ handover_sample). waiting_obs sample_env ob"
    by (simp add: handover_sample_def waiting_obs_def handover_obs_def quiet_def sample_env_def plain_preds_def)
  have cr: "handover_obs sample_env ((quiet Open_Basic)\<lparr>ob_net_update := Some provisioned\<rparr>)"
    by (simp add: handover_obs_def quiet_def sample_env_def plain_preds_def provisioned_def blank_def)
  have u: "ob_net_update ((quiet Open_Basic)\<lparr>ob_net_update := Some provisioned\<rparr>) = Some provisioned" by simp
  have p: "we_prov_ready sample_env provisioned" by (simp add: sample_env_def provisioned_def blank_def)
  have n: "5 \<le> length (filter handover_ready handover_sample)"
    by (simp add: handover_sample_def handover_ready_def quiet_def)
  have "ob_window (quiet Open_Basic) = snd (0 :: nat, Open_Basic)" "ob_net_update (quiet Open_Basic) = None"
    by (simp_all add: quiet_def)
  from commissioning_completes [OF sample_contracts(1,3) c closed st fab this w cr u p n, of blank]
  show ?thesis by (auto simp: provisioned_def)
qed

end
