(* ===== verification/Networks_Store.thy ===== *)
theory Networks_Store
  imports Wireless_Spec
begin

text \<open>
  The networks store over the phases of a run without coexistence (\<open>run_wifi\<close> of
  \<^verbatim>\<open>src/src/wireless/wifi.rs\<close>, \<open>startup_im\<close> of \<^verbatim>\<open>src/src/lib.rs\<close>). Each phase lends the one store of the
  stack to its handlers. Starting up the interaction model loads it from persistent storage; the
  commissioner's credentials are put into it by the handlers of the BLE phase and are only
  persisted once commissioning completes, in the operational phase. Loading it again in between
  would drop them. What a load yields and what the handlers do is code of \<^verbatim>\<open>rs-matter\<close>.
\<close>

section \<open>Who is polled\<close>

definition im_of :: "wl_pc \<Rightarrow> im_pc option" where
  "im_of pc = (case pc of Ble _ im \<Rightarrow> Some im | Oper _ im \<Rightarrow> Some im | _ \<Rightarrow> None)"

text \<open>
  Whether the interaction model is polled in the evaluation from \<open>w\<close> to \<open>w'\<close>: in every one that
  does not end the phase, and in one that does when its \<open>select\<close> gets to it.
\<close>

definition polled_im ::
    "'st wl_state \<Rightarrow> ('q, 'st) wl_obs \<Rightarrow> 'st wl_state \<Rightarrow> im_pc option" where
  "polled_im w ob w' = (if im_of (wl_pc w') \<noteq> None \<or> ob_im_polled ob then im_of (wl_pc w) else None)"

definition startup_polled :: "'st wl_state \<Rightarrow> ('q, 'st) wl_obs \<Rightarrow> 'st wl_state \<Rightarrow> bool" where
  "startup_polled w ob w' \<longleftrightarrow>
     polled_im w ob w' = Some Im_Startup \<or>
     polled_im w ob w' = Some Im_Start \<and> \<not> im_hydrated (wl_hydration w)"

definition responder_polled ::
    "('q, 'st) wl_env \<Rightarrow> 'st wl_state \<Rightarrow> ('q, 'st) wl_obs \<Rightarrow> 'st wl_state \<Rightarrow> bool" where
  "responder_polled env w ob w' \<longleftrightarrow>
     (case polled_im w ob w' of
        None \<Rightarrow> False
      | Some im \<Rightarrow> fst (snd (run_im (we_select env) im (wl_hydration w) (ob_im ob))) = Im_Running)"

section \<open>The store\<close>

text \<open>
  What happens to the store in an evaluation: it is loaded, by the startup, and updated, by the
  handlers that the responder runs.
\<close>

record ('q, 'st, 'n) store_obs =
  st_obs :: "('q, 'st) wl_obs"
  st_loaded :: "'n option"
  st_updates :: "('n \<Rightarrow> 'n) list"

definition store_after :: "'n option \<Rightarrow> ('n \<Rightarrow> 'n) list \<Rightarrow> 'n \<Rightarrow> 'n" where
  "store_after loaded updates n = fold (\<lambda>f. f) updates (case loaded of None \<Rightarrow> n | Some n' \<Rightarrow> n')"

text \<open>\<open>Inl None\<close>: the evaluation cannot do to the store what is said of it.\<close>

definition store_step ::
    "('q, 'st) wl_env \<Rightarrow> ('st wl_state \<times> 'n, ('q, 'st, 'n) store_obs, unit res option) task" where
  "store_step env = (\<lambda>(w, n) so.
     case run_wifi env w (st_obs so) of
       Inl r \<Rightarrow> Inl (Some r)
     | Inr w' \<Rightarrow>
         if (st_loaded so \<noteq> None \<longrightarrow> startup_polled w (st_obs so) w') \<and>
            (st_updates so \<noteq> [] \<longrightarrow> responder_polled env w (st_obs so) w')
         then Inr (w', store_after (st_loaded so) (st_updates so) n)
         else Inl None)"

section \<open>No load after an update\<close>

text \<open>The startup is over, or was given up with the phase it was in: nothing polls it any more.\<close>

definition settled :: "'st wl_state \<Rightarrow> bool" where
  "settled w \<longleftrightarrow> im_hydrated (wl_hydration w) \<and> im_of (wl_pc w) \<noteq> Some Im_Startup"

definition begun_hydrated :: "'st wl_state \<Rightarrow> bool" where
  "begun_hydrated w \<longleftrightarrow> (im_of (wl_pc w) \<in> {Some Im_Startup, Some Im_Running} \<longrightarrow> im_hydrated (wl_hydration w))"

lemma settled_no_startup: "settled w \<Longrightarrow> \<not> startup_polled w ob w'"
  by (auto simp: settled_def startup_polled_def polled_im_def split: if_splits)

lemma run_im_hydrated:
  assumes "run_im sel im h ob = (r, im', h')"
  shows "im_hydrated h \<Longrightarrow> im_hydrated h'" and "im' \<noteq> Im_Start"
    and "im = Im_Start \<Longrightarrow> im_hydrated h'" and "im_hydrated h \<Longrightarrow> im \<noteq> Im_Startup \<Longrightarrow> im' = Im_Running"
  using assms
  by (cases im; auto simp: startup_im_def Let_def poll_im_startup_def poll_im_running_def
      split: option.splits sum.splits if_splits)+

lemma run_wifi_settled: "settled w \<Longrightarrow> run_wifi env w ob = Inr w' \<Longrightarrow> settled w'"
  by (cases "wl_pc w")
    (auto simp: run_wifi_cases run_wifi_defs settled_def im_of_def Let_def ended_hydration_def
      split: if_splits option.splits sum.splits prod.splits dest: run_im_hydrated(1,4))

lemma run_im_begun:
  assumes "run_im sel im h ob = (r, im', h')" and "im \<in> {Im_Startup, Im_Running} \<Longrightarrow> im_hydrated h"
  shows "im_hydrated h'"
  using assms run_im_hydrated [OF assms(1)] by (cases im) auto

lemma run_wifi_begun: "begun_hydrated w \<Longrightarrow> run_wifi env w ob = Inr w' \<Longrightarrow> begun_hydrated w'"
  by (cases "wl_pc w")
    (auto simp: run_wifi_cases run_wifi_defs begun_hydrated_def im_of_def Let_def
      split: if_splits option.splits sum.splits prod.splits dest: run_im_begun)

lemma update_settles:
  assumes "begun_hydrated w" and "run_wifi env w ob = Inr w'" and "responder_polled env w ob w'"
  shows "settled w'"
proof -
  from assms(3) obtain im where im: "polled_im w ob w' = Some im"
    "fst (snd (run_im (we_select env) im (wl_hydration w) (ob_im ob))) = Im_Running"
    by (auto simp: responder_polled_def split: option.splits)
  obtain r h' where r: "run_im (we_select env) im (wl_hydration w) (ob_im ob) = (r, Im_Running, h')"
    using im(2) by (metis prod.collapse)
  have pc: "im_of (wl_pc w) = Some im" using im(1) by (simp add: polled_im_def split: if_splits)
  then have h: "im_hydrated h'"
    using run_im_begun [OF r] assms(1) by (auto simp: begun_hydrated_def)
  have "(im_of (wl_pc w') = Some Im_Running \<and> wl_hydration w' = h') \<or>
      (im_of (wl_pc w') = None \<and> wl_hydration w' = ended_hydration ob (wl_hydration w) h')"
    using assms(2) pc r
    by (cases "wl_pc w")
      (auto simp: run_wifi_cases run_wifi_defs im_of_def Let_def split: if_splits option.splits sum.splits prod.splits)
  moreover have "im_of (wl_pc w') = None \<Longrightarrow> ob_im_polled ob"
    using im(1) by (simp add: polled_im_def split: if_splits)
  ultimately show ?thesis using h by (auto simp: settled_def ended_hydration_def)
qed

text \<open>The store machine: the invariant is that of the run, and once it has settled it stays so.\<close>

lemma store_step_Inr:
  "store_step env (w, n) so = Inr (w', n') \<longleftrightarrow>
     run_wifi env w (st_obs so) = Inr w' \<and> n' = store_after (st_loaded so) (st_updates so) n \<and>
     (st_loaded so \<noteq> None \<longrightarrow> startup_polled w (st_obs so) w') \<and>
     (st_updates so \<noteq> [] \<longrightarrow> responder_polled env w (st_obs so) w')"
  by (auto simp: store_step_def split: sum.split)

interpretation store_machine: op_machine "store_step env" "\<lambda>_ _. True" "\<lambda>(w, n). begun_hydrated w" for env
  by unfold_locales (auto simp: store_step_Inr dest: run_wifi_begun)

interpretation settled_machine: op_machine "store_step env" "\<lambda>_ _. True" "\<lambda>(w, n). settled w" for env
  by unfold_locales (auto simp: store_step_Inr dest: run_wifi_settled)

lemma settled_store:
  assumes "settled w" and "run_ops (store_step env) (w, n) sos = Inr (w', n')"
  shows "(\<forall>so \<in> set sos. st_loaded so = None) \<and> n' = fold (\<lambda>f. f) (concat (map st_updates sos)) n"
  using assms
proof (induction sos arbitrary: w n)
  case Nil
  then show ?case by simp
next
  case (Cons so sos)
  obtain w1 n1 where st: "store_step env (w, n) so = Inr (w1, n1)"
    and rest: "run_ops (store_step env) (w1, n1) sos = Inr (w', n')"
    using Cons.prems(2) by (auto simp: and_then_Inr_iff)
  have "settled w1" using Cons.prems(1) st by (auto simp: store_step_Inr dest: run_wifi_settled)
  from Cons.IH [OF this rest] st settled_no_startup [OF Cons.prems(1)] show ?case
    by (auto simp: store_step_Inr store_after_def)
qed

lemma updated_settled:
  assumes "begun_hydrated w" and "run_ops (store_step env) (w, n) sos = Inr (w', n')"
    and "\<exists>so \<in> set sos. st_updates so \<noteq> []"
  shows "settled w'"
  using assms
proof (induction sos arbitrary: w n)
  case Nil
  then show ?case by simp
next
  case (Cons so sos)
  obtain w1 n1 where st: "store_step env (w, n) so = Inr (w1, n1)"
    and rest: "run_ops (store_step env) (w1, n1) sos = Inr (w', n')"
    using Cons.prems(2) by (auto simp: and_then_Inr_iff)
  from st have r: "run_wifi env w (st_obs so) = Inr w1" by (simp add: store_step_Inr)
  show ?case
  proof (cases "st_updates so = []")
    case True
    with Cons.prems(3) have "\<exists>so \<in> set sos. st_updates so \<noteq> []" by simp
    from Cons.IH [OF run_wifi_begun [OF Cons.prems(1) r] rest this] show ?thesis .
  next
    case False
    with st have "settled w1"
      using update_settles [OF Cons.prems(1) r] by (simp add: store_step_Inr)
    with settled_machine.run_inv [where s = "(w1, n1)" and env = env, OF _ _ rest] show ?thesis by simp
  qed
qed

text \<open>
  C8. The networks store is never loaded again over what the commissioner has put into it. In a run
  without coexistence, over whatever phases, once the handlers have updated the store no later
  evaluation loads it, and it is what the updates make of it: the deferred connect and the
  operational phase find the credentials of the BLE phase, persisted or not.
\<close>

theorem credentials_kept:
  assumes "run_ops (store_step env) (wl_state_new st, n0) (before @ after) = Inr (w, n)"
    and "\<exists>so \<in> set before. st_updates so \<noteq> []"
  shows "\<exists>w1 n1. run_ops (store_step env) (wl_state_new st, n0) before = Inr (w1, n1) \<and>
    (\<forall>so \<in> set after. st_loaded so = None) \<and> n = fold (\<lambda>f. f) (concat (map st_updates after)) n1"
proof -
  from assms(1) obtain w1 n1 where b: "run_ops (store_step env) (wl_state_new st, n0) before = Inr (w1, n1)"
    and a: "run_ops (store_step env) (w1, n1) after = Inr (w, n)"
    by (auto simp: run_ops_append and_then_Inr_iff)
  have "begun_hydrated (wl_state_new st)" by (simp add: begun_hydrated_def wl_state_new_def im_of_def)
  from updated_settled [OF this b assms(2)] have "settled w1" .
  from settled_store [OF this a] b show ?thesis by blast
qed

text \<open>The store loaded empty, and a network added to it in the BLE phase.\<close>

definition untouched :: "(window, unit) wl_obs \<Rightarrow> (window, unit, 8 word list list) store_obs" where
  "untouched ob = \<lparr>st_obs = ob, st_loaded = None, st_updates = []\<rparr>"

definition store_scenario :: "(window, unit, 8 word list list) store_obs list" where
  "store_scenario =
     [untouched (quiet Open_Basic), untouched (quiet Open_Basic),
      \<lparr>st_obs = (quiet Open_Basic)\<lparr>ob_net_update := Some provisioned\<rparr>, st_loaded = Some [],
       st_updates = [\<lambda>n. n @ [[1, 2, 3]]]\<rparr>]"

lemma store_scenario_run:
  "\<exists>w. run_ops (store_step sample_env) (wl_state_new blank, [[9]])
     (store_scenario @ map untouched handover_scenario) = Inr (w, [[1, 2, 3]])"
  by (simp add: store_scenario_def untouched_def store_step_def store_after_def startup_polled_def
      responder_polled_def polled_im_def im_of_def scenario_eval)

theorem credentials_kept_witness:
  "\<exists>w n1. run_ops (store_step sample_env) (wl_state_new blank, [[9]])
       (store_scenario @ map untouched handover_scenario) = Inr (w, [[1, 2, 3]]) \<and>
     [[1, 2, 3]] = fold (\<lambda>f. f) (concat (map st_updates (map untouched handover_scenario))) n1"
proof -
  from store_scenario_run obtain w where
    w: "run_ops (store_step sample_env) (wl_state_new blank, [[9]])
     (store_scenario @ map untouched handover_scenario) = Inr (w, [[1, 2, 3]])" by blast
  have "\<exists>so \<in> set store_scenario. st_updates so \<noteq> []" by (simp add: store_scenario_def)
  from credentials_kept [OF w this] w show ?thesis by blast
qed

text \<open>
  The other side of it: a startup that is given up with its phase - the window is gone before it is
  through - is not begun again, so a store it had not loaded yet stays as it is.
\<close>

theorem abandoned_startup_not_repeated:
  assumes "im_hydrated (wl_hydration w)" and "im_of (wl_pc w) = None"
    and "run_ops (store_step env) (w, n) sos = Inr (w', n')"
  shows "\<forall>so \<in> set sos. st_loaded so = None"
  using settled_store [OF _ assms(3)] assms(1,2) by (simp add: settled_def)

end
