(* ===== verification/Concurrent.thy ===== *)
theory Concurrent
  imports Calls_Spec
begin

text \<open>
  Calls of \<open>run\<close>, \<open>run_coex\<close> and \<open>run_preex\<close> (\<^verbatim>\<open>src/src/eth.rs\<close>, \<^verbatim>\<open>src/src/wireless/wifi.rs\<close>,
  \<^verbatim>\<open>thread.rs\<close>) that share one stack: any number of callers, whose evaluations interleave, with the
  run lock between them. The futures are not \<open>Send\<close>: an evaluation of one of them is not interrupted
  by another. A wireless call also takes the lock of the networks store; only calls that hold the
  run lock ask for it, so it is free by then, and one step takes both. However the calls interleave, they take effect one after the other, in the order in
  which they end; so what is shown of sequences of calls holds of concurrent ones.
\<close>

section \<open>A stack with its callers\<close>

text \<open>
  \<open>'k\<close> is the kind of a call, \<open>'p\<close> its await point once it holds the lock. A running call keeps the
  observations it has made; \<open>sh_done\<close> lists the calls that have held the lock and are over, with
  their result, or \<open>None\<close> for one that was dropped.
\<close>

datatype ('k, 'p, 'o) caller =
    C_Idle
  | C_Waiting 'k
  | C_Running 'k 'p "'o list"

record ('k, 'p, 'o, 's) shared =
  sh_stack :: 's
  sh_owner :: "nat option"
  sh_callers :: "nat \<Rightarrow> ('k, 'p, 'o) caller"
  sh_done :: "(('k \<times> 'o list) \<times> run_end option) list"

datatype ('k, 'o) caller_event =
    Ev_Call nat 'k
  | Ev_Lock nat
  | Ev_Poll nat 'o
  | Ev_Drop nat

definition shared_new :: "'s \<Rightarrow> ('k, 'p, 'o, 's) shared" where
  "shared_new s = \<lparr>sh_stack = s, sh_owner = None, sh_callers = (\<lambda>_. C_Idle), sh_done = []\<rparr>"

text \<open>
  A call is over: the guard resets the allocator, then the lock is released (the locals of the
  future are dropped in the reverse order of their declaration).
\<close>

definition call_over where
  "call_over i c r s sh =
     sh\<lparr>sh_stack := drop_guard s, sh_owner := None, sh_callers := (sh_callers sh)(i := C_Idle),
        sh_done := sh_done sh @ [(c, r)]\<rparr>"

text \<open>
  \<open>step\<close> and \<open>start\<close> give, for each kind, the task of a call that holds the lock, and where it
  begins. \<open>Inl ()\<close>: the event cannot happen.
\<close>

fun shared_step ::
    "('k \<Rightarrow> ('p, ('m, 'b, 'i, 'n) mstack, 'o) stack_task) \<Rightarrow> ('k \<Rightarrow> 'p) \<Rightarrow>
     (('k, 'p, 'o, ('m, 'b, 'i, 'n) mstack) shared, ('k, 'o) caller_event, unit) task" where
  "shared_step step start sh (Ev_Call i k) =
     (case sh_callers sh i of
        C_Idle \<Rightarrow> Inr (sh\<lparr>sh_callers := (sh_callers sh)(i := C_Waiting k)\<rparr>)
      | _ \<Rightarrow> Inl ())"
| "shared_step step start sh (Ev_Lock i) =
     (case sh_callers sh i of
        C_Waiting k \<Rightarrow>
          if sh_owner sh = None
          then Inr (sh\<lparr>sh_owner := Some i, sh_callers := (sh_callers sh)(i := C_Running k (start k) [])\<rparr>)
          else Inl ()
      | _ \<Rightarrow> Inl ())"
| "shared_step step start sh (Ev_Poll i ob) =
     (case sh_callers sh i of
        C_Running k p obs \<Rightarrow>
          (case step k p (sh_stack sh) ob of
             (Inl r, s) \<Rightarrow> Inr (call_over i (k, obs @ [ob]) (Some r) s sh)
           | (Inr p', s) \<Rightarrow>
               Inr (sh\<lparr>sh_stack := s, sh_callers := (sh_callers sh)(i := C_Running k p' (obs @ [ob]))\<rparr>))
      | _ \<Rightarrow> Inl ())"
| "shared_step step start sh (Ev_Drop i) =
     (case sh_callers sh i of
        C_Idle \<Rightarrow> Inl ()
      | C_Waiting k \<Rightarrow> Inr (sh\<lparr>sh_callers := (sh_callers sh)(i := C_Idle)\<rparr>)
      | C_Running k p obs \<Rightarrow> Inr (call_over i (k, obs) None (sh_stack sh) sh))"

section \<open>One call after the other\<close>

text \<open>The same call, with the stack to itself.\<close>

definition seq_call ::
    "('k \<Rightarrow> ('p, ('m, 'b, 'i, 'n) mstack, 'o) stack_task) \<Rightarrow> ('k \<Rightarrow> 'p) \<Rightarrow> 'k \<times> 'o list \<Rightarrow>
     ('m, 'b, 'i, 'n) mstack \<Rightarrow> run_end option \<times> ('m, 'b, 'i, 'n) mstack" where
  "seq_call step start c s =
     (case run_future (step (fst c)) (start (fst c)) s (snd c) of
        (Inl r, s') \<Rightarrow> (Some r, drop_guard s')
      | (Inr _, s') \<Rightarrow> (None, drop_guard s'))"

lemma calls_snoc:
  "calls call s (cs @ [c]) =
     (let (rs, s') = calls call s cs; (r, s'') = call c s' in (rs @ [r], s''))"
  by (induction cs arbitrary: s) (simp_all add: Let_def split: prod.splits)

lemma run_future_snoc:
  "run_future step p s (obs @ [ob]) =
     (case run_future step p s obs of
        (Inl r, s') \<Rightarrow> (Inl r, s')
      | (Inr p', s') \<Rightarrow> step p' s' ob)"
  by (induction obs arbitrary: p s) (simp_all split: prod.splits sum.splits)

definition linear_inv where
  "linear_inv step start s0 sh \<longleftrightarrow>
     (\<exists>t. calls (seq_call step start) s0 (map fst (sh_done sh)) = (map snd (sh_done sh), t) \<and>
        (case sh_owner sh of
           None \<Rightarrow> sh_stack sh = t
         | Some i \<Rightarrow> (\<exists>k p obs. sh_callers sh i = C_Running k p obs \<and>
             run_future (step k) (start k) t obs = (Inr p, sh_stack sh)))) \<and>
     (\<forall>i k p obs. sh_callers sh i = C_Running k p obs \<longrightarrow> sh_owner sh = Some i)"

lemma linear_inv_new: "linear_inv step start s0 (shared_new s0)"
  by (simp add: linear_inv_def shared_new_def)

text \<open>The owner's call is over, with the stack \<open>u\<close> its guard finds.\<close>

lemma call_over_inv:
  assumes "linear_inv step start s0 sh" and "sh_callers sh i = C_Running k p obs"
    and "\<And>t. run_future (step k) (start k) t obs = (Inr p, sh_stack sh) \<Longrightarrow>
      seq_call step start c t = (r, drop_guard u)"
  shows "linear_inv step start s0 (call_over i c r u sh)"
proof -
  from assms(1,2) have own: "sh_owner sh = Some i" by (auto simp: linear_inv_def)
  with assms(1,2) obtain t where
    t: "calls (seq_call step start) s0 (map fst (sh_done sh)) = (map snd (sh_done sh), t)"
    and f: "run_future (step k) (start k) t obs = (Inr p, sh_stack sh)"
    by (auto simp: linear_inv_def)
  from assms(3) [OF f] t show ?thesis
    using assms(1) own by (auto simp: linear_inv_def call_over_def calls_snoc)
qed

interpretation shared_machine: op_machine "shared_step step start" "\<lambda>_ _. True" "linear_inv step start s0"
  for step start s0
proof
  fix sh ev sh'
  assume inv: "linear_inv step start s0 sh" and st: "shared_step step start sh ev = Inr sh'"
  show "linear_inv step start s0 sh'"
  proof (cases ev)
    case (Ev_Call i k)
    with st have "sh_callers sh i = C_Idle"
      and "sh' = sh\<lparr>sh_callers := (sh_callers sh)(i := C_Waiting k)\<rparr>"
      by (auto split: caller.splits)
    with inv show ?thesis by (auto simp: linear_inv_def split: option.splits)
  next
    case (Ev_Lock i)
    with st obtain k where "sh_owner sh = None"
      and "sh' = sh\<lparr>sh_owner := Some i, sh_callers := (sh_callers sh)(i := C_Running k (start k) [])\<rparr>"
      by (auto split: caller.splits if_splits)
    with inv show ?thesis by (auto simp: linear_inv_def)
  next
    case (Ev_Poll i ob)
    with st obtain k p obs where c: "sh_callers sh i = C_Running k p obs"
      by (auto split: caller.splits)
    obtain x u where x: "step k p (sh_stack sh) ob = (x, u)" by fastforce
    show ?thesis
    proof (cases x)
      case (Inl r)
      with st Ev_Poll c x have "sh' = call_over i (k, obs @ [ob]) (Some r) u sh" by simp
      moreover have "linear_inv step start s0 (call_over i (k, obs @ [ob]) (Some r) u sh)"
        by (rule call_over_inv [OF inv c]) (simp add: seq_call_def run_future_snoc x Inl)
      ultimately show ?thesis by simp
    next
      case (Inr p')
      have "sh_owner sh = Some i" using inv c by (auto simp: linear_inv_def)
      with Inr st Ev_Poll c x inv show ?thesis
        by (auto simp: linear_inv_def run_future_snoc split: if_splits)
    qed
  next
    case (Ev_Drop i)
    show ?thesis
    proof (cases "sh_callers sh i")
      case C_Idle
      with st Ev_Drop show ?thesis by simp
    next
      case (C_Waiting k)
      with st Ev_Drop have "sh' = sh\<lparr>sh_callers := (sh_callers sh)(i := C_Idle)\<rparr>" by simp
      with inv C_Waiting show ?thesis by (auto simp: linear_inv_def split: option.splits)
    next
      case (C_Running k p obs)
      with st Ev_Drop have "sh' = call_over i (k, obs) None (sh_stack sh) sh" by simp
      moreover have "linear_inv step start s0 (call_over i (k, obs) None (sh_stack sh) sh)"
        by (rule call_over_inv [OF inv C_Running]) (simp add: seq_call_def)
      ultimately show ?thesis by simp
    qed
  qed
qed

lemma shared_linear:
  assumes "run_ops (shared_step step start) (shared_new s0) evs = Inr sh"
  shows "linear_inv step start s0 sh"
  by (rule shared_machine.run_inv [OF linear_inv_new _ assms]) simp

section \<open>The stacks\<close>

text \<open>Over Ethernet there is one kind of call; a wireless stack serves \<open>run\<close> and \<open>run_coex\<close>.\<close>

datatype run_kind = Kind_Run | Kind_Run_Coex

definition sum_task ::
    "('a, 's, 'o) stack_task \<Rightarrow> ('b, 's, 'o) stack_task \<Rightarrow> ('a + 'b, 's, 'o) stack_task" where
  "sum_task t u p s ob =
     (case p of
        Inl a \<Rightarrow> map_prod (map_sum id Inl) id (t a s ob)
      | Inr b \<Rightarrow> map_prod (map_sum id Inr) id (u b s ob))"

fun wireless_start :: "run_kind \<Rightarrow> 'a run_pc + 'b run_pc" where
  "wireless_start Kind_Run = Inl Run_Start"
| "wireless_start Kind_Run_Coex = Inr Run_Start"

definition eth_shared where
  "eth_shared ethernet ly F env = shared_step (\<lambda>_ :: unit. eth_run ethernet ly F env) (\<lambda>_. Run_Start)"

definition wifi_shared where
  "wifi_shared wifi ly F env =
     shared_step (\<lambda>_. sum_task (wifi_run ly env) (wifi_run_coex wifi ly F env)) wireless_start"

definition thread_shared where
  "thread_shared thread ly F env =
     shared_step (\<lambda>_. sum_task (thread_run ly env) (thread_run_coex thread ly F env)) wireless_start"

fun the_call :: "run_kind \<times> ('q, 'st) stack_obs list \<Rightarrow> ('q, 'st) wireless_call" where
  "the_call (Kind_Run, obs) = Call_Run obs"
| "the_call (Kind_Run_Coex, obs) = Call_Run_Coex obs"

lemma run_future_sum:
  "run_future (sum_task t u) (Inl a) s obs = map_prod (map_sum id Inl) id (run_future t a s obs)"
  "run_future (sum_task t u) (Inr b) s obs = map_prod (map_sum id Inr) id (run_future u b s obs)"
  by (induction obs arbitrary: a b s) (auto simp: sum_task_def split: prod.splits sum.splits)

lemma seq_wireless:
  "seq_call (\<lambda>_. sum_task t u) wireless_start (k, obs) s =
     (case k of Kind_Run \<Rightarrow> call_run t s obs | Kind_Run_Coex \<Rightarrow> call_run u s obs)"
  by (cases k) (auto simp: seq_call_def call_run_def run_future_sum split: prod.splits sum.splits)

lemma seq_calls:
  "seq_call (\<lambda>_ :: unit. eth_run ethernet ly F env) (\<lambda>_. Run_Start) = (\<lambda>c. eth_call ethernet ly F env (snd c))"
  "seq_call (\<lambda>_. sum_task (wifi_run ly env) (wifi_run_coex wifi ly F env)) wireless_start =
     (\<lambda>c. wifi_call wifi ly F env (the_call c))"
  "seq_call (\<lambda>_. sum_task (thread_run ly env) (thread_run_coex thread ly F env)) wireless_start =
     (\<lambda>c. thread_call thread ly F env (the_call c))"
proof -
  show "seq_call (\<lambda>_ :: unit. eth_run ethernet ly F env) (\<lambda>_. Run_Start) = (\<lambda>c. eth_call ethernet ly F env (snd c))"
    by (intro ext) (simp add: seq_call_def eth_call_def call_run_def)
  have "wifi_call wifi ly F env (the_call (k, obs)) s =
      seq_call (\<lambda>_. sum_task (wifi_run ly env) (wifi_run_coex wifi ly F env)) wireless_start (k, obs) s" for k obs s
    by (cases k) (simp_all add: seq_wireless wifi_call_def)
  then show "seq_call (\<lambda>_. sum_task (wifi_run ly env) (wifi_run_coex wifi ly F env)) wireless_start =
      (\<lambda>c. wifi_call wifi ly F env (the_call c))"
    by (intro ext) auto
  have "thread_call thread ly F env (the_call (k, obs)) s =
      seq_call (\<lambda>_. sum_task (thread_run ly env) (thread_run_coex thread ly F env)) wireless_start (k, obs) s" for k obs s
    by (cases k) (simp_all add: seq_wireless thread_call_def)
  then show "seq_call (\<lambda>_. sum_task (thread_run ly env) (thread_run_coex thread ly F env)) wireless_start =
      (\<lambda>c. thread_call thread ly F env (the_call c))"
    by (intro ext) auto
qed

lemma calls_map: "calls (\<lambda>c. call (f c)) s cs = calls call s (map f cs)"
  by (induction cs arbitrary: s) simp_all

text \<open>What a stack with its callers owes to the calls it has served, one after the other.\<close>

definition linearised ::
    "('c \<Rightarrow> 's \<Rightarrow> run_end option \<times> 's) \<Rightarrow> (('k \<times> 'o list) \<Rightarrow> 'c) \<Rightarrow> 's \<Rightarrow>
     ('k, 'p, 'o, 's) shared \<Rightarrow> 's \<Rightarrow> bool" where
  "linearised call f s0 sh t \<longleftrightarrow>
     calls call s0 (map (f \<circ> fst) (sh_done sh)) = (map snd (sh_done sh), t) \<and>
     (sh_owner sh = None \<longrightarrow> sh_stack sh = t) \<and>
     (\<forall>i k p obs. sh_callers sh i = C_Running k p obs \<longrightarrow> sh_owner sh = Some i)"

lemma linear_linearised:
  assumes "linear_inv step start s0 sh" and "seq_call step start = (\<lambda>c. call (f c))"
  shows "\<exists>t. linearised call f s0 sh t"
proof -
  from assms(1) obtain t where
    t: "calls (seq_call step start) s0 (map fst (sh_done sh)) = (map snd (sh_done sh), t)"
    and "case sh_owner sh of None \<Rightarrow> sh_stack sh = t
      | Some i \<Rightarrow> \<exists>k p obs. sh_callers sh i = C_Running k p obs \<and>
          run_future (step k) (start k) t obs = (Inr p, sh_stack sh)"
    unfolding linear_inv_def by blast
  then have "sh_owner sh = None \<longrightarrow> sh_stack sh = t"
    by (simp split: option.splits)
  moreover from assms(1) have "\<forall>i k p obs. sh_callers sh i = C_Running k p obs \<longrightarrow> sh_owner sh = Some i"
    by (simp add: linear_inv_def)
  moreover from t have "calls call s0 (map (f \<circ> fst) (sh_done sh)) = (map snd (sh_done sh), t)"
    unfolding assms(2) calls_map map_map .
  ultimately show ?thesis
    unfolding linearised_def by (intro exI [of _ t] conjI)
qed

text \<open>
  C3. Calls that share a stack take effect one after the other. Over Ethernet, Wifi or Thread,
  whatever callers there are and however their evaluations interleave, wait for the lock and are
  dropped: the calls that have held the lock and are over had the results they would have had in
  sequence, in the order in which they ended; when no call holds the lock the stack is what that
  sequence leaves behind; and no two calls are past the lock.
\<close>

theorem concurrent_calls_linearise:
  "(run_ops (eth_shared ethernet ly F env) (shared_new s0) evs = Inr sh \<longrightarrow>
      (\<exists>t. linearised (eth_call ethernet ly F env) snd s0 sh t)) \<and>
   (run_ops (wifi_shared wifi ly F env) (shared_new w0) wevs = Inr wh \<longrightarrow>
      (\<exists>t. linearised (wifi_call wifi ly F env) the_call w0 wh t)) \<and>
   (run_ops (thread_shared wifi ly F env) (shared_new w0) wevs = Inr th \<longrightarrow>
      (\<exists>t. linearised (thread_call wifi ly F env) the_call w0 th t))"
proof (intro conjI impI)
  assume "run_ops (eth_shared ethernet ly F env) (shared_new s0) evs = Inr sh"
  from shared_linear [OF this [unfolded eth_shared_def]]
  show "\<exists>t. linearised (eth_call ethernet ly F env) snd s0 sh t"
    by (rule linear_linearised) (rule seq_calls)
next
  assume "run_ops (wifi_shared wifi ly F env) (shared_new w0) wevs = Inr wh"
  from shared_linear [OF this [unfolded wifi_shared_def]]
  show "\<exists>t. linearised (wifi_call wifi ly F env) the_call w0 wh t"
    by (rule linear_linearised) (rule seq_calls)
next
  assume "run_ops (thread_shared wifi ly F env) (shared_new w0) wevs = Inr th"
  from shared_linear [OF this [unfolded thread_shared_def]]
  show "\<exists>t. linearised (thread_call wifi ly F env) the_call w0 th t"
    by (rule linear_linearised) (rule seq_calls)
qed

text \<open>
  Over a driver that leaves the stack to the task: one caller cancelled after its first evaluation
  while another waits, which then gets the lock and fails in its transport reset.
\<close>

definition two_callers :: "(run_kind, (window, unit) stack_obs) caller_event list" where
  "two_callers =
     [Ev_Call 0 Kind_Run, Ev_Call 1 Kind_Run_Coex, Ev_Lock 0, Ev_Poll 0 (saw (quiet Open_Basic)),
      Ev_Drop 0, Ev_Lock 1, Ev_Poll 1 ((saw (quiet Closed))\<lparr>so_reset_transport := Inl StdIoError\<rparr>)]"

lemma two_callers_run:
  "\<exists>sh. run_ops (wifi_shared preex_wireless byte_layouts {} sample_env) (shared_new (unit_stack 20))
       two_callers = Inr sh \<and> sh_owner sh = None \<and> map snd (sh_done sh) = [None, Some (Inr (Inl StdIoError))]"
proof -
  have r: "stack_ready (unit_stack 20)" by (rule unit_stack_ready) simp
  have "stack_alloc [byte_layout] (unit_stack 20) =
      Inr (unit_stack 20\<lparr>ms_bump := (ms_bump (unit_stack 20))\<lparr>b_offset := 1\<rparr>\<rparr>)"
    using r by (simp add: stack_alloc_fits stack_ready_def byte_need)
      (simp add: unit_stack_def bump_new_def)
  then show ?thesis
    by (simp add: two_callers_def wifi_shared_def shared_new_def sum_task_def wifi_run_def saw_def
        wifi_run_coex_def byte_layouts_def call_over_def)
qed

theorem concurrent_calls_linearise_witness:
  "\<exists>sh t. run_ops (wifi_shared preex_wireless byte_layouts {} sample_env) (shared_new (unit_stack 20))
       two_callers = Inr sh \<and>
     linearised (wifi_call preex_wireless byte_layouts {} sample_env) the_call (unit_stack 20) sh t \<and>
     sh_stack sh = t"
proof -
  from two_callers_run obtain sh where
    sh: "run_ops (wifi_shared preex_wireless byte_layouts {} sample_env) (shared_new (unit_stack 20))
       two_callers = Inr sh" and "sh_owner sh = None" by blast
  with concurrent_calls_linearise [of _ _ _ _ _ _ _ preex_wireless] have
    "\<exists>t. linearised (wifi_call preex_wireless byte_layouts {} sample_env) the_call (unit_stack 20) sh t"
    by blast
  with sh \<open>sh_owner sh = None\<close> show ?thesis by (auto simp: linearised_def)
qed

section \<open>Safety\<close>

lemma seq_call_system:
  assumes "\<And>k. arena_task (step k) udp"
  shows "call_system (seq_call step start) udp"
proof
  fix s c r s'
  assume ready: "stack_ready s" and call: "seq_call step start c s = (r, s')"
  obtain x t where f: "run_future (step (fst c)) (start (fst c)) s (snd c) = (x, t)" by fastforce
  have rel: "stack_rel s t" by (rule arena_task.future_rel [OF assms f])
  have panic: "stack_panic udp p" if "x = Inl (Inl p)" for p
    using arena_task.future_panic [OF assms] ready f that by (auto simp: stack_ready_def)
  from call f have "s' = drop_guard t" and "r = (case x of Inl y \<Rightarrow> Some y | Inr _ \<Rightarrow> None)"
    by (auto simp: seq_call_def split: sum.splits)
  with drop_guard_ready [OF ready rel] panic
  show "stack_ready s' \<and> stack_rel s s' \<and> (\<forall>p. r = Some (Inl p) \<longrightarrow> stack_panic udp p)"
    by (auto split: sum.splits)
qed

lemma sum_arena:
  assumes "arena_task t udp" and "arena_task u udp"
  shows "arena_task (sum_task t u) udp"
proof
  fix pc s ob
  show "stack_rel s s'" if "sum_task t u pc s ob = (r, s')" for r s'
    using that arena_task.task_rel [OF assms(1)] arena_task.task_rel [OF assms(2)]
    by (cases pc) (auto simp: sum_task_def map_prod_def split: prod.splits)
  show "stack_panic udp p" if "bump_ok (ms_bump s)" "sum_task t u pc s ob = (Inl (Inl p), s')" for p s'
    using that arena_task.task_panic [OF assms(1), of s] arena_task.task_panic [OF assms(2), of s]
    by (cases pc) (auto simp: sum_task_def map_prod_def map_sum_def split: prod.splits sum.splits)
qed

definition shared_safe :: "bool \<Rightarrow> ('m, 'b, 'i, 'n) mstack \<Rightarrow> ('k, 'p, 'o, ('m, 'b, 'i, 'n) mstack) shared \<Rightarrow> bool" where
  "shared_safe udp s0 sh \<longleftrightarrow>
     (sh_owner sh = None \<longrightarrow> b_offset (ms_bump (sh_stack sh)) = 0) \<and>
     b_size (ms_bump (sh_stack sh)) = b_size (ms_bump s0) \<and>
     im_startups (ms_hydration (sh_stack sh)) \<le> 1 \<and>
     (\<forall>p. Some (Inl p) \<in> snd ` set (sh_done sh) \<longrightarrow>
        p = Out_Of_Bump_Memory \<or> p = Unwrap_Failed \<and> \<not> udp)"

lemma linear_safe:
  assumes arena: "\<And>k. arena_task (step k) udp" and ready: "stack_ready s0"
    and run: "run_ops (shared_step step start) (shared_new s0) evs = Inr sh"
  shows "shared_safe udp s0 sh"
proof -
  have inv: "linear_inv step start s0 sh" by (rule shared_linear [OF run])
  then obtain t where
    c: "calls (seq_call step start) s0 (map fst (sh_done sh)) = (map snd (sh_done sh), t)"
    and own: "case sh_owner sh of None \<Rightarrow> sh_stack sh = t
      | Some i \<Rightarrow> \<exists>k p obs. sh_callers sh i = C_Running k p obs \<and>
          run_future (step k) (start k) t obs = (Inr p, sh_stack sh)"
    unfolding linear_inv_def by blast
  from call_system.calls_safe [OF seq_call_system ready c] arena
  have t: "stack_ready t" "stack_rel s0 t" "\<forall>p. Some (Inl p) \<in> set (map snd (sh_done sh)) \<longrightarrow> stack_panic udp p"
    by blast+
  from own have "stack_rel t (sh_stack sh)"
    by (cases "sh_owner sh") (auto dest: arena_task.future_rel [OF arena])
  with t(1,2) have "b_size (ms_bump (sh_stack sh)) = b_size (ms_bump s0)"
    and "hydration_ok (ms_hydration (sh_stack sh))"
    by (auto simp: stack_rel_def stack_ready_def)
  moreover from own t(1) have "sh_owner sh = None \<longrightarrow> b_offset (ms_bump (sh_stack sh)) = 0"
    by (auto simp: stack_ready_def)
  ultimately show ?thesis
    using t(3) by (simp add: shared_safe_def hydration_ok_def stack_panic_def udp_panic_def)
qed

lemmas call_arenas =
  arena_task.guarded [OF arena_task.driven [OF eth_arena.arena_task_axioms]]
  arena_task.guarded [OF arena_task.driven [OF wifi_coex_arena.arena_task_axioms]]
  arena_task.guarded [OF arena_task.driven [OF thread_coex_arena.arena_task_axioms]]
  arena_task.guarded [OF wifi_arena.arena_task_axioms]
  arena_task.guarded [OF thread_arena.arena_task_axioms]

text \<open>
  C2. Whatever callers share a stack, with any driver that leaves the stack to the task, and
  however their evaluations interleave - calls that return, fail, panic, wait for the lock, or are
  dropped at any await point: whenever no call holds the lock the whole arena is free, the arena
  keeps its size, the interaction model has been started up at most once over all the calls, and
  the only panics of the stack's own tasks are the one for lack of bump memory and, over a network
  stack that does not offer UDP, the one of unwrapping it.
\<close>

theorem concurrent_calls_safe:
  assumes "driver_contract ethernet" and "driver_contract wifi" and "driver_contract thread"
    and "stack_ready s0" and "stack_ready w0"
  shows "(run_ops (eth_shared ethernet ly F env) (shared_new s0) evs = Inr sh \<longrightarrow> shared_safe (we_udp env) s0 sh) \<and>
    (run_ops (wifi_shared wifi ly F env) (shared_new w0) wevs = Inr wh \<longrightarrow> shared_safe (we_udp env) w0 wh) \<and>
    (run_ops (thread_shared thread ly F env) (shared_new w0) wevs = Inr th \<longrightarrow> shared_safe (we_udp env) w0 th)"
proof (intro conjI impI)
  assume "run_ops (eth_shared ethernet ly F env) (shared_new s0) evs = Inr sh"
  from this [unfolded eth_shared_def] show "shared_safe (we_udp env) s0 sh"
    by (rule linear_safe [OF _ assms(4), rotated])
      (unfold eth_run_def run_ethernet_def, intro call_arenas assms)
next
  assume "run_ops (wifi_shared wifi ly F env) (shared_new w0) wevs = Inr wh"
  from this [unfolded wifi_shared_def] show "shared_safe (we_udp env) w0 wh"
    by (rule linear_safe [OF _ assms(5), rotated])
      (unfold wifi_run_def wifi_run_coex_def run_wifi_coex_def, intro sum_arena call_arenas assms)
next
  assume "run_ops (thread_shared thread ly F env) (shared_new w0) wevs = Inr th"
  from this [unfolded thread_shared_def] show "shared_safe (we_udp env) w0 th"
    by (rule linear_safe [OF _ assms(5), rotated])
      (unfold thread_run_def thread_run_coex_def run_thread_coex_def, intro sum_arena call_arenas assms)
qed

theorem concurrent_calls_safe_witness:
  "\<exists>sh. run_ops (wifi_shared preex_wireless byte_layouts {} sample_env) (shared_new (unit_stack 20))
       two_callers = Inr sh \<and> shared_safe True (unit_stack 20) sh"
proof -
  have r: "stack_ready (unit_stack 20)" by (rule unit_stack_ready) simp
  from two_callers_run obtain sh where
    sh: "run_ops (wifi_shared preex_wireless byte_layouts {} sample_env) (shared_new (unit_stack 20))
       two_callers = Inr sh" by blast
  with concurrent_calls_safe [OF preexisting_contract(1,2,2) r r, where env = sample_env]
  have "shared_safe (we_udp sample_env) (unit_stack 20) sh" by blast
  with sh show ?thesis by (auto simp: sample_env_def)
qed

end
