(* ===== verification/Responder.thy ===== *)
theory Responder
  imports Calls_Spec
begin

text \<open>
  The responder in the bump allocator (\<open>run_responder_with_bump\<close>, \<open>run_one_responder_with_bump\<close> of
  \<^verbatim>\<open>src/src/lib.rs\<close>), poll by poll: the handlers are created in the first poll of a responder and
  polled together from then on. The handlers proper (\<open>Responder::handle\<close>) are code of \<^verbatim>\<open>rs-matter\<close>: an
  observation gives what each of them returns when polled. The interaction model with this
  responder refines the one whose responder is an observation by itself, with its memory.
\<close>

section \<open>One responder\<close>

datatype one_pc = One_Start | One_Handlers "ptr list"

text \<open>Handlers are polled by their number; \<open>select_slice\<close> gives the result and drops the index.\<close>

definition one_responder_poll ::
    "(unit res option list \<Rightarrow> unit res option) \<Rightarrow> nat \<Rightarrow> layout \<Rightarrow> one_pc \<Rightarrow> bump \<Rightarrow>
     (nat \<Rightarrow> unit res option) \<Rightarrow> panic + (unit res option \<times> one_pc \<times> bump)" where
  "one_responder_poll sel q T pc b handle =
     (case pc of
        One_Start \<Rightarrow>
          and_then (run_one_responder_with_bump q T b) (\<lambda>(handlers, b).
          Inr (sel (map handle [0..<length handlers]), One_Handlers handlers, b))
      | One_Handlers handlers \<Rightarrow> Inr (sel (map handle [0..<length handlers]), One_Handlers handlers, b))"

section \<open>Both responders\<close>

datatype resp_pc = Resp_Start | Resp_Running "one_pc \<times> one_pc"

record resp_obs =
  ro_actual :: "nat \<Rightarrow> unit res option"
  ro_busy :: "nat \<Rightarrow> unit res option"
  ro_busy_polled :: bool

text \<open>
  \<open>select(a, c).coalesce()\<close> of two futures that may allocate: it may end with the first of them
  before the other is polled.
\<close>

definition select_two where
  "select_two sel polled poll_a poll_c pcs b ob =
     and_then (poll_a (fst pcs) b ob) (\<lambda>(r, a, b).
     case (if polled ob then None else sel [r, None]) of
       Some r \<Rightarrow> Inr (Some r, (a, snd pcs), b)
     | None \<Rightarrow>
         and_then (poll_c (snd pcs) b ob) (\<lambda>(r', c, b).
         Inr (sel [r, r'], (a, c), b)))"

definition both_responders_poll ::
    "(unit res option list \<Rightarrow> unit res option) \<Rightarrow> layouts \<Rightarrow> string set \<Rightarrow> one_pc \<times> one_pc \<Rightarrow> bump \<Rightarrow> resp_obs \<Rightarrow>
     panic + (unit res option \<times> (one_pc \<times> one_pc) \<times> bump)" where
  "both_responders_poll sel ly F =
     select_two sel ro_busy_polled
       (\<lambda>actual b ob. one_responder_poll sel (max_responders F) (ly_handler ly) actual b (ro_actual ob))
       (\<lambda>busy b ob. one_responder_poll sel max_busy_responders (ly_busy_handler ly) busy b (ro_busy ob))"

definition responder_poll ::
    "(unit res option list \<Rightarrow> unit res option) \<Rightarrow> layouts \<Rightarrow> string set \<Rightarrow> resp_pc \<Rightarrow> bump \<Rightarrow> resp_obs \<Rightarrow>
     panic + (unit res option \<times> resp_pc \<times> bump)" where
  "responder_poll sel ly F pc b ob =
     (case pc of
        Resp_Start \<Rightarrow>
          and_then (take_slots reserve [ly_actual ly, ly_busy ly] b) (\<lambda>(_, b).
          and_then (both_responders_poll sel ly F (One_Start, One_Start) b ob) (\<lambda>(r, pcs, b).
          Inr (r, Resp_Running pcs, b)))
      | Resp_Running pcs \<Rightarrow>
          and_then (both_responders_poll sel ly F pcs b ob) (\<lambda>(r, pcs, b).
          Inr (r, Resp_Running pcs, b)))"

section \<open>The interaction model with its responder\<close>

datatype im_live_pc = Live_Start | Live_Startup | Live_Running resp_pc

record im_live_obs =
  il_startup :: "unit res option"
  il_resp :: resp_obs
  il_run :: "unit res option"

text \<open>
  \<open>run_im_with_bump\<close>. A panic is given with the stack as the evaluation found it, the hydration
  apart; the guard resets the allocator in any case.
\<close>

definition poll_live_running where
  "poll_live_running ly F sel rp s ob =
     (case responder_poll sel ly F rp (ms_bump s) (il_resp ob) of
        Inl p \<Rightarrow> (Inl p, Live_Running rp, s)
      | Inr (r, rp, b) \<Rightarrow> (Inr (sel [r, il_run ob]), Live_Running rp, s\<lparr>ms_bump := b\<rparr>))"

definition poll_live_start where
  "poll_live_start ly F sel s ob =
     (case stack_alloc [ly_responder ly] s of
        Inl p \<Rightarrow> (Inl p, Live_Running Resp_Start, s)
      | Inr s' \<Rightarrow>
          (case poll_live_running ly F sel Resp_Start s' ob of
             (Inl p, pc, _) \<Rightarrow> (Inl p, pc, s)
           | polled \<Rightarrow> polled))"

definition poll_live_startup where
  "poll_live_startup ly F sel s ob =
     (case il_startup ob of
        None \<Rightarrow> (Inr None, Live_Startup, s)
      | Some (Inl e) \<Rightarrow> (Inr (Some (Inl e)), Live_Startup, s)
      | Some (Inr _) \<Rightarrow> poll_live_start ly F sel s ob)"

definition run_im_live ::
    "layouts \<Rightarrow> string set \<Rightarrow> (unit res option list \<Rightarrow> unit res option) \<Rightarrow> im_live_pc \<Rightarrow>
     ('m, 'b, 'i, 'n) mstack \<Rightarrow> im_live_obs \<Rightarrow>
     (panic + unit res option) \<times> im_live_pc \<times> ('m, 'b, 'i, 'n) mstack" where
  "run_im_live ly F sel pc s ob =
     (case pc of
        Live_Start \<Rightarrow>
          (case startup_im (ms_hydration s) of
             (True, h) \<Rightarrow> poll_live_startup ly F sel (s\<lparr>ms_hydration := h\<rparr>) ob
           | (False, h) \<Rightarrow> poll_live_start ly F sel (s\<lparr>ms_hydration := h\<rparr>) ob)
      | Live_Startup \<Rightarrow> poll_live_startup ly F sel s ob
      | Live_Running rp \<Rightarrow> poll_live_running ly F sel rp s ob)"

section \<open>What the responders allocate\<close>

text \<open>
  A future in the allocator makes the allocations of its sites in its first poll, in their order:
  all of them when it is pending after that poll, as many as it got to when it ended in it.
  \<open>created\<close> says that it is past that poll; later polls leave the memory alone.
\<close>

locale site_future =
  fixes poll :: "'pc \<Rightarrow> bump \<Rightarrow> 'o \<Rightarrow> panic + (unit res option \<times> 'pc \<times> bump)"
    and start :: 'pc and created :: "'pc \<Rightarrow> bool" and sites :: "layout list" and ends :: "'o \<Rightarrow> unit res set"
  assumes first_poll: "case poll start b ob of
      Inl p \<Rightarrow> site_allocs sites b = Inl p
    | Inr (r, pc, b') \<Rightarrow> (\<exists>n. site_allocs (take n sites) b = Inr b' \<and>
        (r = None \<longrightarrow> n = length sites \<and> created pc))"
    and next_poll: "created pc \<Longrightarrow> \<exists>r pc'. poll pc b ob = Inr (r, pc', b) \<and> created pc'"
    and poll_ends: "poll pc b ob = Inr (Some r, pc', b') \<Longrightarrow> pc = start \<or> created pc \<Longrightarrow> r \<in> ends ob"
begin

lemma first_poll_pending: "poll start b ob = Inr (None, pc, b') \<Longrightarrow> site_allocs sites b = Inr b' \<and> created pc"
  using first_poll [of b ob] by auto

lemma first_poll_memory:
  "(poll start b ob = Inl p \<longrightarrow> site_allocs sites b = Inl p) \<and>
   (poll start b ob = Inr (r, pc, b') \<longrightarrow> (\<exists>n. site_allocs (take n sites) b = Inr b' \<and> (r = None \<longrightarrow> n = length sites)))"
  using first_poll [of b ob] by auto

end

text \<open>One that makes all of them even when it ends in that poll.\<close>

locale eager_site_future = site_future +
  assumes eager: "poll start b ob = Inr (r, pc, b') \<Longrightarrow> site_allocs sites b = Inr b' \<and> created pc"

lemma site_allocs_app: "site_allocs (Ts @ Us) b = and_then (site_allocs Ts b) (\<lambda>b. site_allocs Us b)"
  by (rule site_allocs_append)

lemma take_slots_len: "take_slots reserve Ts b = Inr (ps, b') \<Longrightarrow> length ps = length Ts"
  by (induction Ts arbitrary: b ps) (auto simp: and_then_Inr_iff)

lemma one_responder_first:
  "one_responder_poll sel q T One_Start b handle =
     and_then (take_slots reserve (replicate q T) b) (\<lambda>(ps, b).
     Inr (sel (map handle [0..<q]), One_Handlers (map fst ps), b))"
proof (cases "take_slots reserve (replicate q T) b")
  case (Inl p)
  then show ?thesis by (simp add: one_responder_poll_def run_one_responder_slots)
next
  case (Inr x)
  then obtain ps b' where x: "take_slots reserve (replicate q T) b = Inr (ps, b')" by (cases x) simp
  from take_slots_len [OF x] x show ?thesis
    by (simp add: one_responder_poll_def run_one_responder_slots)
qed

fun one_created :: "nat \<Rightarrow> one_pc \<Rightarrow> bool" where
  "one_created q One_Start = False"
| "one_created q (One_Handlers hs) = (length hs = q)"

lemma one_responder_next:
  "one_created q pc \<Longrightarrow> one_responder_poll sel q T pc b handle = Inr (sel (map handle [0..<q]), pc, b)"
  by (cases pc) (simp_all add: one_responder_poll_def)

definition ready_in :: "nat \<Rightarrow> (nat \<Rightarrow> unit res option) \<Rightarrow> unit res set" where
  "ready_in q handle = {r. \<exists>id < q. handle id = Some r}"

lemma select_ready: "select_contract sel \<Longrightarrow> sel (map handle [0..<q]) = Some r \<Longrightarrow> r \<in> ready_in q handle"
  by (drule (1) select_contract_Some) (auto simp: ready_in_def intro: sym)

lemma one_site_future:
  assumes "select_contract sel"
  shows "eager_site_future (one_responder_poll sel q T) One_Start (one_created q) (replicate q T) (ready_in q)"
proof
  fix b handle pc r pc' b'
  show "case one_responder_poll sel q T One_Start b handle of
      Inl p \<Rightarrow> site_allocs (replicate q T) b = Inl p
    | Inr (r, pc, b') \<Rightarrow> (\<exists>n. site_allocs (take n (replicate q T)) b = Inr b' \<and>
        (r = None \<longrightarrow> n = length (replicate q T) \<and> one_created q pc))"
  proof (cases "take_slots reserve (replicate q T) b")
    case (Inl p)
    then show ?thesis by (simp add: one_responder_first site_allocs_def)
  next
    case (Inr x)
    then obtain ps b' where x: "take_slots reserve (replicate q T) b = Inr (ps, b')" by (cases x) simp
    then show ?thesis
      using take_slots_len [OF x] by (auto simp: one_responder_first site_allocs_def intro: exI [of _ q])
  qed
  show "one_created q pc \<Longrightarrow> \<exists>r pc'. one_responder_poll sel q T pc b handle = Inr (r, pc', b) \<and> one_created q pc'"
    by (simp add: one_responder_next)
  assume p: "one_responder_poll sel q T pc b handle = Inr (Some r, pc', b')"
    and "pc = One_Start \<or> one_created q pc"
  then consider "pc = One_Start" | "one_created q pc" by blast
  then show "r \<in> ready_in q handle"
  proof cases
    case 1
    with p show ?thesis
      by (auto simp: one_responder_first and_then_Inr_iff intro: select_ready [OF assms])
  next
    case 2
    with p show ?thesis by (auto simp: one_responder_next intro: select_ready [OF assms])
  qed
next
  fix b handle r pc b'
  assume "one_responder_poll sel q T One_Start b handle = Inr (r, pc, b')"
  then show "site_allocs (replicate q T) b = Inr b' \<and> one_created q pc"
    by (auto simp: one_responder_first site_allocs_def and_then_Inr_iff dest: take_slots_len)
qed

interpretation one_future: eager_site_future "one_responder_poll select_first q T" One_Start "one_created q"
    "replicate q T" "ready_in q"
  for q T
  by (rule one_site_future [OF select_contract_first])

text \<open>
  Two such futures in a \<open>select\<close>: the sites of the first come before those of the second.
\<close>

lemma select_two_future:
  assumes sel: "select_contract sel"
    and a: "eager_site_future poll_a start_a created_a sites_a ends_a"
    and c: "site_future poll_c start_c created_c sites_c ends_c"
  shows "site_future (select_two sel polled poll_a poll_c) (start_a, start_c)
    (\<lambda>(x, y). created_a x \<and> created_c y) (sites_a @ sites_c) (\<lambda>ob. ends_a ob \<union> ends_c ob)"
proof
  fix b ob r pcs pcs' b'
  let ?poll = "select_two sel polled poll_a poll_c"
  note a' = eager_site_future.axioms(1) [OF a]
  have some: "Some r \<in> {x, y}" if "sel [x, y] = Some r" for x y r
    using select_contract_Some [OF sel that] by simp
  have pend: "sel [x, y] = None \<Longrightarrow> x = None \<and> y = None" for x y
    using select2_None [OF sel] by simp
  show "case ?poll (start_a, start_c) b ob of
      Inl p \<Rightarrow> site_allocs (sites_a @ sites_c) b = Inl p
    | Inr (r, pc, b') \<Rightarrow> (\<exists>n. site_allocs (take n (sites_a @ sites_c)) b = Inr b' \<and>
        (r = None \<longrightarrow> n = length (sites_a @ sites_c) \<and> (case pc of (x, y) \<Rightarrow> created_a x \<and> created_c y)))"
  proof (cases "poll_a start_a b ob")
    case (Inl p)
    with site_future.first_poll [OF a', of b ob] show ?thesis
      by (simp add: select_two_def site_allocs_append)
  next
    case (Inr x)
    then obtain ra xa b1 where x: "poll_a start_a b ob = Inr (ra, xa, b1)" by (cases x) auto
    from eager_site_future.eager [OF a x] have b1: "site_allocs sites_a b = Inr b1" "created_a xa" by simp_all
    show ?thesis
    proof (cases "if polled ob then None else sel [ra, None]")
      case (Some r)
      with x b1 show ?thesis
        by (auto simp: select_two_def intro!: exI [of _ "length sites_a"])
    next
      case None
      with x have poll: "?poll (start_a, start_c) b ob =
          and_then (poll_c start_c b1 ob) (\<lambda>(r', c, b). Inr (sel [ra, r'], (xa, c), b))"
        by (simp add: select_two_def)
      show ?thesis
      proof (cases "poll_c start_c b1 ob")
        case (Inl p)
        with site_future.first_poll [OF c, of b1 ob] poll b1 show ?thesis
          by (simp add: site_allocs_append)
      next
        case (Inr z)
        then obtain rc xc b2 where z: "poll_c start_c b1 ob = Inr (rc, xc, b2)" by (cases z) auto
        with site_future.first_poll [OF c, of b1 ob] obtain n where
          n: "site_allocs (take n sites_c) b1 = Inr b2" "rc = None \<longrightarrow> n = length sites_c \<and> created_c xc" by auto
        have "site_allocs (take (length sites_a + n) (sites_a @ sites_c)) b = Inr b2"
          using b1 n(1) by (simp add: site_allocs_append)
        moreover have "sel [ra, rc] = None \<longrightarrow> length sites_a + n = length (sites_a @ sites_c) \<and> created_c xc"
          using pend [of ra rc] n(2) by simp
        moreover have "?poll (start_a, start_c) b ob = Inr (sel [ra, rc], (xa, xc), b2)"
          by (simp add: poll z)
        ultimately show ?thesis using b1(2)
          by (simp del: take_append length_append) (intro exI [of _ "length sites_a + n"] conjI impI; simp)
      qed
    qed
  qed
  show "\<exists>r pc'. ?poll pcs b ob = Inr (r, pc', b) \<and> (case pc' of (x, y) \<Rightarrow> created_a x \<and> created_c y)"
    if cr: "case pcs of (x, y) \<Rightarrow> created_a x \<and> created_c y"
  proof -
    from cr site_future.next_poll [OF a', of "fst pcs" b ob] obtain ra xa
      where x: "poll_a (fst pcs) b ob = Inr (ra, xa, b)" "created_a xa" by (auto split: prod.splits)
    from cr site_future.next_poll [OF c, of "snd pcs" b ob] obtain rc xc
      where z: "poll_c (snd pcs) b ob = Inr (rc, xc, b)" "created_c xc" by (auto split: prod.splits)
    from x z cr show ?thesis by (auto simp: select_two_def split: option.split)
  qed
  show "r \<in> ends_a ob \<union> ends_c ob"
    if p: "?poll pcs b ob = Inr (Some r, pcs', b')" 
      and cr: "pcs = (start_a, start_c) \<or> (case pcs of (x, y) \<Rightarrow> created_a x \<and> created_c y)" for r
  proof -
    from p obtain ra xa b1 where x: "poll_a (fst pcs) b ob = Inr (ra, xa, b1)"
      by (auto simp: select_two_def and_then_Inr_iff split: prod.splits)
    have ea: "\<And>q. ra = Some q \<Longrightarrow> q \<in> ends_a ob"
      using site_future.poll_ends [OF a', of "fst pcs" b ob] x cr by (auto split: prod.splits)
    show ?thesis
    proof (cases "if polled ob then None else sel [ra, None]")
      case (Some q)
      with x p have "q = r" by (simp add: select_two_def)
      with Some some ea show ?thesis by (fastforce split: if_splits)
    next
      case None
      with x p obtain rc xc b2 where z: "poll_c (snd pcs) b1 ob = Inr (rc, xc, b2)" and q: "sel [ra, rc] = Some r"
        by (auto simp: select_two_def and_then_Inr_iff split: prod.splits)
      have ec: "\<And>q. rc = Some q \<Longrightarrow> q \<in> ends_c ob"
        using site_future.poll_ends [OF c, of "snd pcs" b1 ob] z cr by (auto split: prod.splits)
      from some [OF q] ea ec show ?thesis by auto
    qed
  qed
qed

lemma both_responders_future:
  assumes "select_contract sel"
  shows "site_future (both_responders_poll sel ly F) (One_Start, One_Start)
    (\<lambda>(x, y). one_created (max_responders F) x \<and> one_created max_busy_responders y)
    (replicate (max_responders F) (ly_handler ly) @ replicate max_busy_responders (ly_busy_handler ly))
    (\<lambda>ob. ready_in (max_responders F) (ro_actual ob) \<union> ready_in max_busy_responders (ro_busy ob))"
proof -
  have "eager_site_future (\<lambda>pc b ob. one_responder_poll sel q T pc b (handle ob)) One_Start (one_created q)
      (replicate q T) (\<lambda>ob. ready_in q (handle ob))"
    for q T and handle :: "resp_obs \<Rightarrow> nat \<Rightarrow> unit res option"
  proof -
    note e = one_site_future [OF assms, of q T]
    note f = eager_site_future.axioms(1) [OF e]
    show ?thesis
      by unfold_locales (rule site_future.first_poll [OF f] site_future.next_poll [OF f]
        site_future.poll_ends [OF f] eager_site_future.eager [OF e]; assumption)+
  qed
  from select_two_future [OF assms this eager_site_future.axioms(1) [OF this]] show ?thesis
    unfolding both_responders_poll_def .
qed

fun resp_created :: "string set \<Rightarrow> resp_pc \<Rightarrow> bool" where
  "resp_created F Resp_Start = False"
| "resp_created F (Resp_Running (actual, busy)) =
     (one_created (max_responders F) actual \<and> one_created max_busy_responders busy)"

definition resp_ends :: "string set \<Rightarrow> resp_obs \<Rightarrow> unit res set" where
  "resp_ends F ob = ready_in (max_responders F) (ro_actual ob) \<union> ready_in max_busy_responders (ro_busy ob)"

definition resp_sites :: "layouts \<Rightarrow> string set \<Rightarrow> layout list" where
  "resp_sites ly F =
     [ly_actual ly, ly_busy ly] @ replicate (max_responders F) (ly_handler ly) @
     replicate max_busy_responders (ly_busy_handler ly)"

lemma im_sites_resp: "im_sites ly F = [ly_responder ly] @ resp_sites ly F"
  by (simp add: im_sites_def resp_sites_def)

lemma responder_start:
  "responder_poll sel ly F Resp_Start b ob =
     and_then (site_allocs [ly_actual ly, ly_busy ly] b) (\<lambda>b.
     and_then (both_responders_poll sel ly F (One_Start, One_Start) b ob) (\<lambda>(r, pcs, b).
     Inr (r, Resp_Running pcs, b)))"
  by (simp add: responder_poll_def site_allocs_def and_then_assoc and_then_case_prod)

lemma responder_future:
  assumes "select_contract sel"
  shows "site_future (responder_poll sel ly F) Resp_Start (resp_created F) (resp_sites ly F) (resp_ends F)"
proof
  fix b ob pc r pc' b'
  note both = both_responders_future [OF assms, of ly F]
  let ?two = "[ly_actual ly, ly_busy ly]"
  let ?rest = "replicate (max_responders F) (ly_handler ly) @ replicate max_busy_responders (ly_busy_handler ly)"
  show "case responder_poll sel ly F Resp_Start b ob of
      Inl p \<Rightarrow> site_allocs (resp_sites ly F) b = Inl p
    | Inr (r, pc, b') \<Rightarrow> (\<exists>n. site_allocs (take n (resp_sites ly F)) b = Inr b' \<and>
        (r = None \<longrightarrow> n = length (resp_sites ly F) \<and> resp_created F pc))"
  proof (cases "site_allocs ?two b")
    case (Inl p)
    then show ?thesis unfolding resp_sites_def site_allocs_append by (simp add: responder_start)
  next
    case (Inr b1)
    show ?thesis
    proof (cases "both_responders_poll sel ly F (One_Start, One_Start) b1 ob")
      case (Inl p)
      with site_future.first_poll [OF both, of b1 ob] Inr show ?thesis
        unfolding resp_sites_def site_allocs_append by (simp add: responder_start)
    next
      case (Inr x)
      then obtain q pcs b2 where x: "both_responders_poll sel ly F (One_Start, One_Start) b1 ob = Inr (q, pcs, b2)"
        by (cases x) auto
      from site_future.first_poll [OF both, of b1 ob] x obtain n where n: "site_allocs (take n ?rest) b1 = Inr b2"
        "q = None \<longrightarrow> n = length ?rest \<and> resp_created F (Resp_Running pcs)" by (auto split: prod.splits)
      have "take (2 + n) (?two @ ?rest) = ?two @ take n ?rest" by (simp add: numeral_2_eq_2)
      then have "site_allocs (take (2 + n) (resp_sites ly F)) b = Inr b2"
        using n(1) \<open>site_allocs ?two b = Inr b1\<close> by (simp only: resp_sites_def append_assoc site_allocs_append and_then_simps)
      moreover have "q = None \<longrightarrow> 2 + n = length (resp_sites ly F)"
        using n(2) by (simp add: resp_sites_def)
      moreover have "responder_poll sel ly F Resp_Start b ob = Inr (q, Resp_Running pcs, b2)"
        using \<open>site_allocs ?two b = Inr b1\<close> x by (simp add: responder_start)
      ultimately show ?thesis using n(2)
        by simp (intro exI [of _ "2 + n"] conjI impI; simp)
    qed
  qed
  show "resp_created F pc \<Longrightarrow> \<exists>r pc'. responder_poll sel ly F pc b ob = Inr (r, pc', b) \<and> resp_created F pc'"
  proof (cases pc)
    case (Resp_Running pcs)
    moreover assume "resp_created F pc"
    ultimately obtain q pcs' where "both_responders_poll sel ly F pcs b ob = Inr (q, pcs', b)"
      and "resp_created F (Resp_Running pcs')"
      using site_future.next_poll [OF both, of pcs b ob] by (cases pcs) auto
    with Resp_Running show ?thesis by (simp add: responder_poll_def)
  qed simp
  show "r \<in> resp_ends F ob"
    if p: "responder_poll sel ly F pc b ob = Inr (Some r, pc', b')" and cr: "pc = Resp_Start \<or> resp_created F pc" for r
  proof (cases pc)
    case Resp_Start
    with p obtain b1 pcs where "both_responders_poll sel ly F (One_Start, One_Start) b1 ob = Inr (Some r, pcs, b')"
      by (auto simp: responder_start and_then_Inr_iff)
    from site_future.poll_ends [OF both this] show ?thesis by (simp add: resp_ends_def)
  next
    case (Resp_Running pcs)
    with p obtain pcs' where q: "both_responders_poll sel ly F pcs b ob = Inr (Some r, pcs', b')"
      by (auto simp: responder_poll_def and_then_Inr_iff)
    from site_future.poll_ends [OF both q] cr Resp_Running show ?thesis
      by (cases pcs) (simp add: resp_ends_def)
  qed
qed

interpretation responder: site_future "responder_poll select_first ly F" Resp_Start "resp_created F"
    "resp_sites ly F" "resp_ends F"
  for ly F
  by (rule responder_future [OF select_contract_first])

section \<open>Refinement\<close>

text \<open>The evaluation as the stack model has it: the responder an observation, with its sites.\<close>

fun im_pc_of :: "im_live_pc \<Rightarrow> im_pc" where
  "im_pc_of Live_Start = Im_Start"
| "im_pc_of Live_Startup = Im_Startup"
| "im_pc_of (Live_Running _) = Im_Running"

definition stack_ob ::
    "('q, 'st) stack_obs \<Rightarrow> im_live_obs \<Rightarrow> unit res option \<Rightarrow> nat \<Rightarrow> ('q, 'st) stack_obs" where
  "stack_ob so ob x n =
     so\<lparr>so_obs := (so_obs so)\<lparr>ob_im :=
            \<lparr>io_startup = il_startup ob, io_responder = x, io_run = il_run ob\<rparr>\<rparr>, so_sites := n\<rparr>"

definition live_ok :: "string set \<Rightarrow> im_live_pc \<Rightarrow> bool" where
  "live_ok F pc \<longleftrightarrow> (case pc of Live_Running rp \<Rightarrow> resp_created F rp | _ \<Rightarrow> True)"

definition reached :: "layouts \<Rightarrow> string set \<Rightarrow> unit res option \<Rightarrow> nat \<Rightarrow> layout list" where
  "reached ly F x n = (case x of None \<Rightarrow> im_sites ly F | Some _ \<Rightarrow> take n (im_sites ly F))"

lemma live_start_sites:
  assumes sel: "select_contract sel" and run: "poll_live_start ly F sel s ob = (r, pc', s')"
  shows "\<exists>x n rp. pc' = Live_Running rp \<and> (\<forall>v. x = Some v \<longrightarrow> v \<in> resp_ends F (il_resp ob)) \<and>
    (case stack_alloc (reached ly F x n) s of
       Inl p \<Rightarrow> r = Inl p \<and> s' = s
     | Inr t \<Rightarrow> r = Inr (sel [x, il_run ob]) \<and> s' = t \<and> (x = None \<longrightarrow> resp_created F rp))"
proof (cases "site_allocs [ly_responder ly] (ms_bump s)")
  case (Inl p)
  then have "stack_alloc (reached ly F None 0) s = Inl p" and "stack_alloc [ly_responder ly] s = Inl p"
    by (simp_all only: reached_def option.case stack_alloc_def im_sites_resp site_allocs_append)
      simp_all
  with run show ?thesis
    by (intro exI [of _ None] exI [of _ 0] exI [of _ Resp_Start]) (auto simp: poll_live_start_def)
next
  case (Inr b1)
  let ?s = "s\<lparr>ms_bump := b1\<rparr>"
  note fut = responder_future [OF sel, of ly F]
  have a: "stack_alloc [ly_responder ly] s = Inr ?s" using Inr by (simp add: stack_alloc_def)
  show ?thesis
  proof (cases "responder_poll sel ly F Resp_Start b1 (il_resp ob)")
    case (Inl p)
    with site_future.first_poll [OF fut, of b1 "il_resp ob"] \<open>site_allocs _ _ = Inr b1\<close>
    have "site_allocs (im_sites ly F) (ms_bump s) = Inl p"
      by (simp only: im_sites_resp site_allocs_append and_then_simps) simp
    with run a Inl show ?thesis
      by (intro exI [of _ None] exI [of _ 0] exI [of _ Resp_Start])
        (auto simp: poll_live_start_def poll_live_running_def reached_def stack_alloc_def)
  next
    case (Inr y)
    then obtain x rp b2 where y: "responder_poll sel ly F Resp_Start b1 (il_resp ob) = Inr (x, rp, b2)"
      by (cases y) auto
    with site_future.first_poll [OF fut, of b1 "il_resp ob"] obtain n where
      n: "site_allocs (take n (resp_sites ly F)) b1 = Inr b2"
        "x = None \<longrightarrow> n = length (resp_sites ly F) \<and> resp_created F rp" by auto
    have "reached ly F x (Suc n) = [ly_responder ly] @ take n (resp_sites ly F)"
      using n(2) by (auto simp: reached_def im_sites_resp split: option.split)
    then have "site_allocs (reached ly F x (Suc n)) (ms_bump s) = Inr b2"
      using \<open>site_allocs _ _ = Inr b1\<close> n(1) by (simp only: site_allocs_append and_then_simps)
    moreover have "\<forall>v. x = Some v \<longrightarrow> v \<in> resp_ends F (il_resp ob)"
      using site_future.poll_ends [OF fut] y by blast
    ultimately show ?thesis using run a y n(2)
      by (intro exI [of _ x] exI [of _ "Suc n"] exI [of _ rp])
        (auto simp: poll_live_start_def poll_live_running_def stack_alloc_def)
  qed
qed

lemma reached_sites: "sites_reached ly F (stack_ob so ob x n) = reached ly F x n"
  by (cases x) (simp_all add: sites_reached_def stack_ob_def reached_def)

lemma live_start_refines:
  assumes "select_contract sel" and "poll_live_start ly F sel s ob = (r, pc', s')"
  shows "\<exists>x n. (\<forall>v. x = Some v \<longrightarrow> v \<in> resp_ends F (il_resp ob)) \<and> im_pc_of pc' = Im_Running \<and>
    (case stack_alloc (sites_reached ly F (stack_ob so ob x n)) s of
       Inl p \<Rightarrow> r = Inl p \<and> s' = s
     | Inr t \<Rightarrow> r = Inr (sel [x, il_run ob]) \<and> s' = t) \<and> (r = Inr None \<longrightarrow> live_ok F pc')"
proof -
  from live_start_sites [OF assms] obtain x n rp where pc: "pc' = Live_Running rp"
    and e: "\<forall>v. x = Some v \<longrightarrow> v \<in> resp_ends F (il_resp ob)"
    and a: "case stack_alloc (reached ly F x n) s of
       Inl p \<Rightarrow> r = Inl p \<and> s' = s
     | Inr t \<Rightarrow> r = Inr (sel [x, il_run ob]) \<and> s' = t \<and> (x = None \<longrightarrow> resp_created F rp)" by blast
  have "r = Inr None \<longrightarrow> live_ok F pc'"
    using a select2_None [OF assms(1), of x "il_run ob"] by (auto simp: pc live_ok_def split: sum.splits)
  with e a pc show ?thesis
    by (intro exI [of _ x] exI [of _ n]) (auto simp: reached_sites split: sum.splits)
qed

lemma live_started:
  assumes "select_contract sel" and "poll_live_start ly F sel (s\<lparr>ms_hydration := h\<rparr>) ob = (r, pc', s')"
    and "im \<noteq> Im_Running"
    and im: "\<And>x n. run_im sel im (ms_hydration s) (ob_im (so_obs (stack_ob so ob x n))) = (sel [x, il_run ob], Im_Running, h)"
  shows "\<exists>x n. (\<forall>v. x = Some v \<longrightarrow> v \<in> resp_ends F (il_resp ob)) \<and>
    run_im_with_bump ly F sel im s (stack_ob so ob x n) = (r, im_pc_of pc', s') \<and> (r = Inr None \<longrightarrow> live_ok F pc')"
proof -
  from live_start_refines [OF assms(1,2), of so] obtain x n where
    e: "\<forall>v. x = Some v \<longrightarrow> v \<in> resp_ends F (il_resp ob)" "im_pc_of pc' = Im_Running" "r = Inr None \<longrightarrow> live_ok F pc'"
    and a: "case stack_alloc (sites_reached ly F (stack_ob so ob x n)) (s\<lparr>ms_hydration := h\<rparr>) of
       Inl p \<Rightarrow> r = Inl p \<and> s' = s\<lparr>ms_hydration := h\<rparr>
     | Inr t \<Rightarrow> r = Inr (sel [x, il_run ob]) \<and> s' = t" by blast
  have "run_im_with_bump ly F sel im s (stack_ob so ob x n) = (r, im_pc_of pc', s')"
    using a e(2) assms(3) by (simp add: run_im_with_bump_def im split: sum.splits)
  with e show ?thesis by blast
qed

lemma live_startup_refines:
  assumes "select_contract sel" and "poll_live_startup ly F sel (s\<lparr>ms_hydration := h\<rparr>) ob = (r, pc', s')"
    and "im \<noteq> Im_Running" and im: "\<And>ob. run_im sel im (ms_hydration s) ob = poll_im_startup sel h ob"
  shows "\<exists>x n. (\<forall>v. x = Some v \<longrightarrow> v \<in> resp_ends F (il_resp ob)) \<and>
    run_im_with_bump ly F sel im s (stack_ob so ob x n) = (r, im_pc_of pc', s') \<and> (r = Inr None \<longrightarrow> live_ok F pc')"
proof (cases "\<exists>u. il_startup ob = Some (Inr u)")
  case True
  with assms(2) have "poll_live_start ly F sel (s\<lparr>ms_hydration := h\<rparr>) ob = (r, pc', s')"
    by (auto simp: poll_live_startup_def)
  from live_started [OF assms(1) this assms(3), of so] True show ?thesis
    by (auto simp: im poll_im_startup_def poll_im_running_def stack_ob_def)
next
  case False
  then have "im_pc_of pc' = Im_Startup \<and> s' = s\<lparr>ms_hydration := h\<rparr> \<and> live_ok F pc' \<and>
      r = Inr (case il_startup ob of Some (Inl e) \<Rightarrow> Some (Inl e) | _ \<Rightarrow> None)"
    using assms(2) by (auto simp: poll_live_startup_def live_ok_def split: option.splits sum.splits)
  with False show ?thesis
    by (intro exI [of _ None] exI [of _ 0])
      (auto simp: run_im_with_bump_def im poll_im_startup_def stack_ob_def split: option.splits sum.splits)
qed

text \<open>
  C11. Poll by poll, the interaction model with the two responders of the code and their handlers
  is the one of the stack model, with its memory: in the poll that starts them the responders
  allocate their own futures and then one future for each of their handlers, in that order - all of
  them unless they end in that poll - and never again; and they end only with the result of a
  handler, of one of the numbers below the build-time sizes.
\<close>

theorem responder_refines:
  assumes "select_contract sel" and "live_ok F pc" and "run_im_live ly F sel pc s ob = (r, pc', s')"
  shows "\<exists>x n. (\<forall>v. x = Some v \<longrightarrow> v \<in> resp_ends F (il_resp ob)) \<and>
    run_im_with_bump ly F sel (im_pc_of pc) s (stack_ob so ob x n) = (r, im_pc_of pc', s') \<and>
    (r = Inr None \<longrightarrow> live_ok F pc')"
proof (cases pc)
  case Live_Start
  obtain invoke h where h: "startup_im (ms_hydration s) = (invoke, h)" by fastforce
  show ?thesis
  proof (cases invoke)
    case True
    with assms(3) Live_Start h have "poll_live_startup ly F sel (s\<lparr>ms_hydration := h\<rparr>) ob = (r, pc', s')"
      by (simp add: run_im_live_def)
    from live_startup_refines [OF assms(1) this, of Im_Start so] h True Live_Start show ?thesis by simp
  next
    case False
    with assms(3) Live_Start h have "poll_live_start ly F sel (s\<lparr>ms_hydration := h\<rparr>) ob = (r, pc', s')"
      by (simp add: run_im_live_def)
    from live_started [OF assms(1) this, of Im_Start so] h False Live_Start show ?thesis
      by (simp add: poll_im_running_def stack_ob_def)
  qed
next
  case Live_Startup
  with assms(3) have "poll_live_startup ly F sel (s\<lparr>ms_hydration := ms_hydration s\<rparr>) ob = (r, pc', s')"
    by (simp add: run_im_live_def)
  from live_startup_refines [OF assms(1) this, of Im_Startup so] Live_Startup show ?thesis by simp
next
  case (Live_Running rp)
  with assms(2) have "resp_created F rp" by (simp add: live_ok_def)
  from site_future.next_poll [OF responder_future [OF assms(1)] this] obtain x rp' where
    x: "responder_poll sel ly F rp (ms_bump s) (il_resp ob) = Inr (x, rp', ms_bump s)" "resp_created F rp'"
    by blast
  have "\<forall>v. x = Some v \<longrightarrow> v \<in> resp_ends F (il_resp ob)"
    using site_future.poll_ends [OF responder_future [OF assms(1)]] x(1) \<open>resp_created F rp\<close> by blast
  moreover have "r = Inr (sel [x, il_run ob])" "pc' = Live_Running rp'" "s' = s"
    using assms(3) Live_Running x(1) by (auto simp: run_im_live_def poll_live_running_def)
  ultimately show ?thesis
    using Live_Running x(2)
    by (intro exI [of _ x] exI [of _ 0])
      (simp add: run_im_with_bump_def stack_ob_def poll_im_running_def live_ok_def)
qed

definition quiet_im :: im_live_obs where
  "quiet_im =
     \<lparr>il_startup = Some (Inr ()),
      il_resp = \<lparr>ro_actual = (\<lambda>_. None), ro_busy = (\<lambda>_. None), ro_busy_polled = True\<rparr>, il_run = None\<rparr>"

theorem responder_refines_witness:
  "\<exists>pc' s'. run_im_live byte_layouts {} select_first Live_Start (unit_stack 20) quiet_im = (Inr None, pc', s') \<and>
     live_ok {} pc' \<and> b_offset (ms_bump s') = length (im_sites byte_layouts {})"
proof -
  let ?s = "unit_stack 20"
  obtain r pc' s' where run: "run_im_live byte_layouts {} select_first Live_Start ?s quiet_im = (r, pc', s')"
    by (rule prod_cases3)
  have "live_ok {} Live_Start" by (simp add: live_ok_def)
  from responder_refines [OF select_contract_first this run, of "saw (quiet Closed)"] obtain x n where
    x: "\<forall>v. x = Some v \<longrightarrow> v \<in> resp_ends {} (il_resp quiet_im)"
    and im: "run_im_with_bump byte_layouts {} select_first Im_Start ?s (stack_ob (saw (quiet Closed)) quiet_im x n) =
      (r, im_pc_of pc', s')" and ok: "r = Inr None \<longrightarrow> live_ok {} pc'" by auto
  from x have "x = None" by (cases x) (auto simp: resp_ends_def ready_in_def quiet_im_def)
  have r: "stack_ready ?s" by (rule unit_stack_ready) simp
  have "set (im_sites byte_layouts {}) \<subseteq> {byte_layout}" and l: "length (im_sites byte_layouts {}) = 9"
    by (auto simp: im_sites_def byte_layouts_def max_busy_responders_def default_responders)
  then have need: "total_need (im_sites byte_layouts {}) a = 9" for a
    using total_need_bytes [of "im_sites byte_layouts {}" a] by simp
  let ?t = "?s\<lparr>ms_hydration := snd (startup_im hydration_new), ms_bump := (ms_bump ?s)\<lparr>b_offset := 9\<rparr>\<rparr>"
  have b: "bump_ok (ms_bump ?s)" "b_offset (ms_bump ?s) = 0" "b_size (ms_bump ?s) = 20"
    using r by (simp_all add: stack_ready_def unit_stack_def bump_new_def)
  have "stack_alloc (im_sites byte_layouts {}) (?s\<lparr>ms_hydration := snd (startup_im hydration_new)\<rparr>) = Inr ?t"
    using b by (simp add: stack_alloc_fits need)
  moreover have "ms_hydration ?s = hydration_new" by (simp add: unit_stack_def)
  moreover have "sites_reached byte_layouts {} (stack_ob (saw (quiet Closed)) quiet_im None n) = im_sites byte_layouts {}"
    by (simp add: reached_sites reached_def)
  moreover have "select_first [None, None :: unit res option] = None" by (simp add: select_first_def)
  ultimately have "r = Inr None" "s' = ?t"
    using im \<open>x = None\<close>
    by (auto simp: run_im_with_bump_def Let_def startup_im_def hydration_new_def poll_im_startup_def
        poll_im_running_def stack_ob_def quiet_im_def)
  with run ok l show ?thesis by simp
qed

end
