(* ===== verification/Netif_Notify.thy ===== *)
theory Netif_Notify
  imports Netif_Task
begin

text \<open>
  \<open>wait_changed\<close> of \<^verbatim>\<open>src/src/lib.rs\<close> against a driver whose interfaces change, and whose notices are
  given, at any moment: the state is loaded first and the driver's notice awaited after that, so
  that what happens in between matters. The driver is code of the user. Its notices may be latched -
  one that finds nobody waiting completes the next wait - or reach only those who wait already;
  with the first kind no change is overlooked, with the second one can be.
\<close>

section \<open>The driver\<close>

text \<open>
  A change is written first and notified after that; \<open>ic_consumed\<close> is the number of notices when a
  wait was completed last.
\<close>

record netif_chan =
  ic_netifs :: snapshot
  ic_notices :: nat
  ic_pending :: bool
  ic_consumed :: nat

datatype changed_wait =
    W_Load
  | W_Subscribe
  | W_Wait nat
  | W_Done "unit res"

section \<open>The waiter\<close>

text \<open>
  Its own steps: load and compare, start to wait, be woken. A wait for a latched notice completes
  when there has been one since the last that completed; one for a notice that is not latched, when
  there has been one since it started. \<open>None\<close>: asleep, or done.
\<close>

fun changed_step ::
    "bool \<Rightarrow> netif_state \<Rightarrow> netif_chan \<times> netif_state \<times> changed_wait \<Rightarrow>
     (netif_chan \<times> netif_state \<times> changed_wait) option" where
  "changed_step latched cur_state (ch, new_state, W_Load) =
     (case load_netif_state (ic_netifs ch) new_state of
        (Inl e, st) \<Rightarrow> Some (ch, st, W_Done (Inl e))
      | (Inr _, st) \<Rightarrow> Some (ch, st, if st \<noteq> cur_state then W_Done (Inr ()) else W_Subscribe))"
| "changed_step latched cur_state (ch, new_state, W_Subscribe) =
     Some (ch, new_state, W_Wait (if latched then ic_consumed ch else ic_notices ch))"
| "changed_step latched cur_state (ch, new_state, W_Wait v) =
     (if ic_notices ch \<noteq> v then Some (ch\<lparr>ic_consumed := ic_notices ch\<rparr>, new_state, W_Load) else None)"
| "changed_step latched cur_state (ch, new_state, W_Done r) = None"

fun changed_steps where
  "changed_steps 0 latched cur_state s = Some s"
| "changed_steps (Suc k) latched cur_state s =
     (case changed_step latched cur_state s of None \<Rightarrow> None | Some s \<Rightarrow> changed_steps k latched cur_state s)"

inductive changed_run ::
    "bool \<Rightarrow> netif_state \<Rightarrow> netif_chan \<times> netif_state \<times> changed_wait \<Rightarrow>
     netif_chan \<times> netif_state \<times> changed_wait \<Rightarrow> bool"
  for latched cur_state s0 where
  run_refl: "changed_run latched cur_state s0 s0"
| run_change: "changed_run latched cur_state s0 (ch, w) \<Longrightarrow>
    changed_run latched cur_state s0 (ch\<lparr>ic_netifs := snap, ic_pending := True\<rparr>, w)"
| run_notice: "changed_run latched cur_state s0 (ch, w) \<Longrightarrow>
    changed_run latched cur_state s0 (ch\<lparr>ic_notices := Suc (ic_notices ch), ic_pending := False\<rparr>, w)"
| run_waiter: "changed_run latched cur_state s0 s \<Longrightarrow> changed_step latched cur_state s = Some s' \<Longrightarrow>
    changed_run latched cur_state s0 s'"

section \<open>The waits as the loop over snapshots\<close>

text \<open>The waiter alone, over what it loads, is the loop over snapshots of the supervision.\<close>

lemma changed_load:
  "changed_step latched cur (ch, st, W_Load) = Some (ch, st', pc) \<Longrightarrow>
   (pc = W_Subscribe \<longrightarrow> st' = cur \<and> wait_changed cur st (ic_netifs ch # snaps) = wait_changed cur st' snaps) \<and>
   (\<forall>r. pc = W_Done r \<longrightarrow> wait_changed cur st (ic_netifs ch # snaps) = Some (r, st', snaps))"
  by (auto split: prod.splits sum.splits if_splits)

section \<open>Nothing is overlooked\<close>

definition seen :: "netif_state \<Rightarrow> netif_chan \<Rightarrow> netif_state \<Rightarrow> bool" where
  "seen cur ch st \<longleftrightarrow> load_netif_state (ic_netifs ch) st = (Inr (), cur)"

definition waits_ok :: "netif_state \<Rightarrow> netif_chan \<times> netif_state \<times> changed_wait \<Rightarrow> bool" where
  "waits_ok cur = (\<lambda>(ch, st, pc).
     ic_consumed ch \<le> ic_notices ch \<and>
     (case pc of
        W_Subscribe \<Rightarrow> seen cur ch st \<or> ic_pending ch \<or> ic_consumed ch < ic_notices ch
      | W_Wait v \<Rightarrow> v = ic_consumed ch \<and> (seen cur ch st \<or> ic_pending ch \<or> ic_consumed ch < ic_notices ch)
      | _ \<Rightarrow> True))"

lemma load_seen:
  assumes "load_netif_state (ic_netifs ch) st = (Inr (), cur)"
  shows "seen cur ch cur"
  using load_again [of "ic_netifs ch" st] assms by (simp add: seen_def)

lemma waits_ok_step:
  assumes "waits_ok cur s" and "changed_step True cur s = Some s'"
  shows "waits_ok cur s'"
proof -
  obtain ch st pc where s: "s = (ch, st, pc)" by (cases s) auto
  show ?thesis
  proof (cases pc)
    case W_Load
    obtain r st' where l: "load_netif_state (ic_netifs ch) st = (r, st')" by fastforce
    show ?thesis
    proof (cases "r = Inr () \<and> st' = cur")
      case True
      with l have "seen cur ch cur" by (intro load_seen) simp
      with assms s W_Load l True show ?thesis by (auto simp: waits_ok_def)
    next
      case False
      with assms s W_Load l show ?thesis by (auto simp: waits_ok_def split: sum.splits)
    qed
  qed (use assms s in \<open>auto simp: waits_ok_def split: if_splits\<close>)
qed

lemma changed_run_ok: "changed_run True cur s0 s \<Longrightarrow> waits_ok cur s0 \<Longrightarrow> waits_ok cur s"
proof (induction rule: changed_run.induct)
  case (run_change ch w snap)
  then show ?case by (cases w) (auto simp: waits_ok_def split: changed_wait.splits)
next
  case (run_notice ch w)
  then show ?case by (cases w) (auto simp: waits_ok_def split: changed_wait.splits)
qed (auto intro: waits_ok_step)

text \<open>
  C12. With a driver whose notices are latched, a change of the interface is never overlooked: once
  a change that matters to the state the iteration runs with has been written and its notice given -
  at whatever moment, between the load and the wait too - the waiter needs at most three steps of
  its own to end with the state loaded from it, or with the error of loading it.
\<close>

theorem change_is_noticed:
  assumes "ic_consumed ch0 \<le> ic_notices ch0" and "changed_run True cur (ch0, st0, W_Load) (ch, st, pc)"
    and "\<not> ic_pending ch" and "load_netif_state (ic_netifs ch) st \<noteq> (Inr (), cur)"
  shows "\<exists>k r ch' st'. k \<le> 3 \<and> changed_steps k True cur (ch, st, pc) = Some (ch', st', W_Done r) \<and>
    ((\<forall>q. pc \<noteq> W_Done q) \<longrightarrow> (r, st') = load_netif_state (ic_netifs ch) st)"
proof -
  have "waits_ok cur (ch0, st0, W_Load)" using assms(1) by (simp add: waits_ok_def)
  from changed_run_ok [OF assms(2) this] have ok: "waits_ok cur (ch, st, pc)" .
  obtain r st' where l: "load_netif_state (ic_netifs ch) st = (r, st')" by fastforce
  have one: "changed_step True cur (c, st, W_Load) = Some (c, st', W_Done r)" if "ic_netifs c = ic_netifs ch" for c
    using assms(4) l that by (cases r) auto
  show ?thesis
  proof (cases pc)
    case W_Load
    with one l show ?thesis by (intro exI [of _ 1] exI [of _ r] exI [of _ ch] exI [of _ st']) simp
  next
    case W_Subscribe
    with ok assms(3,4) have "ic_consumed ch < ic_notices ch" by (auto simp: waits_ok_def seen_def)
    with W_Subscribe one l show ?thesis
      by (intro exI [of _ 3] exI [of _ r] exI [of _ "ch\<lparr>ic_consumed := ic_notices ch\<rparr>"] exI [of _ st'])
        (simp add: eval_nat_numeral)
  next
    case (W_Wait v)
    with ok assms(3,4) have "ic_notices ch \<noteq> v" by (auto simp: waits_ok_def seen_def)
    with W_Wait one l show ?thesis
      by (intro exI [of _ 2] exI [of _ r] exI [of _ "ch\<lparr>ic_consumed := ic_notices ch\<rparr>"] exI [of _ st'])
        (simp add: eval_nat_numeral)
  next
    case (W_Done q)
    then show ?thesis by (intro exI [of _ 0]) simp
  qed
qed

section \<open>Notices that are not latched\<close>

definition sample_up :: snapshot where
  "sample_up =
     ([\<lparr>ni_name = ''wlan0'', ni_operational = True, ni_ipv4_addrs = [], ni_ipv6_addrs = [1],
       ni_hw_addr = [2, 0, 0, 0, 0, 0, 0, 1], ni_netif_index = 3\<rparr>], Inr ())"

definition sample_chan :: netif_chan where
  "sample_chan = \<lparr>ic_netifs = ([], Inr ()), ic_notices = 0, ic_pending = False, ic_consumed = 0\<rparr>"

text \<open>The interface comes up, with its notice, between the load and the wait.\<close>

definition chan_up :: netif_chan where
  "chan_up = sample_chan\<lparr>ic_netifs := sample_up, ic_notices := 1\<rparr>"

lemma sample_down: "load_netif_state ([], Inr ()) netif_state_new = (Inr (), netif_state_new)"
  by (simp add: load_netif_state_def netif_state_new_def)

lemma run_up:
  "changed_run latched netif_state_new (sample_chan, netif_state_new, W_Load) (chan_up, netif_state_new, W_Subscribe)"
proof -
  let ?run = "changed_run latched netif_state_new (sample_chan, netif_state_new, W_Load)"
  have "?run (sample_chan, netif_state_new, W_Load)" by (rule run_refl)
  then have "?run (sample_chan, netif_state_new, W_Subscribe)"
    by (rule run_waiter) (simp add: sample_down, simp add: sample_chan_def sample_down)
  from run_change [OF this, of sample_up]
  have "?run (sample_chan\<lparr>ic_netifs := sample_up, ic_pending := True\<rparr>, netif_state_new, W_Subscribe)" .
  from run_notice [OF this] show ?thesis by (simp add: chan_up_def sample_chan_def)
qed

text \<open>
  With a driver whose notices reach only those who wait already, a change can be overlooked:
  from a fresh start there is a run in which the interface comes up and its notice is given while
  the waiter is between its load and its wait, and which ends with the waiter asleep, nothing
  pending, and the state of the iteration still that of an interface that is down.
\<close>

theorem unlatched_change_overlooked:
  "\<exists>ch v. changed_run False netif_state_new (sample_chan, netif_state_new, W_Load) (ch, netif_state_new, W_Wait v) \<and>
     changed_step False netif_state_new (ch, netif_state_new, W_Wait v) = None \<and> \<not> ic_pending ch \<and>
     \<not> ns_operational netif_state_new \<and> ns_operational (snd (load_netif_state (ic_netifs ch) netif_state_new))"
proof -
  have "changed_run False netif_state_new (sample_chan, netif_state_new, W_Load) (chan_up, netif_state_new, W_Wait 1)"
    by (rule run_waiter [OF run_up]) (simp add: chan_up_def)
  then show ?thesis
    by (intro exI [of _ chan_up] exI [of _ 1])
      (simp add: chan_up_def sample_chan_def sample_up_def load_netif_state_def visit_netif_def netif_state_new_def)
qed

theorem change_is_noticed_witness:
  "\<exists>k r ch' st'. k \<le> 3 \<and> changed_steps k True netif_state_new (chan_up, netif_state_new, W_Subscribe) =
     Some (ch', st', W_Done r) \<and> (r, st') = load_netif_state sample_up netif_state_new"
proof -
  have "ic_consumed sample_chan \<le> ic_notices sample_chan" by (simp add: sample_chan_def)
  moreover have "\<not> ic_pending chan_up" by (simp add: chan_up_def sample_chan_def)
  moreover have "load_netif_state (ic_netifs chan_up) netif_state_new \<noteq> (Inr (), netif_state_new)"
    by (simp add: chan_up_def sample_chan_def sample_up_def load_netif_state_def visit_netif_def netif_state_new_def)
  ultimately show ?thesis
    using change_is_noticed [OF _ run_up] by (simp add: chan_up_def)
qed

end
