(* ===== verification/Light.thy ===== *)
theory Light
  imports Calls_Spec Drivers
begin

text \<open>
  The two examples, \<^verbatim>\<open>src/examples/light.rs\<close> (Wifi, with the radio shared) and
  \<^verbatim>\<open>src/examples/light_eth.rs\<close> (Ethernet): the data model of the light - its node and the chain of
  handlers behind it - and \<open>main\<close>, which makes a stack, starts it up and runs it. The handlers, the
  chaining of handlers, the descriptions of clusters and device types and the key-value store are
  code of \<^verbatim>\<open>rs-matter\<close> and parameters.
\<close>

section \<open>The node\<close>

record 'd endpoint =
  ep_id :: "16 word"
  ep_device_types :: "'d list"
  ep_clusters :: "32 word list"

datatype root_network = Root_Eth | Root_Wifi | Root_Thread



definition thread_root_endpoint :: "(root_network \<Rightarrow> 'd endpoint) \<Rightarrow> 'd endpoint" where
  "thread_root_endpoint root_endpoint = root_endpoint Root_Thread"






section \<open>The chain of handlers\<close>












section \<open>main\<close>

definition BUMP_SIZE_light :: nat where
  "BUMP_SIZE_light = 23500"

definition BUMP_SIZE_light_eth :: nat where
  "BUMP_SIZE_light_eth = 23500"

text \<open>
  The driver of the Wifi example: the network stack and the interfaces of the operating system, a
  controller that does nothing, the \<^verbatim>\<open>zeroconf\<close> responder and the default Bluetooth adapter.
\<close>

definition light_driver where
  "light_driver std_stack unix_netifs noop_ctl zeroconf =
     preexisting_wireless_new std_stack unix_netifs (noop_ctl Net_Wifi) zeroconf (bluer_new None)"

text \<open>
  \<open>'w\<close> is the \<open>Matter\<close> instance with the store. \<open>rand\<close> is the error of \<open>weak_rand\<close>; a call whose
  observations end before its result is one still under way when the program is stopped.
\<close>

definition light_main where
  "light_main init matter_port base dev rand m ly F env obs =
     (let stack = stack_init init matter_port base BUMP_SIZE_light dev
      in case rand of
           Some e \<Rightarrow> (Some (Inr (Inl e)), stack)
         | None \<Rightarrow>
             (case wireless_startup m (ms_matter stack) of
                (Inl p, w) \<Rightarrow> (Some (Inl p), stack\<lparr>ms_matter := w\<rparr>)
              | (Inr (Inl e), w) \<Rightarrow> (Some (Inr (Inl e)), stack\<lparr>ms_matter := w\<rparr>)
              | (Inr (Inr _), w) \<Rightarrow>
                  wifi_call preex_wireless ly F env (Call_Run_Coex obs) (stack\<lparr>ms_matter := w\<rparr>)))"

definition light_eth_main where
  "light_eth_main init matter_port base dev rand m ly F env obs =
     (let stack = stack_init init matter_port base BUMP_SIZE_light_eth dev
      in case rand of
           Some e \<Rightarrow> (Some (Inr (Inl e)), stack)
         | None \<Rightarrow>
             (case eth_startup m (ms_matter stack) of
                (Inl p, w) \<Rightarrow> (Some (Inl p), stack\<lparr>ms_matter := w\<rparr>)
              | (Inr (Inl e), w) \<Rightarrow> (Some (Inr (Inl e)), stack\<lparr>ms_matter := w\<rparr>)
              | (Inr (Inr _), w) \<Rightarrow> call_run (eth_run_preex ly F env) (stack\<lparr>ms_matter := w\<rparr>) obs))"

end
