(* ===== verification/Phase_Handlers.thy ===== *)
theory Phase_Handlers
  imports Networks_Store Handover_Spec Stack_Run
begin

text \<open>
  The handlers of a phase, and the requests they serve. The tasks that the stack gives to a driver
  (\<open>MatterStackEthernetTask\<close> of \<^verbatim>\<open>src/src/eth.rs\<close>, \<open>MatterStackWirelessTask\<close> of
  \<^verbatim>\<open>src/src/wireless.rs\<close>) build an interaction model per phase: the clusters of the operational network
  on top of the user's handler, with the controller of the phase. What these clusters do with a
  request is code of \<^verbatim>\<open>rs-matter\<close>; that they act on the interface through their controller only, and
  that a connect is recorded in the networking status of the stack, is what the phases rely on.
\<close>

section \<open>The tasks\<close>

text \<open>The reference to the stack is the stack that the definitions below are given.\<close>

record ('c, 'h, 'k, 'u) stack_ethernet_task =
  et_crypto :: 'c
  et_handler :: 'h
  et_kv :: 'k
  et_user_task :: 'u

record ('n, 'c, 'h, 'k, 'u) stack_wireless_task =
  wt_networks :: 'n
  wt_crypto :: 'c
  wt_handler :: 'h
  wt_kv :: 'k
  wt_user_task :: 'u

text \<open>\<open>MatterStack::im\<close>; the matter, the buffers and the state are those of the stack.\<close>

record ('m, 'c, 'b, 'h, 'k, 'i) interaction_model =
  imm_matter :: 'm
  imm_crypto :: 'c
  imm_buffers :: 'b
  imm_handler :: 'h
  imm_kv :: 'k
  imm_state :: 'i

definition stack_im ::
    "('m, 'b, 'i, 's) mstack \<Rightarrow> 'c \<Rightarrow> 'h \<Rightarrow> 'k \<Rightarrow> ('m, 'c, 'b, 'h, 'k, 'i) interaction_model" where
  "stack_im s crypto handler kv =
     \<lparr>imm_matter = ms_matter s, imm_crypto = crypto, imm_buffers = ms_buffers s,
      imm_handler = handler, imm_kv = kv, imm_state = ms_state s\<rparr>"

section \<open>The handlers of a phase\<close>

text \<open>
  \<open>NetCtlWithStatusImpl::new\<close> wraps a controller; the status it writes is the one of the stack.
  The arguments of \<open>wifi_net_handler\<close> and \<open>thread_net_handler\<close>, in their order, but for the general
  diagnostics, which are always \<open>()\<close>; so is the interface of a BLE phase (\<open>None\<close>).
\<close>

datatype 'w net_ctl_with_status = Net_Ctl_With_Status "'w wireless_net_ctl"

record ('f, 'w, 'n, 'h, 'r) net_handler_args =
  na_concurrent :: bool
  na_netif :: "'f option"
  na_net_ctl :: "'w net_ctl_with_status"
  na_networks :: 'n
  na_diag :: "'w net_ctl_with_status"
  na_handler :: 'h
  na_rand :: 'r

text \<open>
  In each of them \<open>rand\<close> is the result of \<open>weak_rand\<close>, and \<open>net_handler\<close> the function of \<^verbatim>\<open>rs-matter\<close>
  that chains the clusters. The handler of the model is the pair of the user's handler, which has
  the metadata, and the chain.
\<close>

definition wifi_gatt_im where
  "wifi_gatt_im wifi_net_handler s t rand =
     (let net_ctl = Net_Ctl_With_Status (Commissioning Net_Wifi)
      in map_sum id (\<lambda>r.
           let combined = wifi_net_handler
                 \<lparr>na_concurrent = False, na_netif = None, na_net_ctl = net_ctl,
                  na_networks = wt_networks t, na_diag = net_ctl, na_handler = wt_handler t, na_rand = r\<rparr>
           in stack_im s (wt_crypto t) (wt_handler t, combined) (wt_kv t)) rand)"

definition wifi_task_im where
  "wifi_task_im wifi_net_handler s t netif net_ctl rand =
     (let net_ctl_s = Net_Ctl_With_Status (Operational net_ctl)
      in map_sum id (\<lambda>r.
           let combined = wifi_net_handler
                 \<lparr>na_concurrent = False, na_netif = Some netif, na_net_ctl = net_ctl_s,
                  na_networks = wt_networks t, na_diag = net_ctl_s, na_handler = wt_handler t, na_rand = r\<rparr>
           in stack_im s (wt_crypto t) (wt_handler t, combined) (wt_kv t)) rand)"

definition wifi_coex_im where
  "wifi_coex_im wifi_net_handler s t netif net_ctl rand =
     (let net_ctl_s = Net_Ctl_With_Status (Operational net_ctl)
      in map_sum id (\<lambda>r.
           let combined = wifi_net_handler
                 \<lparr>na_concurrent = True, na_netif = Some netif, na_net_ctl = net_ctl_s,
                  na_networks = wt_networks t, na_diag = net_ctl_s, na_handler = wt_handler t, na_rand = r\<rparr>
           in stack_im s (wt_crypto t) (wt_handler t, combined) (wt_kv t)) rand)"

definition thread_gatt_im where
  "thread_gatt_im thread_net_handler s t rand =
     (let net_ctl = Net_Ctl_With_Status (Commissioning Net_Thread)
      in map_sum id (\<lambda>r.
           let combined = thread_net_handler
                 \<lparr>na_concurrent = False, na_netif = None, na_net_ctl = net_ctl,
                  na_networks = wt_networks t, na_diag = net_ctl, na_handler = wt_handler t, na_rand = r\<rparr>
           in stack_im s (wt_crypto t) (wt_handler t, combined) (wt_kv t)) rand)"

definition thread_task_im where
  "thread_task_im thread_net_handler s t netif net_ctl rand =
     (let net_ctl_s = Net_Ctl_With_Status (Operational net_ctl)
      in map_sum id (\<lambda>r.
           let combined = thread_net_handler
                 \<lparr>na_concurrent = False, na_netif = Some netif, na_net_ctl = net_ctl_s,
                  na_networks = wt_networks t, na_diag = net_ctl_s, na_handler = wt_handler t, na_rand = r\<rparr>
           in stack_im s (wt_crypto t) (wt_handler t, combined) (wt_kv t)) rand)"

definition thread_coex_im where
  "thread_coex_im thread_net_handler s t netif net_ctl rand =
     (let net_ctl_s = Net_Ctl_With_Status (Operational net_ctl)
      in map_sum id (\<lambda>r.
           let combined = thread_net_handler
                 \<lparr>na_concurrent = True, na_netif = Some netif, na_net_ctl = net_ctl_s,
                  na_networks = wt_networks t, na_diag = net_ctl_s, na_handler = wt_handler t, na_rand = r\<rparr>
           in stack_im s (wt_crypto t) (wt_handler t, combined) (wt_kv t)) rand)"

text \<open>Ethernet has no controller and no networks store.\<close>

record ('f, 'd, 'h, 'r) eth_handler_args =
  ea_concurrent :: bool
  ea_netif :: 'f
  ea_eth_diag :: 'd
  ea_handler :: 'h
  ea_rand :: 'r

definition eth_im where
  "eth_im eth_net_handler s t netif eth_diag rand =
     map_sum id (\<lambda>r.
       let combined = eth_net_handler
             \<lparr>ea_concurrent = False, ea_netif = netif, ea_eth_diag = eth_diag,
              ea_handler = et_handler t, ea_rand = r\<rparr>
       in stack_im s (et_crypto t) (et_handler t, combined) (et_kv t)) rand"

end
