(* ===== verification/Served_Requests.thy ===== *)
theory Served_Requests
  imports Phase_Handlers
begin

text \<open>
  A run without coexistence together with the requests its handlers serve, the interface of the
  driver they act on, and the networks store: the phases of \<open>run_wifi\<close> and \<open>run_thread\<close>
  (\<^verbatim>\<open>src/src/wireless/wifi.rs\<close>, \<^verbatim>\<open>thread.rs\<close>) with the handlers each of them is built with. What was an
  observation of the phases - the networking status, the result of the deferred connect - is here
  what the controller of the phase makes of the requests.
\<close>

section \<open>What the handlers rely on their controller for\<close>

text \<open>
  A controller is passive when its methods leave the interface alone, those that are given a
  callback as far as the callback does.
\<close>

definition leaves_world :: "('w \<Rightarrow> 'r \<times> 'w) \<Rightarrow> bool" where
  "leaves_world m \<longleftrightarrow> (\<forall>w. snd (m w) = w)"

definition leaves_with :: "(('a \<Rightarrow> ('w, unit) act) \<Rightarrow> 'w \<Rightarrow> 'r \<times> 'w) \<Rightarrow> bool" where
  "leaves_with m \<longleftrightarrow> (\<forall>f. (\<forall>x. leaves_world (f x)) \<longrightarrow> leaves_world (m f))"

definition passive_net_ctl :: "'w net_ctl \<Rightarrow> bool" where
  "passive_net_ctl c \<longleftrightarrow>
     (\<forall>b. leaves_world (nc_set_enabled c b)) \<and> (\<forall>cr. leaves_world (nc_connect c cr)) \<and>
     (\<forall>n. leaves_with (nc_scan c n)) \<and> leaves_with (nc_supported_wifi_bands c)"

definition passive_wifi_diag :: "'w wifi_diag \<Rightarrow> bool" where
  "passive_wifi_diag d \<longleftrightarrow>
     leaves_with (wd_bssid d) \<and> leaves_world (wd_security_type d) \<and>
     leaves_world (wd_wi_fi_version d) \<and> leaves_world (wd_channel_number d) \<and>
     leaves_world (wd_rssi d) \<and> leaves_world (wd_beacon_lost_count d) \<and>
     leaves_world (wd_beacon_rx_count d) \<and> leaves_world (wd_packet_multicast_rx_count d) \<and>
     leaves_world (wd_packet_multicast_tx_count d) \<and>
     leaves_world (wd_packet_unicast_rx_count d) \<and>
     leaves_world (wd_packet_unicast_tx_count d) \<and> leaves_world (wd_current_max_rate d) \<and>
     leaves_world (wd_overrun_count d) \<and> leaves_world (wd_reset_counts d)"

definition passive_thread_diag :: "'w thread_diag \<Rightarrow> bool" where
  "passive_thread_diag d \<longleftrightarrow>
     leaves_world (td_channel d) \<and> leaves_world (td_routing_role d) \<and>
     leaves_with (td_network_name d) \<and> leaves_world (td_pan_id d) \<and>
     leaves_world (td_extended_pan_id d) \<and> leaves_with (td_mesh_local_prefix d) \<and>
     leaves_with (td_neighbor_table d) \<and> leaves_with (td_route_table d) \<and>
     leaves_world (td_partition_id d) \<and> leaves_world (td_weighting d) \<and>
     leaves_world (td_data_version d) \<and> leaves_world (td_stable_data_version d) \<and>
     leaves_world (td_leader_router_id d) \<and> leaves_world (td_ext_address d) \<and>
     leaves_world (td_rloc_16 d) \<and> leaves_world (td_security_policy d) \<and>
     leaves_with (td_channel_page0_mask d) \<and>
     leaves_with (td_operational_dataset_components d) \<and>
     leaves_with (td_active_network_faults_list d) \<and> leaves_with (td_mac_counters d) \<and>
     leaves_with (td_mle_counters d) \<and> leaves_world (td_overrun_count d) \<and>
     leaves_world (td_reset_counts d) \<and> leaves_world (td_active_timestamp d) \<and>
     leaves_world (td_pending_timestamp d) \<and> leaves_world (td_delay d)"

definition is_passive :: "'w controller \<Rightarrow> bool" where
  "is_passive q \<longleftrightarrow>
     passive_net_ctl (q_net_ctl q) \<and> leaves_world (cn_wait_changed (q_notif q)) \<and>
     leaves_world (rd_connected (q_wireless_diag q)) \<and> passive_wifi_diag (q_wifi_diag q) \<and>
     passive_thread_diag (q_thread_diag q)"

text \<open>The controller of a BLE phase is passive.\<close>

lemma commissioning_is_passive: "is_passive (as_controller check_match (Commissioning t))"
  by (simp add: is_passive_def passive_net_ctl_def passive_wifi_diag_def passive_thread_diag_def
      wireless_ctl_defs leaves_world_def leaves_with_def)

section \<open>Requests and the deferred connect\<close>

text \<open>
  \<open>serve m rq\<close> is the interaction model \<open>m\<close> serving a request, on the interface, the networks store
  and the networking status; \<open>connect_once\<close> connects to a network of the store. \<open>creds n nid\<close> are the
  credentials the store has for a network.
\<close>

type_synonym ('w, 'n, 'st) served_world = "'w \<times> 'n \<times> 'st net_ctl_state"

fun status_inner ::
    "(wireless_creds \<Rightarrow> network_type \<Rightarrow> net_ctl_error + unit) \<Rightarrow> 'w net_ctl_with_status \<Rightarrow> 'w controller" where
  "status_inner check_match (Net_Ctl_With_Status ctl) = as_controller check_match ctl"

text \<open>
  A connect through the wrapper: the connect of the wrapped controller, its outcome recorded with
  the network it was for. \<open>connected\<close> says it of a state before and one after.
\<close>

definition connected ::
    "('st net_ctl_state \<Rightarrow> bool) \<Rightarrow> ('n \<Rightarrow> 8 word list \<Rightarrow> wireless_creds option) \<Rightarrow> 'w controller \<Rightarrow>
     8 word list \<Rightarrow> ('w, 'n, 'st) served_world \<Rightarrow> net_ctl_error + unit \<Rightarrow> ('w, 'n, 'st) served_world \<Rightarrow> bool" where
  "connected ready creds q nid = (\<lambda>(x, n, st) r (x', n', st').
     (\<exists>cr. creds n nid = Some cr \<and> nc_connect (q_net_ctl q) cr x = (Inr r, x')) \<and>
     n' = n \<and> ncs_network_id st' = nid \<and> (ready st' \<longleftrightarrow> r = Inr ()))"

text \<open>
  The contract of the handlers: with passive controllers a request leaves the interface alone; a
  \<open>ConnectNetwork\<close> for a network of the store, whose connect does not panic, is a connect through
  the wrapper. The contract of \<open>connect_once\<close> is the latter, with the error as its result.
\<close>

definition net_handler_contract where
  "net_handler_contract net_handler serve check_match ready creds connect_network \<longleftrightarrow>
     (\<forall>m a rq x n st. snd (imm_handler m) = net_handler a \<longrightarrow>
        is_passive (status_inner check_match (na_net_ctl a)) \<longrightarrow>
        is_passive (status_inner check_match (na_diag a)) \<longrightarrow>
        fst (serve m rq (x, n, st)) = x) \<and>
     (\<forall>m a nid x n st cr r x'. snd (imm_handler m) = net_handler a \<longrightarrow> creds n nid = Some cr \<longrightarrow>
        nc_connect (q_net_ctl (status_inner check_match (na_net_ctl a))) cr x = (Inr r, x') \<longrightarrow>
        connected ready creds (status_inner check_match (na_net_ctl a)) nid (x, n, st) r
          (serve m (connect_network nid) (x, n, st)))"

definition connect_once_contract where
  "connect_once_contract connect_once check_match ready creds \<longleftrightarrow>
     (\<forall>c nid x n st cr r x'. creds n nid = Some cr \<longrightarrow>
        nc_connect (q_net_ctl (status_inner check_match c)) cr x = (Inr r, x') \<longrightarrow>
        (\<exists>y. connected ready creds (status_inner check_match c) nid (x, n, st) r y \<and>
          (case r of Inl _ \<Rightarrow> \<exists>e. connect_once c nid (x, n, st) = (Inl e, y)
           | Inr _ \<Rightarrow> connect_once c nid (x, n, st) = (Inr (), y))))"

section \<open>The run with its requests\<close>

text \<open>
  An evaluation, with the requests that the responder serves in it; of the deferred connect it is
  observed only whether it is through (\<open>ob_connect\<close>).
\<close>

record ('q, 'st, 'rq) served_obs =
  sv_obs :: "('q, 'st) wl_obs"
  sv_requests :: "'rq list"

definition deferred_connect ::
    "('w net_ctl_with_status \<Rightarrow> 8 word list \<Rightarrow> ('w, 'n, 'st) served_world \<Rightarrow>
       unit res \<times> ('w, 'n, 'st) served_world) \<Rightarrow>
     'w net_ctl_with_status \<Rightarrow> 'st wl_state \<Rightarrow> ('q, 'st) wl_obs \<Rightarrow> 'w \<Rightarrow> 'n \<Rightarrow>
     (unit res \<times> ('w, 'n, 'st) served_world) option" where
  "deferred_connect connect_once ctl w ob x n =
     (case wl_pc w of
        Connecting nid \<Rightarrow>
          if ob_connect ob = None then None else Some (connect_once ctl nid (x, n, wl_net w))
      | _ \<Rightarrow> None)"

text \<open>The evaluation of the phases: their state after it, what was observed, and the rest.\<close>

definition evaluated where
  "evaluated run connect_once ctl env w x n so =
     (let ob = (sv_obs so)\<lparr>ob_net_update := None\<rparr>;
          dc = deferred_connect connect_once ctl w ob x n;
          ob' = (case dc of None \<Rightarrow> ob | Some (r, _) \<Rightarrow> ob\<lparr>ob_connect := Some r\<rparr>)
      in case run env w ob' of
           Inl r \<Rightarrow> Inl r
         | Inr w' \<Rightarrow> Inr (w', ob', case dc of None \<Rightarrow> (x, n, wl_net w') | Some (_, y) \<Rightarrow> y))"

definition served_put ::
    "'st wl_state \<Rightarrow> ('w, 'n, 'st) served_world \<Rightarrow> 'st wl_state \<times> 'w \<times> 'n" where
  "served_put w = (\<lambda>(x, n, st). (w\<lparr>wl_net := st\<rparr>, x, n))"

text \<open>
  \<open>im w\<close> is the interaction model of the phase that \<open>w\<close> is in; \<open>Inl None\<close>: the evaluation cannot
  serve the requests said of it.
\<close>

definition served_step where
  "served_step run im serve connect_once ctl env = (\<lambda>(w, x, n) so.
     case evaluated run connect_once ctl env w x n so of
       Inl r \<Rightarrow> Inl (Some r)
     | Inr (w', ob, y) \<Rightarrow>
         if sv_requests so = [] then Inr (served_put w' y)
         else if responder_polled env w ob w' then
           (case im w of
              Inl _ \<Rightarrow> Inl None
            | Inr m \<Rightarrow> Inr (served_put w' (fold (serve m) (sv_requests so) y)))
         else Inl None)"

text \<open>The two networks. The first arguments are what a phase builds its handlers from.\<close>

definition wifi_phase_im where
  "wifi_phase_im net_handler s t netif q rand w =
     (case wl_ctl w of
        Mode_Commissioning _ \<Rightarrow> wifi_gatt_im net_handler s t rand
      | _ \<Rightarrow> wifi_task_im net_handler s t netif q rand)"

definition thread_phase_im where
  "thread_phase_im net_handler s t netif q rand w =
     (case wl_ctl w of
        Mode_Commissioning _ \<Rightarrow> thread_gatt_im net_handler s t rand
      | _ \<Rightarrow> thread_task_im net_handler s t netif q rand)"

definition wifi_served where
  "wifi_served net_handler serve connect_once s t netif q rand =
     served_step run_wifi (wifi_phase_im net_handler s t netif q (Inr rand :: unit + _)) serve connect_once
       (Net_Ctl_With_Status (Operational q))"

definition thread_served where
  "thread_served net_handler serve connect_once s t netif q rand =
     served_step run_thread (thread_phase_im net_handler s t netif q (Inr rand :: unit + _)) serve connect_once
       (Net_Ctl_With_Status (Operational q))"

end
