(* ===== verification/Served_Spec.thy ===== *)
theory Served_Spec
  imports Served_Requests
begin

text \<open>
  What a run without coexistence does to the interface of its driver: nothing before the deferred
  connect, whatever is requested over BLE; and a \<open>ConnectNetwork\<close> that was accepted over BLE is
  carried out, with the credentials it was for, by the driver's own controller, once, on the way to
  the operational phase. The locale \<open>phase_models\<close> has what the interaction models of a network
  owe, and is interpreted by those of Wifi and of Thread.
\<close>

section \<open>Steps\<close>

lemma served_step_Inr:
  "served_step run im serve connect_once ctl env (w, x, n) so = Inr s' \<longleftrightarrow>
     (\<exists>w1 ob y. evaluated run connect_once ctl env w x n so = Inr (w1, ob, y) \<and>
        (sv_requests so = [] \<and> s' = served_put w1 y \<or>
         sv_requests so \<noteq> [] \<and> responder_polled env w ob w1 \<and>
           (\<exists>m. im w = Inr m \<and> s' = served_put w1 (fold (serve m) (sv_requests so) y))))"
  by (auto simp: served_step_def split: sum.splits)

lemma served_put_simps [simp]:
  "served_put w (x, n, st) = (w\<lparr>wl_net := st\<rparr>, x, n)"
  by (simp add: served_put_def)

lemma wl_inv_net [simp]: "wl_inv (w\<lparr>wl_net := st\<rparr>) = wl_inv w"
  by (cases "wl_pc w") (simp_all add: wl_inv_def)

lemma evaluated_Inr:
  "evaluated run connect_once ctl env w x n so = Inr (w1, ob, y) \<Longrightarrow> run env w ob = Inr w1"
  by (auto simp: evaluated_def Let_def split: sum.splits)

lemma evaluated_inv:
  "evaluated run_wifi connect_once ctl env w x n so = Inr (w1, ob, y) \<Longrightarrow> wl_inv w \<Longrightarrow> wl_inv w1"
  by (drule evaluated_Inr) (rule run_wifi_inv)

lemma served_put_inv: "(w', x', n') = served_put w1 y \<Longrightarrow> wl_inv w' = wl_inv w1"
  by (cases y) simp

lemma served_inv:
  assumes "served_step run_wifi im serve connect_once ctl env (w, x, n) so = Inr (w', x', n')" and "wl_inv w"
  shows "wl_inv w'"
proof -
  from assms(1) obtain w1 ob y z where "evaluated run_wifi connect_once ctl env w x n so = Inr (w1, ob, y)"
    and "(w', x', n') = served_put w1 z" unfolding served_step_Inr by blast
  with assms(2) show ?thesis by (metis evaluated_inv served_put_inv)
qed

interpretation served_machine: op_machine "served_step run_wifi im serve connect_once ctl env" "\<lambda>_ _. True"
    "\<lambda>(w, _, _). wl_inv w" for im serve connect_once ctl env
  by unfold_locales (auto dest: served_inv)

text \<open>Only the deferred connect and the operational phase have the driver's controller.\<close>

fun driver_phase :: "wl_pc \<Rightarrow> bool" where
  "driver_phase (Connecting _) = True"
| "driver_phase (Oper _ _) = True"
| "driver_phase _ = False"

lemma no_deferred_connect:
  "\<not> driver_phase (wl_pc w) \<Longrightarrow> deferred_connect connect_once ctl w ob x n = None"
  by (cases "wl_pc w") (simp_all add: deferred_connect_def)

lemma responder_of_ble:
  assumes "responder_polled env w ob w1" and "\<not> driver_phase (wl_pc w)" and "wl_inv w"
  shows "wl_ctl w = Mode_Commissioning Net_Wifi"
  using assms
  by (cases "wl_pc w") (auto simp: responder_polled_def polled_im_def im_of_def wl_inv_def split: if_splits)

section \<open>The way of the handover\<close>

lemma handover_pcs:
  assumes "select_contract (we_select env)" and "handover_obs env ob" and "ob_net_update ob = None"
    and "handing_over env w" and "run_wifi env w ob = Inr w'" and "handing_over env w'"
  shows "case wl_pc w of
      Ble _ _ \<Rightarrow> wl_net w' = wl_net w \<and> ((\<exists>act im. wl_pc w' = Ble act im) \<or> wl_pc w' = Oper_Start)
    | Oper_Start \<Rightarrow> wl_net w' = wl_net w \<and> wl_pc w' = Connecting (ncs_network_id (wl_net w))
    | Connecting i \<Rightarrow> wl_pc w' = (if ob_connect ob = None then Connecting i else Oper_Build)
    | Oper_Build \<Rightarrow> \<exists>nx im. wl_pc w' = Oper nx im
    | Oper _ _ \<Rightarrow> \<exists>nx im. wl_pc w' = Oper nx im
    | _ \<Rightarrow> True"
  using assms
  by (cases "wl_pc w")
    (auto simp: run_wifi_cases run_wifi_defs handing_over_def handover_obs_def Let_def
      split: option.splits sum.splits prod.splits if_splits)

lemma waiting_for_credentials:
  assumes sel: "select_contract (we_select env)" and ob: "handover_obs env ob" "ob_net_update ob = None"
    and pc: "wl_pc w = Ble Act_Wait_Prov Im_Running" and "\<not> we_prov_ready env (wl_net w)"
  shows "run_wifi env w ob = Inr w" and "responder_polled env w ob w"
proof -
  have none: "we_select env [None, None] = None" "we_select env [None, None, None, None] = None"
    using select2_None [OF sel, of None None] select4_None [OF sel, of None None None None] by simp_all
  then have "run_btp (we_select env) (we_window env) Act_Wait_Prov (btp_obs_of env ob w) = Inr Act_Wait_Prov"
    using ob assms(5) by (simp add: run_btp_def btp_obs_of_def handover_obs_def)
  moreover have "w\<lparr>wl_pc := Ble Act_Wait_Prov Im_Running, wl_hydration := wl_hydration w\<rparr> = w"
    using pc by (cases w) simp
  ultimately show "run_wifi env w ob = Inr w"
    using ob none pc by (simp add: run_wifi_cases wifi_gatt_poll_def poll_im_running_def handover_obs_def)
  show "responder_polled env w ob w"
    using pc by (simp add: responder_polled_def polled_im_def im_of_def poll_im_running_def)
qed

section \<open>A connect on its way\<close>

text \<open>
  \<open>under_way\<close>: the connect to network \<open>nid\<close> is still to be made, with the interface as in \<open>x\<close>, or has
  been made, with the interface as in \<open>x'\<close>.
\<close>

definition under_way where
  "under_way env nid x x' n = (\<lambda>(w, y, n').
     handing_over env w \<and> n' = n \<and>
     (case wl_pc w of
        Ble _ _ \<Rightarrow> ncs_network_id (wl_net w) = nid \<and> y = x
      | Oper_Start \<Rightarrow> ncs_network_id (wl_net w) = nid \<and> y = x
      | Connecting i \<Rightarrow> i = nid \<and> y = x
      | _ \<Rightarrow> y = x'))"

lemma evaluated_plain:
  assumes "deferred_connect connect_once ctl w ((sv_obs so)\<lparr>ob_net_update := None\<rparr>) x n = None"
    and "run env w ((sv_obs so)\<lparr>ob_net_update := None\<rparr>) = Inr w'" and "sv_requests so = []"
  shows "served_step run im serve connect_once ctl env (w, x, n) so = Inr (w', x, n)"
  using assms by (simp add: served_step_def evaluated_def)

lemma evaluated_connected:
  assumes "deferred_connect connect_once ctl w ((sv_obs so)\<lparr>ob_net_update := None\<rparr>) x n = Some (r, x', n', st')"
    and "run env w ((sv_obs so)\<lparr>ob_net_update := None, ob_connect := Some r\<rparr>) = Inr w'"
    and "sv_requests so = []"
  shows "served_step run im serve connect_once ctl env (w, x, n) so = Inr (w'\<lparr>wl_net := st'\<rparr>, x', n')"
  using assms by (simp add: served_step_def evaluated_def)

lemma handover_obs_plain:
  "handover_obs env ob \<Longrightarrow> handover_obs env (ob\<lparr>ob_net_update := None\<rparr>)"
  "handover_obs env ob \<Longrightarrow> handover_obs env (ob\<lparr>ob_net_update := None, ob_connect := Some (Inr ())\<rparr>)"
  "handover_ready (ob\<lparr>ob_net_update := None\<rparr>) = handover_ready ob"
  by (simp_all add: handover_obs_def handover_ready_def)

lemma deferred_connect_succeeds:
  assumes "connect_once_contract connect_once check_match ready creds"
    and cr: "creds n nid = Some cr" "nc_connect (q_net_ctl q) cr x = (Inr (Inr ()), x')"
  shows "\<exists>st'. connect_once (Net_Ctl_With_Status (Operational q)) nid (x, n, st) = (Inr (), x', n, st') \<and> ready st'"
proof -
  have "nc_connect (q_net_ctl (status_inner check_match (Net_Ctl_With_Status (Operational q)))) cr x =
      (Inr (Inr ()), x')" using cr(2) by (simp add: operational_transparent)
  with assms(1) cr(1) obtain y where
    y: "connected ready creds (status_inner check_match (Net_Ctl_With_Status (Operational q))) nid (x, n, st) (Inr ()) y"
    "connect_once (Net_Ctl_With_Status (Operational q)) nid (x, n, st) = (Inr (), y)"
    unfolding connect_once_contract_def by fastforce
  with cr show ?thesis by (cases y) (auto simp: connected_def operational_transparent)
qed

lemma under_way_step:
  assumes sel: "select_contract (we_select env)" and ob: "handover_obs env (sv_obs so)" "sv_requests so = []"
    and once: "connect_once_contract connect_once check_match (we_prov_ready env) creds"
    and cr: "creds n nid = Some cr" "nc_connect (q_net_ctl q) cr x = (Inr (Inr ()), x')"
    and s: "under_way env nid x x' n (w, y, n')"
  shows "\<exists>w' y'. served_step run_wifi im serve connect_once (Net_Ctl_With_Status (Operational q)) env (w, y, n') so
      = Inr (w', y', n) \<and> under_way env nid x x' n (w', y', n) \<and>
    handover_rank (wl_pc w') \<le> handover_rank (wl_pc w) - (if handover_ready (sv_obs so) then 1 else 0)"
proof -
  let ?ctl = "Net_Ctl_With_Status (Operational q)" and ?ob = "(sv_obs so)\<lparr>ob_net_update := None\<rparr>"
  from s have h: "handing_over env w" "n' = n" by (simp_all add: under_way_def)
  show ?thesis
  proof (cases "\<exists>i. wl_pc w = Connecting i \<and> ob_connect (sv_obs so) \<noteq> None")
    case True
    with s have pc: "wl_pc w = Connecting nid" and "y = x" by (auto simp: under_way_def)
    from deferred_connect_succeeds [OF once cr] obtain st' where
      c: "connect_once ?ctl nid (x, n, wl_net w) = (Inr (), x', n, st')" "we_prov_ready env st'" by blast
    have dc: "deferred_connect connect_once ?ctl w ?ob y n' = Some (Inr (), x', n, st')"
      using True pc c(1) h(2) \<open>y = x\<close> by (simp add: deferred_connect_def)
    have "run_wifi env w ((sv_obs so)\<lparr>ob_net_update := None, ob_connect := Some (Inr ())\<rparr>) =
        Inr (w\<lparr>wl_pc := Oper_Build\<rparr>)"
      using pc by (simp add: run_wifi_cases wifi_task_connect_def)
    then have "served_step run_wifi im serve connect_once ?ctl env (w, y, n') so =
        Inr (w\<lparr>wl_pc := Oper_Build, wl_net := st'\<rparr>, x', n)"
      by (simp add: evaluated_connected [where run = run_wifi, OF dc _ ob(2)])
    with c(2) pc show ?thesis by (auto simp: under_way_def handing_over_def)
  next
    case False
    then have dc: "deferred_connect connect_once ?ctl w ?ob y n' = None"
      by (cases "wl_pc w") (auto simp: deferred_connect_def)
    from handover_step [OF sel handover_obs_plain(1) [OF ob(1)] h(1)] obtain w' where
      w': "run_wifi env w ?ob = Inr w'" "handing_over env w'"
      "handover_rank (wl_pc w') \<le> handover_rank (wl_pc w)"
      "handover_ready ?ob \<longrightarrow> handover_rank (wl_pc w') \<le> handover_rank (wl_pc w) - 1" by blast
    from handover_pcs [OF sel handover_obs_plain(1) [OF ob(1)] _ h(1) w'(1,2)] False s have
      "under_way env nid x x' n (w', y, n)"
      using w'(2) h(1) by (cases "wl_pc w") (auto simp: under_way_def handing_over_def)
    moreover have "served_step run_wifi im serve connect_once ?ctl env (w, y, n') so = Inr (w', y, n')"
      by (rule evaluated_plain [where run = run_wifi, OF dc w'(1) ob(2)])
    ultimately show ?thesis using h(2) w'(3,4) by (auto simp: handover_obs_plain(3))
  qed
qed

lemma under_way_run:
  assumes sel: "select_contract (we_select env)"
    and once: "connect_once_contract connect_once check_match (we_prov_ready env) creds"
    and cr: "creds n nid = Some cr" "nc_connect (q_net_ctl q) cr x = (Inr (Inr ()), x')"
  shows "\<forall>so \<in> set sos. handover_obs env (sv_obs so) \<and> sv_requests so = [] \<Longrightarrow>
    under_way env nid x x' n (w, y, n') \<Longrightarrow> n' = n \<Longrightarrow>
    \<exists>w' y'. run_ops (served_step run_wifi im serve connect_once (Net_Ctl_With_Status (Operational q)) env) (w, y, n') sos
      = Inr (w', y', n) \<and> under_way env nid x x' n (w', y', n) \<and>
    handover_rank (wl_pc w') \<le> handover_rank (wl_pc w) - length (filter handover_ready (map sv_obs sos))"
proof (induction sos arbitrary: w y n')
  case Nil
  then show ?case by auto
next
  case (Cons so sos)
  from Cons.prems(1) have ob: "handover_obs env (sv_obs so)" "sv_requests so = []" by simp_all
  from under_way_step [OF sel ob once cr Cons.prems(2)] obtain w1 y1 where
    st: "served_step run_wifi im serve connect_once (Net_Ctl_With_Status (Operational q)) env (w, y, n') so = Inr (w1, y1, n)"
      "under_way env nid x x' n (w1, y1, n)"
      "handover_rank (wl_pc w1) \<le> handover_rank (wl_pc w) - (if handover_ready (sv_obs so) then 1 else 0)"
    by blast
  from Cons.IH [OF _ st(2) refl] Cons.prems(1) obtain w' y' where
    "run_ops (served_step run_wifi im serve connect_once (Net_Ctl_With_Status (Operational q)) env) (w1, y1, n) sos = Inr (w', y', n)"
    "under_way env nid x x' n (w', y', n)"
    "handover_rank (wl_pc w') \<le> handover_rank (wl_pc w1) - length (filter handover_ready (map sv_obs sos))"
    by auto
  with st show ?case by (auto split: if_splits)
qed

section \<open>The models of a network\<close>

locale phase_models =
  fixes net :: network_type
    and im :: "'st wl_state \<Rightarrow> 'e + ('m, 'c, 'b, 'h \<times> 'g, 'k, 'i) interaction_model"
    and net_handler :: "('f, 'w, 'nr, 'h, 'r) net_handler_args \<Rightarrow> 'g"
  assumes gatt_model: "wl_ctl w = Mode_Commissioning Net_Wifi \<Longrightarrow>
    \<exists>m a. im w = Inr m \<and> snd (imm_handler m) = net_handler a \<and>
      na_net_ctl a = Net_Ctl_With_Status (Commissioning net) \<and>
      na_diag a = Net_Ctl_With_Status (Commissioning net)"
begin

lemma requests_leave_driver:
  assumes "net_handler_contract net_handler serve check_match ready creds connect_network"
    and "im w = Inr m" and "wl_ctl w = Mode_Commissioning Net_Wifi"
  shows "fst (fold (serve m) rqs y) = fst y"
proof -
  obtain a where "snd (imm_handler m) = net_handler a"
    "na_net_ctl a = Net_Ctl_With_Status (Commissioning net)"
    "na_diag a = Net_Ctl_With_Status (Commissioning net)"
    using gatt_model [OF assms(3)] assms(2) by auto
  with assms(1) have one: "fst (serve m rq y) = fst y" for rq y
    by (cases y) (simp add: net_handler_contract_def commissioning_is_passive)
  show ?thesis by (induction rqs arbitrary: y) (simp_all add: one)
qed

lemma step_leaves_driver:
  assumes contract: "net_handler_contract net_handler serve check_match ready creds connect_network"
    and step: "served_step run_wifi im serve connect_once ctl env (w, x, n) so = Inr (w', x', n')"
    and "wl_inv w" and "\<not> driver_phase (wl_pc w)"
  shows "x' = x"
proof -
  from step obtain w1 ob y where ev: "evaluated run_wifi connect_once ctl env w x n so = Inr (w1, ob, y)"
    and cases: "sv_requests so = [] \<and> (w', x', n') = served_put w1 y \<or>
      responder_polled env w ob w1 \<and>
        (\<exists>m. im w = Inr m \<and> (w', x', n') = served_put w1 (fold (serve m) (sv_requests so) y))"
    by (auto simp: served_step_Inr)
  from ev have "fst y = x"
    by (auto simp: evaluated_def Let_def no_deferred_connect [OF assms(4)] split: sum.splits)
  have put: "x' = fst z" if "(w', x', n') = served_put w1 z" for z
    using that by (cases z) simp
  from cases show ?thesis
  proof (elim disjE conjE exE)
    assume "(w', x', n') = served_put w1 y"
    with put \<open>fst y = x\<close> show ?thesis by simp
  next
    fix m assume "responder_polled env w ob w1" and m: "im w = Inr m"
      and z: "(w', x', n') = served_put w1 (fold (serve m) (sv_requests so) y)"
    then have "wl_ctl w = Mode_Commissioning Net_Wifi" using responder_of_ble assms(3,4) by blast
    from requests_leave_driver [OF contract m this] put [OF z] \<open>fst y = x\<close> show ?thesis by simp
  qed
qed

lemma run_leaves_driver:
  assumes contract: "net_handler_contract net_handler serve check_match ready creds connect_network"
  shows "run_ops (served_step run_wifi im serve connect_once ctl env) (w, x, n) sos = Inr (w', x', n') \<Longrightarrow>
    wl_inv w \<Longrightarrow>
    \<forall>k < length sos. \<forall>w1 y. run_ops (served_step run_wifi im serve connect_once ctl env) (w, x, n) (take k sos)
      = Inr (w1, y) \<longrightarrow> \<not> driver_phase (wl_pc w1) \<Longrightarrow> x' = x"
proof (induction sos arbitrary: w x n)
  case Nil
  then show ?case by simp
next
  case (Cons so sos)
  let ?step = "served_step run_wifi im serve connect_once ctl env"
  from Cons.prems(1) obtain w1 x1 n1 where st: "?step (w, x, n) so = Inr (w1, x1, n1)"
    and rest: "run_ops ?step (w1, x1, n1) sos = Inr (w', x', n')"
    by (auto simp: and_then_Inr_iff)
  from Cons.prems(3) [rule_format, of 0] have "\<not> driver_phase (wl_pc w)" by simp
  from step_leaves_driver [OF contract st Cons.prems(2) this] have "x1 = x" .
  moreover have "wl_inv w1"
    using served_machine.step_inv [OF _ _ st] Cons.prems(2) by simp
  moreover have "\<not> driver_phase (wl_pc u)"
    if "k < length sos" and "run_ops ?step (w1, x1, n1) (take k sos) = Inr (u, y)" for k u y
    using Cons.prems(3) [rule_format, of "Suc k" u y] that st by simp
  ultimately show ?case using Cons.IH [OF rest] by simp
qed

lemma request_accepted:
  assumes contract: "net_handler_contract net_handler serve check_match (we_prov_ready env) creds connect_network"
    and sel: "select_contract (we_select env)" and ob: "handover_obs env (sv_obs so)"
    and rq: "sv_requests so = [connect_network nid]"
    and pc: "wl_pc w = Ble Act_Wait_Prov Im_Running" "wl_ctl w = Mode_Commissioning Net_Wifi"
    and unready: "\<not> we_prov_ready env (wl_net w)" and cr: "creds n nid = Some cr"
  shows "\<exists>st. served_step run_wifi im serve connect_once ctl env (w, x, n) so = Inr (w\<lparr>wl_net := st\<rparr>, x, n) \<and>
    ncs_network_id st = nid \<and> (we_prov_ready env st \<longleftrightarrow> check_match cr net = Inr ())"
proof -
  let ?ob = "(sv_obs so)\<lparr>ob_net_update := None\<rparr>"
  obtain m a where im: "im w = Inr m" "snd (imm_handler m) = net_handler a"
    "na_net_ctl a = Net_Ctl_With_Status (Commissioning net)"
    using gatt_model [OF pc(2)] by blast
  have con: "nc_connect (q_net_ctl (status_inner check_match (na_net_ctl a))) cr x = (Inr (check_match cr net), x)"
    using im(3) by (simp add: wireless_ctl_defs)
  from contract im(2) cr con have
    "connected (we_prov_ready env) creds (status_inner check_match (na_net_ctl a)) nid (x, n, wl_net w)
       (check_match cr net) (serve m (connect_network nid) (x, n, wl_net w))"
    unfolding net_handler_contract_def by blast
  then obtain st where sv: "serve m (connect_network nid) (x, n, wl_net w) = (x, n, st)" "ncs_network_id st = nid"
    "we_prov_ready env st \<longleftrightarrow> check_match cr net = Inr ()"
    using cr con by (cases "serve m (connect_network nid) (x, n, wl_net w)") (auto simp: connected_def)
  note wait = waiting_for_credentials [OF sel handover_obs_plain(1) [OF ob] _ pc(1) unready, simplified]
  have "deferred_connect connect_once ctl w ?ob x n = None"
    using pc(1) by (simp add: deferred_connect_def)
  then have "evaluated run_wifi connect_once ctl env w x n so = Inr (w, ?ob, (x, n, wl_net w))"
    using wait(1) by (simp add: evaluated_def)
  then have "served_step run_wifi im serve connect_once ctl env (w, x, n) so = Inr (w\<lparr>wl_net := st\<rparr>, x, n)"
    using rq wait(2) im(1) sv(1) by (simp add: served_step_def)
  with sv(2,3) show ?thesis by blast
qed

lemma request_carried_out:
  assumes contract: "net_handler_contract net_handler serve check_match (we_prov_ready env) creds connect_network"
    and once: "connect_once_contract connect_once check_match (we_prov_ready env) creds"
    and sel: "select_contract (we_select env)" and ob: "handover_obs env (sv_obs so)"
    and rq: "sv_requests so = [connect_network nid]"
    and pc: "wl_pc w = Ble Act_Wait_Prov Im_Running" "wl_ctl w = Mode_Commissioning Net_Wifi"
    and unready: "\<not> we_prov_ready env (wl_net w)"
    and cr: "creds n nid = Some cr" "check_match cr net = Inr ()" "nc_connect (q_net_ctl q) cr x = (Inr (Inr ()), x')"
    and rest: "\<forall>so \<in> set rest. handover_obs env (sv_obs so) \<and> sv_requests so = []"
    and len: "5 \<le> length (filter handover_ready (map sv_obs rest))"
  shows "\<exists>w' im'. run_ops (served_step run_wifi im serve connect_once (Net_Ctl_With_Status (Operational q)) env)
      (w, x, n) (so # rest) = Inr (w', x', n) \<and> wl_pc w' = Oper Next_Gone im'"
proof -
  let ?step = "served_step run_wifi im serve connect_once (Net_Ctl_With_Status (Operational q)) env"
  from request_accepted [OF contract sel ob rq pc unready cr(1)] cr(2) obtain st where
    st: "?step (w, x, n) so = Inr (w\<lparr>wl_net := st\<rparr>, x, n)" "ncs_network_id st = nid" "we_prov_ready env st"
    by blast
  then have "under_way env nid x x' n (w\<lparr>wl_net := st\<rparr>, x, n)"
    using pc(1) by (simp add: under_way_def handing_over_def)
  from under_way_run [OF sel once cr(1,3) rest this refl, of im serve] obtain w' y' where
    run: "run_ops ?step (w\<lparr>wl_net := st\<rparr>, x, n) rest = Inr (w', y', n)" "under_way env nid x x' n (w', y', n)"
    "handover_rank (wl_pc w') \<le> handover_rank (wl_pc (w\<lparr>wl_net := st\<rparr>)) - length (filter handover_ready (map sv_obs rest))"
    by blast
  then have "handover_rank (wl_pc w') = 0" using pc(1) len by simp
  then obtain nx im' where "wl_pc w' = Oper nx im'" using handover_rank_zero by blast
  with run(2) have "y' = x'" "wl_pc w' = Oper Next_Gone im'" by (auto simp: under_way_def handing_over_def)
  with st(1) run(1) show ?thesis by auto
qed

end

section \<open>Wifi and Thread\<close>

lemma wifi_gatt_model:
  "\<exists>m a. wifi_gatt_im net_handler s t (Inr rand) = Inr m \<and> snd (imm_handler m) = net_handler a \<and>
     na_net_ctl a = Net_Ctl_With_Status (Commissioning Net_Wifi) \<and>
     na_diag a = Net_Ctl_With_Status (Commissioning Net_Wifi)"
  by (intro exI) (auto simp: wifi_gatt_im_def stack_im_def Let_def)

interpretation wifi_models: phase_models Net_Wifi "wifi_phase_im net_handler s t netif q (Inr rand)" net_handler
  for net_handler s t netif q rand
  by unfold_locales (simp only: wifi_phase_im_def ctl_mode.case, rule wifi_gatt_model)

lemma thread_gatt_model:
  "\<exists>m a. thread_gatt_im net_handler s t (Inr rand) = Inr m \<and> snd (imm_handler m) = net_handler a \<and>
     na_net_ctl a = Net_Ctl_With_Status (Commissioning Net_Thread) \<and>
     na_diag a = Net_Ctl_With_Status (Commissioning Net_Thread)"
  by (intro exI) (auto simp: thread_gatt_im_def stack_im_def Let_def)

lemma to_thread_ble:
  "wl_ctl w = Mode_Commissioning Net_Wifi \<Longrightarrow> wl_ctl (to_thread w) = Mode_Commissioning Net_Thread"
  by (simp add: to_thread_def)

interpretation thread_models: phase_models Net_Thread "thread_phase_im net_handler s t netif q (Inr rand) \<circ> to_thread"
    net_handler for net_handler s t netif q rand
  by unfold_locales (simp only: thread_phase_im_def o_apply to_thread_ble ctl_mode.case, rule thread_gatt_model)

text \<open>The run over Thread is the one over Wifi, with the handlers of Thread.\<close>

lemma responder_polled_thread:
  "responder_polled env (to_thread w) ob (to_thread w') = responder_polled env w ob w'"
  by (simp add: responder_polled_def polled_im_def cong: option.case_cong)

lemma served_put_thread: "served_put (to_thread w) y = map_prod to_thread id (served_put w y)"
  by (cases y) (simp add: to_thread_def)

lemma deferred_connect_thread:
  "deferred_connect connect_once ctl (to_thread w) ob x n = deferred_connect connect_once ctl w ob x n"
  by (cases "wl_pc w") (simp_all add: deferred_connect_def)

lemma evaluated_thread:
  "evaluated run_thread connect_once ctl env (to_thread w) x n so =
     map_sum id (map_prod to_thread id) (evaluated run_wifi connect_once ctl env w x n so)"
  by (simp add: evaluated_def Let_def run_thread_step deferred_connect_thread
      split: sum.split option.split prod.split)

lemma served_thread_step:
  "served_step run_thread im serve connect_once ctl env (to_thread w, y) so =
     map_sum id (map_prod to_thread id) (served_step run_wifi (im \<circ> to_thread) serve connect_once ctl env (w, y) so)"
proof (cases y)
  case (Pair x n)
  show ?thesis
  proof (cases "evaluated run_wifi connect_once ctl env w x n so")
    case (Inl r)
    with Pair show ?thesis by (simp add: served_step_def evaluated_thread)
  next
    case (Inr e)
    obtain w' ob z where "e = (w', ob, z)" by (cases e)
    with Inr Pair show ?thesis
      by (simp add: served_step_def evaluated_thread responder_polled_thread served_put_thread split: sum.split)
  qed
qed

lemma served_thread_run:
  "run_ops (served_step run_thread im serve connect_once ctl env) (to_thread w, y) sos =
     map_sum id (map_prod to_thread id)
       (run_ops (served_step run_wifi (im \<circ> to_thread) serve connect_once ctl env) (w, y) sos)"
proof (induction sos arbitrary: w y)
  case Nil
  then show ?case by simp
next
  case (Cons so sos)
  show ?case
  proof (cases "served_step run_wifi (im \<circ> to_thread) serve connect_once ctl env (w, y) so")
    case (Inl r)
    then show ?thesis by (simp add: served_thread_step o_def)
  next
    case (Inr z)
    with Cons.IH [of "fst z" "snd z"] show ?thesis
      by (cases z) (simp add: served_thread_step o_def)
  qed
qed

lemma to_thread_new: "to_thread (wl_state_new st) = wl_state_new st"
  by (simp add: to_thread_def wl_state_new_def)

lemmas served_thread_new = served_thread_run [of _ _ _ _ _ "wl_state_new st" for st, unfolded to_thread_new]

lemma thread_run_Inr:
  assumes "run_ops (served_step run_thread im serve connect_once ctl env) (wl_state_new st, y) sos = Inr (w, z)"
  obtains w' where "run_ops (served_step run_wifi (im \<circ> to_thread) serve connect_once ctl env) (wl_state_new st, y) sos
      = Inr (w', z)" and "w = to_thread w'"
  using assms
  by (cases "run_ops (served_step run_wifi (im \<circ> to_thread) serve connect_once ctl env) (wl_state_new st, y) sos")
    (auto simp: served_thread_new)

end
