(* ===== verification/Requests_Spec.thy ===== *)
theory Requests_Spec
  imports Served_Spec
begin

text \<open>
  The requests of a commissioner over the phases of a run without coexistence, from the BLE phase
  to the driver's interface (\<^verbatim>\<open>src/src/wireless/wifi.rs\<close>, \<^verbatim>\<open>thread.rs\<close>).
\<close>

section \<open>A driver and handlers to evaluate\<close>

text \<open>
  The interface of the driver is the list of the credentials it was connected with; the store is
  the map of its networks. The chain of handlers is its arguments.
\<close>

datatype small_request = Ask_Scan | Ask_Add "8 word list" wireless_creds | Ask_Connect "8 word list"

type_synonym small_world = "(wireless_creds list, 8 word list \<Rightarrow> wireless_creds option, unit) served_world"

definition small_check :: "wireless_creds \<Rightarrow> network_type \<Rightarrow> net_ctl_error + unit" where
  "small_check cr t = Inr ()"

definition small_outcome :: "8 word list \<Rightarrow> net_ctl_error + unit \<Rightarrow> unit net_ctl_state" where
  "small_outcome nid r =
     \<lparr>ncs_network_id = nid, ncs_networking_status = (case r of Inl _ \<Rightarrow> None | Inr _ \<Rightarrow> Some ()),
      ncs_connect_error_value = None\<rparr>"

definition small_connect ::
    "wireless_creds list net_ctl_with_status \<Rightarrow> 8 word list \<Rightarrow> small_world \<Rightarrow> unit res \<times> small_world" where
  "small_connect ctl nid = (\<lambda>(x, n, st).
     case n nid of
       None \<Rightarrow> (Inl NoNetworkInterface, x, n, st)
     | Some cr \<Rightarrow>
         (case nc_connect (q_net_ctl (status_inner small_check ctl)) cr x of
            (Inl p, x') \<Rightarrow> (Inl InvalidAction, x', n, st)
          | (Inr r, x') \<Rightarrow> (map_sum (\<lambda>_. InvalidAction) id r, x', n, small_outcome nid r)))"

fun small_serve ::
    "('m, 'c, 'b, 'h \<times> ('f, wireless_creds list, 'n, 'h, 'r) net_handler_args, 'k, 'i) interaction_model \<Rightarrow>
     small_request \<Rightarrow> small_world \<Rightarrow> small_world" where
  "small_serve m Ask_Scan (x, n, st) =
     (snd (nc_scan (q_net_ctl (status_inner small_check (na_net_ctl (snd (imm_handler m))))) None (\<lambda>_. act_ok ()) x), n, st)"
| "small_serve m (Ask_Add nid cr) (x, n, st) = (x, n(nid \<mapsto> cr), st)"
| "small_serve m (Ask_Connect nid) y = snd (small_connect (na_net_ctl (snd (imm_handler m))) nid y)"

lemma small_connect_connected:
  assumes "n nid = Some cr" and "nc_connect (q_net_ctl (status_inner small_check c)) cr x = (Inr r, x')"
  shows "small_connect c nid (x, n, st) = (map_sum (\<lambda>_. InvalidAction) id r, x', n, small_outcome nid r)"
    and "connected (we_prov_ready sample_env) (\<lambda>n. n) (status_inner small_check c) nid (x, n, st) r
      (x', n, small_outcome nid r)"
  using assms
  by (auto simp: small_connect_def connected_def small_outcome_def sample_env_def split: sum.split)

lemma small_handler_contract:
  "net_handler_contract (\<lambda>a. a) small_serve small_check (we_prov_ready sample_env) (\<lambda>n. n) Ask_Connect"
proof -
  have "fst (small_serve m rq (x, n, st)) = x"
    if "is_passive (status_inner small_check (na_net_ctl (snd (imm_handler m))))" for m rq x n st
    using that
    by (cases rq) (auto simp: is_passive_def passive_net_ctl_def leaves_world_def leaves_with_def small_connect_def
      split: option.split prod.split sum.split, (metis snd_conv)+)
  then show ?thesis
    by (auto simp: net_handler_contract_def small_connect_connected)
qed

lemma small_connect_contract:
  "connect_once_contract small_connect small_check (we_prov_ready sample_env) (\<lambda>n. n)"
  unfolding connect_once_contract_def
  by (intro allI impI exI conjI, erule (1) small_connect_connected(2))
    (auto simp: small_connect_connected(1) split: sum.split)

definition small_driver :: "wireless_creds list controller" where
  "small_driver =
     (let q = as_controller small_check (Commissioning Net_Wifi)
      in q\<lparr>q_net_ctl := (q_net_ctl q)\<lparr>nc_connect := \<lambda>cr x. (Inr (Inr ()), x @ [cr])\<rparr>\<rparr>)"

definition small_stack :: "(unit, unit, unit, unit) mstack" where
  "small_stack =
     stack_new \<lparr>ct_matter = \<lambda>_ _. (), ct_buffers = (), ct_state = (), ct_network = ()\<rparr> 5540 0 16 ()"

definition small_task :: "(unit, unit, unit, unit, unit) stack_wireless_task" where
  "small_task = \<lparr>wt_networks = (), wt_crypto = (), wt_handler = (), wt_kv = (), wt_user_task = ()\<rparr>"

definition small_wifi where
  "small_wifi = wifi_served (\<lambda>a. a) small_serve small_connect small_stack small_task () small_driver () sample_env"

definition asked :: "(window, unit) wl_obs \<Rightarrow> small_request list \<Rightarrow> (window, unit, small_request) served_obs" where
  "asked ob rqs = \<lparr>sv_obs = ob, sv_requests = rqs\<rparr>"

text \<open>Over BLE: a scan, and a network that is added.\<close>

definition ask_before :: "wireless_creds \<Rightarrow> (window, unit, small_request) served_obs list" where
  "ask_before cr =
     [asked (quiet Open_Basic) [], asked (quiet Open_Basic) [], asked (quiet Open_Basic) [Ask_Scan, Ask_Add [1, 2, 3] cr]]"

definition asked_state :: "unit wl_state" where
  "asked_state =
     \<lparr>wl_pc = Ble Act_Wait_Prov Im_Running, wl_net = blank, wl_ctl = Mode_Commissioning Net_Wifi,
      wl_hydration = \<lparr>im_hydrated = True, im_startups = 1\<rparr>\<rparr>"

lemmas small_eval =
  wifi_served_def served_step_def evaluated_def deferred_connect_def asked_def wifi_phase_im_def
  wifi_gatt_im_def stack_im_def responder_polled_def polled_im_def im_of_def wireless_ctl_defs

lemma ask_before_run:
  "run_ops small_wifi (wl_state_new blank, [], \<lambda>_. None) (ask_before cr) = Inr (asked_state, [], [[1, 2, 3] \<mapsto> cr])"
  by (simp add: ask_before_def small_wifi_def small_eval scenario_eval asked_state_def Let_def)

section \<open>The driver over BLE\<close>

text \<open>No evaluation begins in the deferred connect or in the operational phase.\<close>

definition off_driver where
  "off_driver step s sos \<longleftrightarrow>
     (\<forall>k < length sos. \<forall>w y. run_ops step s (take k sos) = Inr (w, y) \<longrightarrow> \<not> driver_phase (wl_pc w))"

text \<open>
  C6. Whatever the commissioner requests over BLE - scans, connects, networks added and removed -
  the driver's interface is left as it is: a run over Wifi or Thread acts on it only in the deferred
  connect and in the operational phase.
\<close>

theorem driver_untouched_over_ble:
  assumes "net_handler_contract net_handler serve check_match ready creds connect_network"
  shows "(run_ops (wifi_served net_handler serve connect_once s t netif q rand env) (wl_state_new st, x, n) sos
        = Inr (w, x', n') \<longrightarrow>
      off_driver (wifi_served net_handler serve connect_once s t netif q rand env) (wl_state_new st, x, n) sos \<longrightarrow>
      x' = x) \<and>
    (run_ops (thread_served net_handler serve connect_once s t netif q rand env) (wl_state_new st, x, n) sos
        = Inr (w, x', n') \<longrightarrow>
      off_driver (thread_served net_handler serve connect_once s t netif q rand env) (wl_state_new st, x, n) sos \<longrightarrow>
      x' = x)"
proof (intro conjI impI)
  assume "run_ops (wifi_served net_handler serve connect_once s t netif q rand env) (wl_state_new st, x, n) sos
      = Inr (w, x', n')"
    and "off_driver (wifi_served net_handler serve connect_once s t netif q rand env) (wl_state_new st, x, n) sos"
  then show "x' = x"
    unfolding wifi_served_def off_driver_def
    by (rule wifi_models.run_leaves_driver [OF assms _ wl_state_new_inv])
next
  let ?im = "thread_phase_im net_handler s t netif q (Inr rand :: unit + _) \<circ> to_thread"
  let ?wifi = "served_step run_wifi ?im serve connect_once (Net_Ctl_With_Status (Operational q)) env"
  assume run: "run_ops (thread_served net_handler serve connect_once s t netif q rand env) (wl_state_new st, x, n) sos
      = Inr (w, x', n')"
    and off: "off_driver (thread_served net_handler serve connect_once s t netif q rand env) (wl_state_new st, x, n) sos"
  from run obtain w' where w': "run_ops ?wifi (wl_state_new st, x, n) sos = Inr (w', x', n')"
    unfolding thread_served_def by (rule thread_run_Inr)
  have "\<not> driver_phase (wl_pc u)"
    if "k < length sos" and "run_ops ?wifi (wl_state_new st, x, n) (take k sos) = Inr (u, y)" for k u y
  proof -
    have "run_ops (thread_served net_handler serve connect_once s t netif q rand env) (wl_state_new st, x, n)
        (take k sos) = Inr (to_thread u, y)"
      using that(2) by (simp add: thread_served_def served_thread_new)
    with off that(1) have "\<not> driver_phase (wl_pc (to_thread u))" unfolding off_driver_def by blast
    then show ?thesis by simp
  qed
  then show "x' = x"
    using thread_models.run_leaves_driver [OF assms w' wl_state_new_inv] by blast
qed

lemma ask_before_off:
  "off_driver small_wifi (wl_state_new blank, [], \<lambda>_. None) (ask_before cr)"
proof -
  have "run_ops small_wifi (wl_state_new blank, [], \<lambda>_. None) (take k (ask_before cr)) = Inr (w, y) \<Longrightarrow>
      \<not> driver_phase (wl_pc w)" if "k < 3" for k w y
  proof -
    from that consider "k = 0" | "k = 1" | "k = 2" by linarith
    then show "run_ops small_wifi (wl_state_new blank, [], \<lambda>_. None) (take k (ask_before cr)) = Inr (w, y) \<Longrightarrow>
      \<not> driver_phase (wl_pc w)"
      by cases (auto simp: ask_before_def small_wifi_def small_eval scenario_eval Let_def numeral_2_eq_2)
  qed
  moreover have "length (ask_before cr) = 3" by (simp add: ask_before_def)
  ultimately show ?thesis unfolding off_driver_def by metis
qed

theorem driver_untouched_over_ble_witness:
  "\<forall>cr. \<exists>x'. run_ops small_wifi (wl_state_new blank, [], \<lambda>_. None) (ask_before cr) =
     Inr (asked_state, x', [[1, 2, 3] \<mapsto> cr]) \<and> x' = []"
  using driver_untouched_over_ble [OF small_handler_contract, THEN conjunct1, rule_format,
      OF ask_before_run [unfolded small_wifi_def] ask_before_off [unfolded small_wifi_def]] ask_before_run by blast

section \<open>From the request to the driver\<close>

lemma thread_lift:
  assumes "run_ops (served_step run_wifi (im \<circ> to_thread) serve connect_once ctl env) (wl_state_new st, y) sos = Inr (w, z)"
  shows "run_ops (served_step run_thread im serve connect_once ctl env) (wl_state_new st, y) sos = Inr (to_thread w, z)"
  using assms by (simp add: served_thread_new)

lemma ble_ctl:
  assumes "run_ops (served_step run_wifi im serve connect_once ctl env) (wl_state_new st, y) sos = Inr (w, z)"
    and "wl_pc w = Ble act i"
  shows "wl_ctl w = Mode_Commissioning Net_Wifi"
proof -
  obtain x n where "y = (x, n)" by (cases y)
  with served_machine.run_inv [OF _ _ assms(1)] wl_state_new_inv [of st] have "wl_inv w"
    by (cases z) simp
  with assms(2) show ?thesis by (simp add: wl_inv_def)
qed

text \<open>
  C5. A \<open>ConnectNetwork\<close> that the commissioner sends over BLE is carried out. For a network of the
  store with credentials of the right type it is answered over BLE, and once the handover is over -
  five evaluations that find what they wait for, among any number of others - the run over Wifi or
  Thread is in its operational phase and the driver's own controller has made one connect, with
  these credentials, on the interface as it was before the request.
\<close>

theorem connect_request_carried_out:
  fixes s t netif rand
  assumes contract: "net_handler_contract net_handler serve check_match (we_prov_ready env) creds connect_network"
    and once: "connect_once_contract connect_once check_match (we_prov_ready env) creds"
    and sel: "select_contract (we_select env)"
    and ob: "handover_obs env (sv_obs so)" and rq: "sv_requests so = [connect_network nid]"
    and cr: "creds n nid = Some cr" and con: "nc_connect (q_net_ctl q) cr x = (Inr (Inr ()), x')"
    and rest: "\<forall>so \<in> set rest. handover_obs env (sv_obs so) \<and> sv_requests so = []"
    and len: "5 \<le> length (filter handover_ready (map sv_obs rest))"
    and pc: "wl_pc w = Ble Act_Wait_Prov Im_Running" and unready: "\<not> we_prov_ready env (wl_net w)"
  defines "wifi \<equiv> wifi_served net_handler serve connect_once s t netif q rand env"
    and "thread \<equiv> thread_served net_handler serve connect_once s t netif q rand env"
  shows "(run_ops wifi (wl_state_new st, x0, n0) before = Inr (w, x, n) \<longrightarrow> check_match cr Net_Wifi = Inr () \<longrightarrow>
      (\<exists>w' im. run_ops wifi (wl_state_new st, x0, n0) (before @ so # rest) = Inr (w', x', n) \<and>
        wl_pc w' = Oper Next_Gone im)) \<and>
    (run_ops thread (wl_state_new st, x0, n0) before = Inr (w, x, n) \<longrightarrow> check_match cr Net_Thread = Inr () \<longrightarrow>
      (\<exists>w' im. run_ops thread (wl_state_new st, x0, n0) (before @ so # rest) = Inr (w', x', n) \<and>
        wl_pc w' = Oper Next_Gone im))"
proof (intro conjI impI)
  assume b: "run_ops wifi (wl_state_new st, x0, n0) before = Inr (w, x, n)" and "check_match cr Net_Wifi = Inr ()"
  from b have "wl_ctl w = Mode_Commissioning Net_Wifi"
    unfolding wifi_def wifi_served_def using pc by (rule ble_ctl)
  from wifi_models.request_carried_out [OF contract once sel ob rq pc this unready cr \<open>check_match cr Net_Wifi = Inr ()\<close> con rest len]
  show "\<exists>w' im. run_ops wifi (wl_state_new st, x0, n0) (before @ so # rest) = Inr (w', x', n) \<and> wl_pc w' = Oper Next_Gone im"
    using b unfolding wifi_def wifi_served_def run_ops_append by fastforce
next
  let ?im = "thread_phase_im net_handler s t netif q (Inr rand :: unit + _)"
  let ?wifi = "served_step run_wifi (?im \<circ> to_thread) serve connect_once (Net_Ctl_With_Status (Operational q)) env"
  assume b: "run_ops thread (wl_state_new st, x0, n0) before = Inr (w, x, n)" and cm: "check_match cr Net_Thread = Inr ()"
  from b obtain w0 where w0: "run_ops ?wifi (wl_state_new st, x0, n0) before = Inr (w0, x, n)" "w = to_thread w0"
    unfolding thread_def thread_served_def by (rule thread_run_Inr)
  then have pc0: "wl_pc w0 = Ble Act_Wait_Prov Im_Running" "\<not> we_prov_ready env (wl_net w0)"
    using pc unready by simp_all
  from thread_models.request_carried_out [OF contract once sel ob rq pc0(1) ble_ctl [OF w0(1) pc0(1)] pc0(2) cr cm con rest len]
  obtain w' im where "run_ops ?wifi (w0, x, n) (so # rest) = Inr (w', x', n)" "wl_pc w' = Oper Next_Gone im" by blast
  moreover from this(1) w0(1) have "run_ops ?wifi (wl_state_new st, x0, n0) (before @ so # rest) = Inr (w', x', n)"
    by (simp only: run_ops_append and_then_simps)
  ultimately show "\<exists>w' im. run_ops thread (wl_state_new st, x0, n0) (before @ so # rest) = Inr (w', x', n) \<and>
      wl_pc w' = Oper Next_Gone im"
    unfolding thread_def thread_served_def by (metis thread_lift to_thread_simps(1))
qed

text \<open>The connect to the network added, and the handover.\<close>

definition ask_rest :: "(window, unit, small_request) served_obs list" where
  "ask_rest = map (\<lambda>ob. asked ob []) handover_sample"

theorem connect_request_carried_out_witness:
  "\<forall>cr. \<exists>w' im. run_ops small_wifi (wl_state_new blank, [], \<lambda>_. None)
       (ask_before cr @ asked (quiet Open_Basic) [Ask_Connect [1, 2, 3]] # ask_rest)
     = Inr (w', [cr], [[1, 2, 3] \<mapsto> cr]) \<and> wl_pc w' = Oper Next_Gone im"
proof
  fix cr
  let ?so = "asked (quiet Open_Basic) [Ask_Connect [1, 2, 3]]"
  have o: "handover_obs sample_env (sv_obs ?so)" "sv_requests ?so = [Ask_Connect [1, 2, 3]]"
    by (simp_all add: asked_def handover_obs_def quiet_def sample_env_def plain_preds_def)
  have c: "[[1, 2, 3 :: 8 word] \<mapsto> cr] [1, 2, 3] = Some cr"
    "nc_connect (q_net_ctl small_driver) cr [] = (Inr (Inr ()), [cr])"
    by (simp_all add: small_driver_def Let_def)
  have r: "\<forall>so \<in> set ask_rest. handover_obs sample_env (sv_obs so) \<and> sv_requests so = []"
    by (simp add: ask_rest_def asked_def handover_sample_def handover_obs_def quiet_def sample_env_def plain_preds_def)
  have l: "5 \<le> length (filter handover_ready (map sv_obs ask_rest))"
    by (simp add: ask_rest_def asked_def handover_sample_def handover_ready_def quiet_def)
  have w: "wl_pc asked_state = Ble Act_Wait_Prov Im_Running" "\<not> we_prov_ready sample_env (wl_net asked_state)"
    by (simp_all add: asked_state_def sample_env_def blank_def)
  show "\<exists>w' im. run_ops small_wifi (wl_state_new blank, [], \<lambda>_. None)
       (ask_before cr @ ?so # ask_rest) = Inr (w', [cr], [[1, 2, 3] \<mapsto> cr]) \<and> wl_pc w' = Oper Next_Gone im"
    using connect_request_carried_out [where n = "[[1, 2, 3] \<mapsto> cr]" and nid = "[1, 2, 3]", OF small_handler_contract small_connect_contract sample_contracts(1) o c r l w,
        THEN conjunct1, rule_format, OF ask_before_run [unfolded small_wifi_def]]
    unfolding small_wifi_def by (simp add: small_check_def)
qed

end
