(* ===== verification/Lock_Refinement.thy ===== *)
theory Lock_Refinement
  imports Concurrent Run_Spec
begin

text \<open>
  Callers that share a stack follow the protocol of the run lock. The evaluations of whole calls
  (\<open>eth_shared\<close>, \<open>wifi_shared\<close>, \<open>thread_shared\<close>) are made of the steps of the lock, the guard, the
  task in the allocator and its boxes (\<open>run_step\<close>), so that what is shown of any interleaving of
  these - the reset finds no box in use, boxes are apart - is true of the calls of
  \<^verbatim>\<open>src/src/eth.rs\<close>, \<^verbatim>\<open>src/src/wireless/wifi.rs\<close> and \<^verbatim>\<open>thread.rs\<close>. The locale \<open>allocating_task\<close> is a
  task that changes the allocator by allocations only, \<open>locked_task\<close> a call that begins with the
  allocation of its task.
\<close>

section \<open>Allocations\<close>

definition allocs_to :: "bump \<Rightarrow> bump \<Rightarrow> bool" where
  "allocs_to b b' \<longleftrightarrow> (\<exists>Ts ps. take_slots reserve Ts b = Inr (ps, b'))"

lemma allocs_to_refl [simp]: "allocs_to b b"
  unfolding allocs_to_def by (rule exI [of _ "[]"]) simp

lemma allocs_to_stack: "stack_alloc Ts s = Inr s' \<Longrightarrow> allocs_to (ms_bump s) (ms_bump s')"
  unfolding allocs_to_def by (auto simp: stack_alloc_Inr site_allocs_def and_then_Inr_iff) blast

lemma allocs_to_hydration:
  "stack_alloc Ts (s\<lparr>ms_hydration := h\<rparr>) = Inr s' \<Longrightarrow> allocs_to (ms_bump s) (ms_bump s')"
  by (drule allocs_to_stack) simp

section \<open>Tasks\<close>

locale allocating_task =
  fixes task :: "('pc, ('m, 'b, 'i, 'n) mstack, ('q, 'st) stack_obs) stack_task"
  assumes task_allocs: "task pc s ob = (r, s') \<Longrightarrow> allocs_to (ms_bump s) (ms_bump s')"
begin

lemma driven:
  assumes "driver_contract drv"
  shows "allocating_task (drv task)"
proof
  fix pc s ob r s'
  assume drv: "drv task pc s ob = (r, s')"
  from assms have "drv task pc s ob = task pc s ob \<or> drv task pc s ob = (Inr pc, s) \<or>
      (\<exists>r. drv task pc s ob = (Inl (Inr r), s))"
    by (simp add: driver_contract_def)
  with drv show "allocs_to (ms_bump s) (ms_bump s')"
    using task_allocs [of pc s ob r s'] by auto
qed

end

text \<open>\<open>starts p\<close>: nothing has been polled yet.\<close>

locale locked_task =
  fixes step :: "('p, ('m, 'b, 'i, 'n) mstack, 'o) stack_task" and starts :: "'p \<Rightarrow> bool"
  assumes first_ended: "starts p \<Longrightarrow> step p s ob = (Inl r, s') \<Longrightarrow> ms_bump s' = ms_bump s"
    and first_pending: "starts p \<Longrightarrow> step p s ob = (Inr p', s') \<Longrightarrow>
      \<not> starts p' \<and> (\<exists>T q. reserve T (ms_bump s) = Inr (q, ms_bump s'))"
    and later_allocs: "\<not> starts p \<Longrightarrow> step p s ob = (x, s') \<Longrightarrow> allocs_to (ms_bump s) (ms_bump s')"
    and later_pending: "\<not> starts p \<Longrightarrow> step p s ob = (Inr p', s') \<Longrightarrow> \<not> starts p'"

definition run_starts :: "'pc run_pc \<Rightarrow> bool" where
  "run_starts p \<longleftrightarrow> p = Run_Start"

lemma one_alloc: "stack_alloc [T] s = Inr s' \<Longrightarrow> \<exists>q. reserve T (ms_bump s) = Inr (q, ms_bump s')"
  by (auto simp: stack_alloc_Inr site_allocs_def and_then_Inr_iff)

context allocating_task
begin

lemma guarded_locked: "locked_task (guarded_run T task start) run_starts"
proof
  show "ms_bump s' = ms_bump s"
    if "run_starts p" "guarded_run T task start p s ob = (Inl r, s')" for p s ob r s'
    using that by (cases p) (auto simp: run_starts_def split: sum.splits)
  show "\<not> run_starts p' \<and> (\<exists>T q. reserve T (ms_bump s) = Inr (q, ms_bump s'))"
    if "run_starts p" "guarded_run T task start p s ob = (Inr p', s')" for p s ob p' s'
    using that one_alloc [of T s s'] by (cases p) (auto simp: run_starts_def split: sum.splits)
  show "allocs_to (ms_bump s) (ms_bump s')"
    if "\<not> run_starts p" "guarded_run T task start p s ob = (x, s')" for p s ob x s'
    using that by (cases p) (auto simp: run_starts_def split: prod.splits sum.splits dest: task_allocs)
  show "\<not> run_starts p'"
    if "\<not> run_starts p" "guarded_run T task start p s ob = (Inr p', s')" for p s ob p' s'
    using that by (cases p) (auto simp: run_starts_def split: prod.splits sum.splits)
qed

end

lemma sum_locked:
  assumes "locked_task t f" and "locked_task u g"
  shows "locked_task (sum_task t u) (case_sum f g)"
proof
  note t = locked_task.first_ended [OF assms(1)] locked_task.first_pending [OF assms(1)]
    locked_task.later_allocs [OF assms(1)] locked_task.later_pending [OF assms(1)]
  note u = locked_task.first_ended [OF assms(2)] locked_task.first_pending [OF assms(2)]
    locked_task.later_allocs [OF assms(2)] locked_task.later_pending [OF assms(2)]
  show "ms_bump s' = ms_bump s" if "case_sum f g p" "sum_task t u p s ob = (Inl r, s')" for p s ob r s'
    using that by (cases p) (auto simp: sum_task_def map_prod_def map_sum_def
        split: prod.splits sum.splits dest: t(1) u(1))
  show "\<not> case_sum f g p' \<and> (\<exists>T q. reserve T (ms_bump s) = Inr (q, ms_bump s'))"
    if "case_sum f g p" "sum_task t u p s ob = (Inr p', s')" for p s ob p' s'
    using that by (cases p) (auto simp: sum_task_def map_prod_def map_sum_def
        split: prod.splits sum.splits dest: t(2) u(2))
  show "allocs_to (ms_bump s) (ms_bump s')"
    if "\<not> case_sum f g p" "sum_task t u p s ob = (x, s')" for p s ob x s'
    using that by (cases p) (auto simp: sum_task_def map_prod_def
        split: prod.splits dest: t(3) u(3))
  show "\<not> case_sum f g p'" if "\<not> case_sum f g p" "sum_task t u p s ob = (Inr p', s')" for p s ob p' s'
    using that by (cases p) (auto simp: sum_task_def map_prod_def map_sum_def
        split: prod.splits sum.splits dest: t(4) u(4))
qed

section \<open>The tasks of the code\<close>

lemma run_im_allocs_to:
  assumes "run_im_with_bump ly F sel im s ob = (r, im', s')"
  shows "allocs_to (ms_bump s) (ms_bump s')"
  using assms
  by (auto simp: run_im_with_bump_def Let_def split: prod.splits if_splits sum.splits dest: allocs_to_hydration)

interpretation eth_allocating: allocating_task "eth_stack_task ly F env" for ly F env
  by unfold_locales
    (auto simp: eth_stack_task_def Let_def split: eth_stack_pc.splits option.splits sum.splits prod.splits
      if_splits dest: allocs_to_stack run_im_allocs_to)

interpretation wifi_coex_allocating: allocating_task "wifi_coex_stack_task ly F env" for ly F env
  by unfold_locales
    (auto simp: wifi_coex_stack_task_def Let_def split: coex_stack_pc.splits option.splits sum.splits
      prod.splits if_splits dest: allocs_to_stack run_im_allocs_to)

interpretation thread_coex_allocating: allocating_task "thread_coex_stack_task ly F env" for ly F env
  unfolding thread_coex_stack_is_wifi by unfold_locales

lemma wl_stack_allocs:
  assumes "wl_stack_task run ly env pc s ob = (r, s')"
  shows "allocs_to (ms_bump s) (ms_bump s')"
  using assms
proof (cases rule: wl_stack_cases)
  case (pending net mdns n w)
  then show ?thesis
    using allocs_to_stack [of "[ly_btp ly]" "wl_put w s" s'] by (simp split: if_splits)
qed simp_all

interpretation wifi_allocating: allocating_task "wifi_stack_task ly env" for ly env
  unfolding wifi_stack_task_wl by unfold_locales (rule wl_stack_allocs)

interpretation thread_allocating: allocating_task "thread_stack_task ly env" for ly env
  unfolding thread_stack_task_wl by unfold_locales (rule wl_stack_allocs)

section \<open>Runs of the lock\<close>

lemma reach_trans: "reachable s ls' s' \<Longrightarrow> reachable s0 ls s \<Longrightarrow> reachable s0 (ls @ ls') s'"
proof (induction rule: reachable.induct)
  case reach_refl
  then show ?case by simp
next
  case (reach_step ms u l v)
  from reachable.reach_step [OF reach_step.IH [OF reach_step.prems] reach_step.hyps(2)] show ?case by simp
qed

lemma reach_one: "run_step l s s' \<Longrightarrow> reachable s [l] s'"
  using reach_step [OF reach_refl] by fastforce

text \<open>The allocations of a running task.\<close>

lemma running_allocs:
  assumes "rl_callers l i = Task_Running" and "take_slots reserve Ts (rl_bump l) = Inr (ps, b)"
  shows "\<exists>ls live. reachable l ls (l\<lparr>rl_bump := b, rl_live := live\<rparr>)"
  using assms
proof (induction Ts arbitrary: l ps)
  case Nil
  then have "l\<lparr>rl_bump := b, rl_live := rl_live l\<rparr> = l" by simp
  then show ?case by (metis reach_refl)
next
  case (Cons T Ts)
  from Cons.prems(2) obtain p b1 qs where r: "reserve T (rl_bump l) = Inr (p, b1)"
    and ts: "take_slots reserve Ts b1 = Inr (qs, b)"
    by (auto simp: and_then_Inr_iff)
  let ?l = "l\<lparr>rl_bump := b1, rl_live := (i, p, T) # rl_live l\<rparr>"
  have "reachable l [L_Alloc i T] ?l"
    by (rule reach_one) (rule run_step.alloc_box [OF Cons.prems(1) r])
  moreover obtain ls live where "reachable ?l ls (?l\<lparr>rl_bump := b, rl_live := live\<rparr>)"
    using Cons.IH [of ?l qs] Cons.prems(1) ts by auto
  ultimately have "reachable l ([L_Alloc i T] @ ls) (?l\<lparr>rl_bump := b, rl_live := live\<rparr>)"
    by (rule reach_trans [rotated])
  then show ?case by auto
qed

lemma running_allocs_to:
  assumes "rl_callers l i = Task_Running" and "allocs_to (rl_bump l) b"
  shows "\<exists>ls live. reachable l ls (l\<lparr>rl_bump := b, rl_live := live\<rparr>)"
  using assms running_allocs unfolding allocs_to_def by blast

text \<open>The end of a call: from the point where its task is gone, and from the task.\<close>

lemma guard_and_unlock:
  assumes "rl_callers l i = Task_Dropped"
  shows "\<exists>ls. reachable l ls (set_caller i Idle (l\<lparr>rl_owner := None, rl_bump := bump_reset (rl_bump l)\<rparr>))"
proof -
  let ?l = "set_caller i Guard_Dropped (l\<lparr>rl_bump := bump_reset (rl_bump l)\<rparr>)"
  have "reachable l [L_Reset i] ?l" by (rule reach_one) (rule run_step.reset [OF assms])
  moreover have "run_step (L_Unlock i) ?l (set_caller i Idle (?l\<lparr>rl_owner := None\<rparr>))"
    by (rule run_step.unlock) simp
  ultimately have "reachable l ([L_Reset i] @ [L_Unlock i]) (set_caller i Idle (?l\<lparr>rl_owner := None\<rparr>))"
    by (rule reach_step [where ls = "[L_Reset i]" for i])
  moreover have "set_caller i Idle (?l\<lparr>rl_owner := None\<rparr>) =
      set_caller i Idle (l\<lparr>rl_owner := None, rl_bump := bump_reset (rl_bump l)\<rparr>)"
    by (simp add: set_caller_def)
  ultimately show ?thesis by auto
qed

lemma drop_and_unlock:
  assumes "rl_callers l i = Task_Running"
  shows "\<exists>ls live. reachable l ls (set_caller i Idle (l\<lparr>rl_owner := None, rl_bump := bump_reset (rl_bump l), rl_live := live\<rparr>))"
proof -
  let ?live = "filter (\<lambda>(j, _). j \<noteq> i) (rl_live l)"
  let ?l = "set_caller i Task_Dropped (l\<lparr>rl_live := ?live\<rparr>)"
  have drop: "reachable l [L_Drop_Task i] ?l" by (rule reach_one) (rule run_step.drop_task [OF assms])
  obtain ls where "reachable ?l ls (set_caller i Idle (?l\<lparr>rl_owner := None, rl_bump := bump_reset (rl_bump ?l)\<rparr>))"
    using guard_and_unlock [of ?l i] by auto
  note run = reach_trans [OF this drop]
  have "set_caller i Idle (?l\<lparr>rl_owner := None, rl_bump := bump_reset (rl_bump ?l)\<rparr>) =
      set_caller i Idle (l\<lparr>rl_owner := None, rl_bump := bump_reset (rl_bump l), rl_live := ?live\<rparr>)"
    by (simp add: set_caller_def)
  from run [unfolded this] show ?thesis by blast
qed

section \<open>The simulation\<close>

fun pc_view :: "('p \<Rightarrow> bool) \<Rightarrow> ('k, 'p, 'o) caller \<Rightarrow> caller_pc" where
  "pc_view starts C_Idle = Idle"
| "pc_view starts (C_Waiting k) = Waiting_Lock"
| "pc_view starts (C_Running k p obs) = (if starts p then Locked else Task_Running)"

definition lock_view ::
    "('p \<Rightarrow> bool) \<Rightarrow> ('k, 'p, 'o, ('m, 'b, 'i, 'n) mstack) shared \<Rightarrow> lock_state \<Rightarrow> bool" where
  "lock_view starts sh l \<longleftrightarrow>
     rl_owner l = sh_owner sh \<and> rl_callers l = (\<lambda>i. pc_view starts (sh_callers sh i)) \<and>
     rl_bump l = ms_bump (sh_stack sh)"

lemma lock_view_over:
  "lock_view starts sh l \<Longrightarrow> ms_bump u = b \<Longrightarrow>
   lock_view starts (call_over i c r u sh) (set_caller i Idle (l\<lparr>rl_owner := None, rl_bump := bump_reset b, rl_live := live\<rparr>))"
  by (auto simp: lock_view_def call_over_def drop_guard_def)

lemma lock_view_running:
  "lock_view starts sh l \<Longrightarrow> sh_callers sh i = C_Running k p obs \<Longrightarrow> \<not> starts p' \<Longrightarrow>
   lock_view starts (sh\<lparr>sh_stack := u, sh_callers := (sh_callers sh)(i := C_Running k p' obs')\<rparr>)
     (set_caller i Task_Running (l\<lparr>rl_bump := ms_bump u, rl_live := live\<rparr>))"
  by (auto simp: lock_view_def)

context locked_task
begin

text \<open>An evaluation of the call that has the lock, and the end of that call where it is.\<close>

lemma poll_simulated:
  assumes view: "lock_view starts sh l" and c: "sh_callers sh i = C_Running k p obs"
    and x: "step p (sh_stack sh) ob = (x, u)"
  shows "\<exists>ls l'. reachable l ls l' \<and>
    (case x of
       Inl r \<Rightarrow> lock_view starts (call_over i (k, obs @ [ob]) (Some r) u sh) l'
     | Inr p' \<Rightarrow> lock_view starts
         (sh\<lparr>sh_stack := u, sh_callers := (sh_callers sh)(i := C_Running k p' (obs @ [ob]))\<rparr>) l')"
proof (cases "starts p")
  case True
  with view c have pc: "rl_callers l i = Locked" and b: "rl_bump l = ms_bump (sh_stack sh)"
    by (simp_all add: lock_view_def)
  let ?g = "set_caller i Guarded l"
  have g: "reachable l [L_Guard i] ?g" by (rule reach_one) (rule run_step.guard [OF pc])
  show ?thesis
  proof (cases x)
    case (Inl r)
    let ?e = "set_caller i Task_Dropped ?g"
    have "run_step (L_Early_Return i) ?g ?e" by (rule run_step.early_return) simp
    from reach_step [OF g this] have e: "reachable l ([L_Guard i] @ [L_Early_Return i]) ?e" .
    obtain ls where "reachable ?e ls (set_caller i Idle (?e\<lparr>rl_owner := None, rl_bump := bump_reset (rl_bump ?e)\<rparr>))"
      using guard_and_unlock [of ?e i] by auto
    note run = reach_trans [OF this e]
    have "ms_bump u = rl_bump ?e" using first_ended [OF True x [unfolded Inl]] b by simp
    from lock_view_over [OF view this, where i = i and c = "(k, obs @ [ob])" and r = "Some r" and live = "rl_live l"] run show ?thesis
      using Inl by (intro exI conjI) (auto simp: set_caller_def)
  next
    case (Inr p')
    from first_pending [OF True x [unfolded Inr]] obtain T q where
      "\<not> starts p'" and q: "reserve T (ms_bump (sh_stack sh)) = Inr (q, ms_bump u)" by blast
    have "run_step (L_Alloc_Task i T) ?g
        (set_caller i Task_Running (?g\<lparr>rl_bump := ms_bump u, rl_live := (i, q, T) # rl_live ?g\<rparr>))"
      by (rule run_step.alloc_task) (simp_all add: b q)
    note run = reach_step [OF g this]
    from lock_view_running [OF view c \<open>\<not> starts p'\<close>, where u = u and obs' = "obs @ [ob]" and live = "(i, q, T) # rl_live l"] run show ?thesis
      using Inr by (intro exI conjI) (auto simp: set_caller_def)
  qed
next
  case False
  with view c have pc: "rl_callers l i = Task_Running" and b: "rl_bump l = ms_bump (sh_stack sh)"
    by (simp_all add: lock_view_def)
  from later_allocs [OF False x] running_allocs_to [OF pc] b obtain ls live where
    al: "reachable l ls (l\<lparr>rl_bump := ms_bump u, rl_live := live\<rparr>)" (is "reachable _ _ ?a") by metis
  show ?thesis
  proof (cases x)
    case (Inl r)
    obtain ms live' where "reachable ?a ms
        (set_caller i Idle (?a\<lparr>rl_owner := None, rl_bump := bump_reset (rl_bump ?a), rl_live := live'\<rparr>))"
      using drop_and_unlock [of ?a i] pc by auto
    note run = reach_trans [OF this al]
    from lock_view_over [OF view refl, where u = u and i = i and c = "(k, obs @ [ob])" and r = "Some r" and live = live'] run show ?thesis
      using Inl by (intro exI conjI) auto
  next
    case (Inr p')
    have "set_caller i Task_Running ?a = ?a" using pc by (simp add: set_caller_def fun_upd_idem)
    with lock_view_running [OF view c later_pending [OF False x [unfolded Inr]], where u = u and obs' = "obs @ [ob]" and live = live] al
    show ?thesis using Inr by (intro exI conjI) auto
  qed
qed

lemma drop_simulated:
  assumes view: "lock_view starts sh l" and c: "sh_callers sh i = C_Running k p obs" and "lock_inv l"
  shows "\<exists>ls l'. reachable l ls l' \<and> lock_view starts (call_over i (k, obs) None (sh_stack sh) sh) l'"
proof (cases "starts p")
  case True
  with view c have pc: "rl_callers l i = Locked" and b: "rl_bump l = ms_bump (sh_stack sh)"
    by (simp_all add: lock_view_def)
  then have "rl_owner l = Some i" using lock_owner [OF assms(3), of i] by simp
  with assms(3) pc have "b_offset (rl_bump l) = 0" by (simp add: lock_inv_def arena_fresh_def)
  then have reset: "bump_reset (rl_bump l) = rl_bump l" by (simp add: bump_reset_def)
  have "reachable l [L_Cancel_Locked i] (set_caller i Idle (l\<lparr>rl_owner := None\<rparr>))"
    by (rule reach_one) (rule run_step.cancel_locked [OF pc])
  moreover have "l\<lparr>rl_owner := None, rl_bump := rl_bump l, rl_live := rl_live l\<rparr> = l\<lparr>rl_owner := None\<rparr>" by simp
  ultimately show ?thesis
    using lock_view_over [OF view b [symmetric], where i = i and c = "(k, obs)" and r = None and live = "rl_live l"] unfolding reset by auto
next
  case False
  with view c have pc: "rl_callers l i = Task_Running" and b: "rl_bump l = ms_bump (sh_stack sh)"
    by (simp_all add: lock_view_def)
  from drop_and_unlock [OF pc] lock_view_over [OF view b [symmetric], where i = i and c = "(k, obs)" and r = None] show ?thesis by blast
qed

end

lemma step_simulated:
  assumes locked: "\<And>k. locked_task (step k) starts" and start: "\<And>k. starts (start k)"
    and view: "lock_view starts sh l" and inv: "lock_inv l" and st: "shared_step step start sh ev = Inr sh'"
  shows "\<exists>ls l'. reachable l ls l' \<and> lock_view starts sh' l'"
proof (cases ev)
  case (Ev_Call i k)
  with st view have "rl_callers l i = Idle" and sh': "sh' = sh\<lparr>sh_callers := (sh_callers sh)(i := C_Waiting k)\<rparr>"
    by (auto simp: lock_view_def split: caller.splits)
  from reach_one [OF run_step.call [OF this(1)]] show ?thesis
    using view by (intro exI conjI) (auto simp: lock_view_def sh')
next
  case (Ev_Lock i)
  with st obtain k where k: "sh_callers sh i = C_Waiting k" "sh_owner sh = None"
    "sh' = sh\<lparr>sh_owner := Some i, sh_callers := (sh_callers sh)(i := C_Running k (start k) [])\<rparr>"
    by (auto split: caller.splits if_splits)
  with view have "rl_callers l i = Waiting_Lock" "rl_owner l = None" by (simp_all add: lock_view_def)
  from reach_one [OF run_step.acquire [OF this]] show ?thesis
    using view start by (intro exI conjI) (auto simp: lock_view_def k(3))
next
  case (Ev_Poll i ob)
  with st obtain k p obs where c: "sh_callers sh i = C_Running k p obs" by (auto split: caller.splits)
  obtain x u where x: "step k p (sh_stack sh) ob = (x, u)" by fastforce
  from locked_task.poll_simulated [OF locked view c x] st Ev_Poll c x show ?thesis
    by (cases x) auto
next
  case (Ev_Drop i)
  show ?thesis
  proof (cases "sh_callers sh i")
    case C_Idle
    with st Ev_Drop show ?thesis by simp
  next
    case (C_Waiting k)
    with st Ev_Drop have sh': "sh' = sh\<lparr>sh_callers := (sh_callers sh)(i := C_Idle)\<rparr>" by simp
    from C_Waiting view have "rl_callers l i = Waiting_Lock" by (simp add: lock_view_def)
    from reach_one [OF run_step.cancel_wait [OF this]] show ?thesis
      using view by (intro exI conjI) (auto simp: lock_view_def sh')
  next
    case (C_Running k p obs)
    from locked_task.drop_simulated [OF locked view C_Running inv] st Ev_Drop C_Running show ?thesis by auto
  qed
qed

lemma run_simulated:
  assumes locked: "\<And>k. locked_task (step k) starts" and start: "\<And>k. starts (start k)"
  shows "run_ops (shared_step step start) sh evs = Inr sh' \<Longrightarrow> lock_view starts sh l \<Longrightarrow> lock_inv l \<Longrightarrow>
    \<exists>ls l'. reachable l ls l' \<and> lock_view starts sh' l'"
proof (induction evs arbitrary: sh l)
  case Nil
  then show ?case by (metis reach_refl run_ops.simps(1) sum.inject(2))
next
  case (Cons ev evs)
  then obtain sh1 where st: "shared_step step start sh ev = Inr sh1" "run_ops (shared_step step start) sh1 evs = Inr sh'"
    by (auto simp: and_then_Inr_iff)
  from step_simulated [OF locked start Cons.prems(2,3) st(1)] obtain ls l1 where
    l1: "reachable l ls l1" "lock_view starts sh1 l1" by blast
  from Cons.IH [OF st(2) l1(2) reachable_inv [OF l1(1) Cons.prems(3)]] show ?case
    using reach_trans l1(1) by blast
qed

lemma calls_simulated:
  assumes "\<And>k. locked_task (step k) starts" and "\<And>k. starts (start k)"
    and "base + N \<le> usize_max" and "ms_bump s0 = bump_new base N"
    and "run_ops (shared_step step start) (shared_new s0) evs = Inr sh"
  shows "\<exists>ls l. reachable (lock_init base N) ls l \<and> lock_view starts sh l"
proof -
  have "lock_view starts (shared_new s0) (lock_init base N)"
    using assms(4) by (simp add: lock_view_def shared_new_def lock_init_def)
  from run_simulated [OF assms(1,2,5) this lock_inv_init [OF assms(3)]] show ?thesis .
qed

lemmas call_locks =
  allocating_task.guarded_locked [OF allocating_task.driven [OF eth_allocating.allocating_task_axioms]]
  allocating_task.guarded_locked [OF allocating_task.driven [OF wifi_coex_allocating.allocating_task_axioms]]
  allocating_task.guarded_locked [OF allocating_task.driven [OF thread_coex_allocating.allocating_task_axioms]]
  allocating_task.guarded_locked [OF wifi_allocating.allocating_task_axioms]
  allocating_task.guarded_locked [OF thread_allocating.allocating_task_axioms]

lemma wireless_start_starts: "case_sum run_starts run_starts (wireless_start k)"
  by (cases k) (simp_all add: run_starts_def)

text \<open>
  C4. The calls on a shared stack follow the protocol of the run lock. On a stack over a new
  arena, with any driver that leaves the stack to the task, whatever callers there are and however
  their evaluations interleave: what has happened is a run of the lock, the guard and the boxes, in
  which each caller is where it is here, the same call owns the lock, and the allocator is the same.
  So whenever a guard has reset the allocator no box was in use, and boxes in use were apart.
\<close>

theorem calls_follow_lock:
  assumes "driver_contract ethernet" and "driver_contract wifi" and "driver_contract thread"
    and "base + N \<le> usize_max" and "ms_bump s0 = bump_new base N" and "ms_bump w0 = bump_new base N"
  shows "(run_ops (eth_shared ethernet ly F env) (shared_new s0) evs = Inr sh \<longrightarrow>
      (\<exists>ls l. reachable (lock_init base N) ls l \<and> lock_view run_starts sh l)) \<and>
    (run_ops (wifi_shared wifi ly F env) (shared_new w0) wevs = Inr wh \<longrightarrow>
      (\<exists>ls l. reachable (lock_init base N) ls l \<and> lock_view (case_sum run_starts run_starts) wh l)) \<and>
    (run_ops (thread_shared thread ly F env) (shared_new w0) wevs = Inr th \<longrightarrow>
      (\<exists>ls l. reachable (lock_init base N) ls l \<and> lock_view (case_sum run_starts run_starts) th l))"
proof (intro conjI impI)
  assume "run_ops (eth_shared ethernet ly F env) (shared_new s0) evs = Inr sh"
  from this [unfolded eth_shared_def] show "\<exists>ls l. reachable (lock_init base N) ls l \<and> lock_view run_starts sh l"
    by (rule calls_simulated [OF _ _ assms(4,5), rotated 2])
      (unfold eth_run_def run_ethernet_def, intro call_locks assms, simp add: run_starts_def)
next
  assume "run_ops (wifi_shared wifi ly F env) (shared_new w0) wevs = Inr wh"
  from this [unfolded wifi_shared_def]
  show "\<exists>ls l. reachable (lock_init base N) ls l \<and> lock_view (case_sum run_starts run_starts) wh l"
    by (rule calls_simulated [OF _ _ assms(4,6), rotated 2])
      (unfold wifi_run_def wifi_run_coex_def run_wifi_coex_def, intro sum_locked call_locks assms,
        rule wireless_start_starts)
next
  assume "run_ops (thread_shared thread ly F env) (shared_new w0) wevs = Inr th"
  from this [unfolded thread_shared_def]
  show "\<exists>ls l. reachable (lock_init base N) ls l \<and> lock_view (case_sum run_starts run_starts) th l"
    by (rule calls_simulated [OF _ _ assms(4,6), rotated 2])
      (unfold thread_run_def thread_run_coex_def run_thread_coex_def, intro sum_locked call_locks assms,
        rule wireless_start_starts)
qed

theorem calls_follow_lock_witness:
  "\<exists>sh ls l. run_ops (wifi_shared preex_wireless byte_layouts {} sample_env) (shared_new (unit_stack 20))
       two_callers = Inr sh \<and>
     reachable (lock_init (b_base (ms_bump (unit_stack 20))) 20) ls l \<and>
     lock_view (case_sum run_starts run_starts) sh l"
proof -
  from two_callers_run obtain sh where
    sh: "run_ops (wifi_shared preex_wireless byte_layouts {} sample_env) (shared_new (unit_stack 20))
       two_callers = Inr sh" by blast
  have b: "ms_bump (unit_stack 20) = bump_new (b_base (ms_bump (unit_stack 20))) 20"
    "b_base (ms_bump (unit_stack 20)) + 20 \<le> usize_max"
    by (simp_all add: unit_stack_def bump_new_def usize_max_def)
  from calls_follow_lock [OF preexisting_contract(1,2,2) b(2,1,1)] sh show ?thesis by blast
qed

end
