(* ===== verification/Results_Spec.thy ===== *)
theory Results_Spec
  imports Calls_Spec
begin

text \<open>
  How a call on the stack ends. The result of a call is one that a future awaited by its tasks has
  reported, and the failures of the mDNS responder are never among them; a run without
  coexistence does not return without an error. An operational phase over a network stack that
  does not offer UDP panics; nothing else makes a run panic in this way.
\<close>

section \<open>What an evaluation reports\<close>

text \<open>
  The errors that the futures awaited in an evaluation return: the reset of the transport,
  \<open>weak_rand\<close>, binding the socket, the transport, enumerating the interfaces, the BLE peripheral and
  the transport over it, the deferred connect, the interaction model and the user's task. The
  result of the mDNS responder is not one of them.
\<close>

definition task_errors :: "('q, 'st) stack_obs \<Rightarrow> error set" where
  "task_errors ob =
     (let w = so_obs ob; n = so_nets ob; m = ob_im w
      in {e. ob_rand w = Some e \<or>
             (\<exists>x. on_bind (nb_net n) = Some (Inl x) \<and> e = udp_map_err x) \<or>
             snd (no_netifs (nb_netif n)) = Inl e \<or>
             Some (Inl e) \<in> {on_transport (nb_net n), ob_peripheral w, ob_btp_net w, ob_connect w,
               io_startup m, io_responder m, io_run m, ob_user w}})"

definition reported_errors :: "('q, 'st) stack_obs \<Rightarrow> error set" where
  "reported_errors ob = {e. so_reset_transport ob = Inl e} \<union> task_errors ob"

text \<open>The futures that end a run without an error by ending without one.\<close>

definition task_done :: "('q, 'st) stack_obs \<Rightarrow> bool" where
  "task_done ob \<longleftrightarrow>
     Some (Inr ()) \<in> {on_transport (nb_net (so_nets ob)), io_responder (ob_im (so_obs ob)),
       io_run (ob_im (so_obs ob)), ob_user (so_obs ob)}"

fun reported :: "bool \<Rightarrow> ('q, 'st) stack_obs \<Rightarrow> unit res \<Rightarrow> bool" where
  "reported may_end ob (Inl e) \<longleftrightarrow> e \<in> task_errors ob"
| "reported may_end ob (Inr _) \<longleftrightarrow> may_end \<and> task_done ob"

lemma poll_nets_reported:
  assumes "select_contract sel" and "poll_nets sel b n ob = Inr (net, mdns, n')"
  shows "net = Some r \<Longrightarrow> (\<exists>x. on_bind (nb_net ob) = Some (Inl x) \<and> r = Inl (udp_map_err x)) \<or>
      on_transport (nb_net ob) = Some r"
    and "mdns = Some r \<Longrightarrow> \<exists>e. r = Inl e \<and> snd (no_netifs (nb_netif ob)) = Inl e"
proof -
  show "net = Some r \<Longrightarrow> (\<exists>x. on_bind (nb_net ob) = Some (Inl x) \<and> r = Inl (udp_map_err x)) \<or>
      on_transport (nb_net ob) = Some r"
    using assms(2)
    by (auto simp: poll_nets_def poll_net_task_def poll_oper_net_def poll_bind_def and_then_Inr_iff
        split: if_splits oper_net_pc.splits option.splits sum.splits
        dest!: select_contract_Some [OF assms(1)])
  show "mdns = Some r \<Longrightarrow> \<exists>e. r = Inl e \<and> snd (no_netifs (nb_netif ob)) = Inl e"
    using poll_nets_mdns(2) [OF assms(2)] by (auto dest: netif_task_end)
qed

lemma nets_reported:
  assumes "select_contract (we_select env)"
    and "poll_nets (we_select env) b n (so_nets ob) = Inr (net, mdns, n')"
  shows "net = Some r \<Longrightarrow> reported True ob r" and "mdns = Some r \<Longrightarrow> reported m ob r"
  using poll_nets_reported [OF assms, of r]
  by (cases r; auto simp: task_errors_def task_done_def Let_def)+

lemma run_im_reported:
  assumes "select_contract sel" and "run_im sel im h (ob_im (so_obs ob)) = (Some r, im', h')"
  shows "reported True ob r"
proof -
  let ?m = "ob_im (so_obs ob)"
  from assms(2) have "(\<exists>e. r = Inl e \<and> io_startup ?m = Some (Inl e)) \<or> sel [io_responder ?m, io_run ?m] = Some r"
    by (cases im) (auto simp: poll_im_startup_def poll_im_running_def split: prod.splits bool.splits
        option.splits sum.splits)
  then show ?thesis
    using select_contract_Some [OF assms(1), of "[io_responder ?m, io_run ?m]" r]
    by (cases r) (auto simp: task_errors_def task_done_def Let_def)
qed

lemma im_bump_reported:
  assumes "select_contract sel" and "run_im_with_bump ly F sel im s ob = (Inr (Some r), im', s')"
  shows "reported True ob r"
proof -
  obtain x j h where im: "run_im sel im (ms_hydration s) (ob_im (so_obs ob)) = (x, j, h)"
    by (rule prod_cases3)
  with assms(2) have "x = Some r"
    by (auto simp: run_im_with_bump_def Let_def split: if_splits sum.splits)
  with run_im_reported [OF assms(1)] im show ?thesis by blast
qed

lemma user_reported: "ob_user (so_obs ob) = Some r \<Longrightarrow> reported True ob r"
  by (cases r) (simp_all add: task_errors_def task_done_def Let_def)

text \<open>A task whose results are all reported ones.\<close>

definition reporting ::
    "bool \<Rightarrow> ('pc, 's, ('q, 'st) stack_obs) stack_task \<Rightarrow> bool" where
  "reporting may_end task \<longleftrightarrow>
     (\<forall>pc s ob r s'. task pc s ob = (Inl (Inr r), s') \<longrightarrow> reported may_end ob r)"

section \<open>The tasks of the code\<close>

lemma eth_reporting:
  assumes sel: "select_contract (we_select env)"
  shows "reporting True (eth_stack_task ly F env)"
  unfolding reporting_def
proof (intro allI impI)
  fix pc s ob r s' assume run: "eth_stack_task ly F env pc s ob = (Inl (Inr r), s')"
  show "reported True ob r"
  proof (cases pc)
    case Eth_Begin
    with run show ?thesis
      by (auto simp: eth_stack_task_def task_errors_def Let_def split: option.splits sum.splits)
  next
    case (Eth_Tasks n im)
    obtain net mdns n' where nets: "poll_nets (we_select env) (we_udp env) n (so_nets ob) = Inr (net, mdns, n')"
      using run Eth_Tasks by (cases "poll_nets (we_select env) (we_udp env) n (so_nets ob)")
        (auto simp: eth_stack_task_def)
    obtain x im' t where im: "run_im_with_bump ly F (we_select env) im s ob = (x, im', t)" by (rule prod_cases3)
    from run Eth_Tasks nets im consider "we_select env [net, mdns, None, None] = Some r"
      | y where "x = Inr y" "we_select env [net, mdns, y, ob_user (so_obs ob)] = Some r"
      by (auto simp: eth_stack_task_def Let_def split: if_splits option.splits sum.splits)
    then show ?thesis
    proof cases
      case 1
      then show ?thesis using nets_reported [OF sel nets] by (auto dest!: select_contract_Some [OF sel])
    next
      case (2 y)
      then show ?thesis using nets_reported [OF sel nets] im_bump_reported [OF sel] im user_reported [OF sym]
        by (auto dest!: select_contract_Some [OF sel])
    qed
  qed
qed

lemma gatt_reported:
  assumes "select_contract sel"
    and "run_gatt_while_ble_commissionable sel wp g (ob_window (so_obs ob), ob_peripheral (so_obs ob)) = Inl r"
  shows "reported m ob r"
  using gatt_step_end [OF assms] by (auto simp: task_errors_def Let_def)

lemma coex_reporting:
  assumes sel: "select_contract (we_select env)"
  shows "reporting True (wifi_coex_stack_task ly F env)"
  unfolding reporting_def
proof (intro allI impI)
  fix pc s ob r s' assume run: "wifi_coex_stack_task ly F env pc s ob = (Inl (Inr r), s')"
  show "reported True ob r"
  proof (cases pc)
    case Coex_Begin
    with run show ?thesis
      by (auto simp: wifi_coex_stack_task_def task_errors_def Let_def split: option.splits sum.splits)
  next
    case (Coex_Tasks n g im)
    obtain net mdns n' where nets: "poll_nets (we_select env) (we_udp env) n (so_nets ob) = Inr (net, mdns, n')"
      using run Coex_Tasks by (cases "poll_nets (we_select env) (we_udp env) n (so_nets ob)")
        (auto simp: wifi_coex_stack_task_def)
    let ?ob = "(so_obs ob)\<lparr>ob_oper_net := net, ob_mdns := mdns\<rparr>"
    have btp: "reported True ob x" if "run_btp_coex env g ?ob = Inl x" for x
      using that nets_reported [OF sel nets] gatt_reported [OF sel]
      by (auto simp: run_btp_coex_def Let_def split: option.splits sum.splits
          dest!: select_contract_Some [OF sel])
    obtain x im' t where im: "run_im_with_bump ly F (we_select env) im s ob = (x, im', t)" by (rule prod_cases3)
    let ?net = "case run_btp_coex env g ?ob of Inl r \<Rightarrow> Some r | Inr _ \<Rightarrow> None"
    from run Coex_Tasks nets im consider "we_select env [?net, None, None] = Some r"
      | y where "x = Inr y" "we_select env [?net, y, ob_user (so_obs ob)] = Some r"
      by (auto simp: wifi_coex_stack_task_def Let_def split: if_splits option.splits sum.splits)
    then show ?thesis
      using btp im_bump_reported [OF sel] im user_reported [OF sym]
      by cases (auto dest!: select_contract_Some [OF sel] split: sum.splits)
  qed
qed

lemma thread_coex_reporting:
  "select_contract (we_select env) \<Longrightarrow> reporting True (thread_coex_stack_task ly F env)"
  unfolding thread_coex_stack_is_wifi by (rule coex_reporting)

lemma btp_reported:
  assumes sel: "select_contract (we_select env)"
    and "run_btp (we_select env) (we_window env) act (btp_obs_of env ob' w) = Inl (Inl e)"
    and "ob_peripheral ob' = ob_peripheral (so_obs ob)" and "ob_btp_net ob' = ob_btp_net (so_obs ob)"
  shows "e \<in> task_errors ob"
proof -
  let ?o = "btp_obs_of env ob' w"
  obtain c d where "we_select env [bo_peripheral ?o, bo_transport ?o, c, d] = Some (Inl e)"
    and "c \<in> {None, Some (Inr ())}" and "d \<in> {None, Some (Inr ())}"
    using assms(2) by (cases act) (auto simp: run_btp_def Let_def split: option.splits if_splits sum.splits)
  with assms(3,4) show ?thesis
    by (auto simp: task_errors_def Let_def btp_obs_of_def dest!: select_contract_Some [OF sel])
qed

lemma phase_obs_simps [simp]:
  "ob_window (phase_obs ob net mdns) = ob_window (so_obs ob)"
  "ob_rand (phase_obs ob net mdns) = ob_rand (so_obs ob)"
  "ob_peripheral (phase_obs ob net mdns) = ob_peripheral (so_obs ob)"
  "ob_btp_net (phase_obs ob net mdns) = ob_btp_net (so_obs ob)"
  "ob_connect (phase_obs ob net mdns) = ob_connect (so_obs ob)"
  "ob_user (phase_obs ob net mdns) = ob_user (so_obs ob)"
  "ob_im (phase_obs ob net mdns) = ob_im (so_obs ob)"
  "ob_oper_net (phase_obs ob net mdns) = net"
  "ob_mdns (phase_obs ob net mdns) = mdns"
  by (simp_all add: phase_obs_def)

lemma run_wifi_reported:
  assumes sel: "select_contract (we_select env)" and run: "run_wifi env w (phase_obs ob net mdns) = Inl (Inl e)"
    and net: "net = Some (Inl e) \<Longrightarrow> e \<in> task_errors ob" and mdns: "mdns = Some (Inl e) \<Longrightarrow> e \<in> task_errors ob"
  shows "e \<in> task_errors ob"
proof -
  let ?o = "phase_obs ob net mdns"
  let ?w = "apply_update ?o w"
  have im: "e \<in> task_errors ob" if "run_im (we_select env) im h (ob_im (so_obs ob)) = (Some (Inl e), im', h')"
    for im h im' h'
    using run_im_reported [OF sel that] by simp
  show ?thesis
  proof (cases "wl_pc w")
    case (Ble act pc)
    obtain x im' h' where x: "run_im (we_select env) pc (wl_hydration w) (ob_im (so_obs ob)) = (x, im', h')"
      by (rule prod_cases3)
    let ?btp = "run_btp (we_select env) (we_window env) act (btp_obs_of env ?o ?w)"
    from run Ble x have "we_select env [case ?btp of Inl r \<Rightarrow> Some r | Inr _ \<Rightarrow> None, x] = Some (Inl e)"
      by (auto simp: run_wifi_cases wifi_gatt_poll_def Let_def split: option.splits sum.splits)
    from select_contract_Some [OF sel this] have "?btp = Inl (Inl e) \<or> x = Some (Inl e)"
      by (auto split: sum.splits)
    with x im btp_reported [OF sel, of act ?o ?w e ob] show ?thesis by auto
  next
    case (Oper nx pc)
    obtain x im' h' where x: "run_im (we_select env) pc (wl_hydration w) (ob_im (so_obs ob)) = (x, im', h')"
      by (rule prod_cases3)
    let ?oper = "we_select env [net, mdns, x, ob_user (so_obs ob)]"
    obtain c where "we_select env [?oper, c] = Some (Inl e)" and "c \<in> {None, Some (Inr ())}"
      using run Oper x
      by (cases "wait_next_comm_window (we_window env) nx (ob_window (so_obs ob))")
        (auto simp: run_wifi_cases wifi_task_poll_def Let_def split: option.splits sum.splits)
    from select_contract_Some [OF sel this(1)] this(2) have "?oper = Some (Inl e)" by auto
    from select_contract_Some [OF sel this] x net mdns im user_reported [OF sym, of "Inl e" ob] show ?thesis
      by auto
  qed (use run in \<open>auto simp: run_wifi_cases run_wifi_head_def wifi_gatt_start_def wifi_task_start_def
      wifi_task_connect_def wifi_task_build_def task_errors_def Let_def
      split: if_splits option.splits sum.splits\<close>)
qed

lemma wl_reporting:
  assumes sel: "select_contract (we_select env)"
  shows "reporting False (wl_stack_task run_wifi ly env)"
  unfolding reporting_def
proof (intro allI impI)
  fix pc s ob r s' assume "wl_stack_task run_wifi ly env pc s ob = (Inl (Inr r), s')"
  then show "reported False ob r"
  proof (cases rule: wl_stack_cases)
    case (ended net mdns n x)
    from run_wifi_end [OF ended(2)] obtain e where e: "x = Inl e" by blast
    have "(net = None \<and> mdns = None) \<or>
        poll_nets (we_select env) (we_udp env) (snd pc) (so_nets ob) = Inr (net, mdns, n)"
      using ended(1) by (auto simp: poll_phase_nets_def split: wl_pc.splits)
    then have "net = Some (Inl e) \<Longrightarrow> e \<in> task_errors ob" "mdns = Some (Inl e) \<Longrightarrow> e \<in> task_errors ob"
      using nets_reported [OF sel, of "we_udp env" "snd pc" ob net mdns n "Inl e"] by auto
    from run_wifi_reported [OF sel ended(2) [unfolded e] this] ended(3) e show ?thesis by simp
  qed simp_all
qed

section \<open>The results of calls\<close>

definition outcome_reported :: "bool \<Rightarrow> ('q, 'st) stack_obs list \<Rightarrow> unit res \<Rightarrow> bool" where
  "outcome_reported may_end obs r \<longleftrightarrow>
     (case r of
        Inl e \<Rightarrow> \<exists>ob \<in> set obs. e \<in> reported_errors ob
      | Inr _ \<Rightarrow> may_end \<and> (\<exists>ob \<in> set obs. task_done ob))"

lemma future_reported:
  assumes "reporting m task"
  shows "run_future task pc s obs = (Inl (Inr r), s') \<Longrightarrow> \<exists>ob \<in> set obs. reported m ob r"
proof (induction obs arbitrary: pc s)
  case Nil
  then show ?case by simp
next
  case (Cons ob obs)
  obtain x t where st: "task pc s ob = (x, t)" by fastforce
  show ?case
  proof (cases x)
    case (Inl y)
    with Cons.prems st have "task pc s ob = (Inl (Inr r), t)" by simp
    with assms have "reported m ob r" unfolding reporting_def by blast
    then show ?thesis by simp
  next
    case (Inr pc')
    with Cons st show ?thesis by auto
  qed
qed

lemma call_reported:
  assumes "reporting m task" and "fst (call_run (guarded_run T task start) s obs) = Some (Inr r)"
  shows "outcome_reported m obs r"
proof (cases obs)
  case Nil
  with assms(2) show ?thesis by (simp add: call_guarded)
next
  case (Cons ob os)
  show ?thesis
  proof (cases "so_reset_transport ob")
    case (Inl e)
    with assms(2) Cons have "r = Inl e" by (simp add: call_guarded)
    with Inl Cons show ?thesis by (simp add: outcome_reported_def reported_errors_def)
  next
    case (Inr u)
    then obtain t where t: "stack_alloc [T] s = Inr t"
      using assms(2) Cons by (cases "stack_alloc [T] s") (simp_all add: call_guarded)
    obtain x t' where x: "run_future task start t os = (x, t')" by fastforce
    with assms(2) Cons Inr t have "x = Inl (Inr r)" by (cases x) (simp_all add: call_guarded)
    with future_reported [OF assms(1)] x obtain o' where o': "o' \<in> set os" "reported m o' r" by blast
    then show ?thesis
      by (cases r) (auto simp: outcome_reported_def reported_errors_def Cons)
  qed
qed

text \<open>
  C9. What a call returns was reported to it. Over a driver for an interface that is up, a call of
  \<open>run\<close> over Ethernet or of \<open>run_coex\<close> over Wifi or Thread that returns an error returns one that a
  future it awaited has reported - none is made up, and a failure of the mDNS responder, which is
  retried, is never one of them - and it returns without an error only when the operational
  transport, the responder or the loop of the interaction model, or the user's task has ended so. A
  call of \<open>run\<close> over Wifi or Thread never returns without an error: when the tasks of a phase end
  without one, it goes on to the next phase.
\<close>

theorem call_results_reported:
  assumes "select_contract (we_select env)"
  shows "(fst (eth_call preex_ethernet ly F env obs s) = Some (Inr r) \<longrightarrow> outcome_reported True obs r) \<and>
    (fst (wifi_call preex_wireless ly F env (Call_Run_Coex obs) w) = Some (Inr r) \<longrightarrow> outcome_reported True obs r) \<and>
    (fst (thread_call preex_wireless ly F env (Call_Run_Coex obs) w) = Some (Inr r) \<longrightarrow> outcome_reported True obs r) \<and>
    (fst (wifi_call preex_wireless ly F env (Call_Run obs) w) = Some (Inr r) \<longrightarrow> outcome_reported False obs r) \<and>
    (fst (thread_call preex_wireless ly F env (Call_Run obs) w) = Some (Inr r) \<longrightarrow> outcome_reported False obs r)"
proof (intro conjI impI)
  note rest = eth_call_def eth_run_def run_ethernet_def preex_ethernet_def wifi_call_def thread_call_def
    wifi_run_coex_def run_wifi_coex_def thread_run_coex_def run_thread_coex_def preex_wireless_def
    wifi_run_def wifi_stack_task_wl
  show "outcome_reported True obs r" if "fst (eth_call preex_ethernet ly F env obs s) = Some (Inr r)"
    using call_reported [OF eth_reporting [OF assms]] that by (simp add: rest)
  show "outcome_reported True obs r"
    if "fst (wifi_call preex_wireless ly F env (Call_Run_Coex obs) w) = Some (Inr r)"
    using call_reported [OF coex_reporting [OF assms]] that by (simp add: rest)
  show "outcome_reported True obs r"
    if "fst (thread_call preex_wireless ly F env (Call_Run_Coex obs) w) = Some (Inr r)"
    using call_reported [OF thread_coex_reporting [OF assms]] that by (simp add: rest)
  show run: "outcome_reported False obs r"
    if "fst (wifi_call preex_wireless ly F env (Call_Run obs) w) = Some (Inr r)"
    using call_reported [OF wl_reporting [OF assms]] that by (simp add: rest)
  show "outcome_reported False obs r"
    if "fst (thread_call preex_wireless ly F env (Call_Run obs) w) = Some (Inr r)"
    using run that by (simp add: rest thread_call_run)
qed

text \<open>A wireless run whose \<open>weak_rand\<close> fails as the handlers of its BLE phase are built.\<close>

definition failing_rand :: "(window, unit) stack_obs list" where
  "failing_rand =
     [saw (quiet Closed), saw (quiet Open_Basic), saw ((quiet Open_Basic)\<lparr>ob_rand := Some InvalidAction\<rparr>)]"

theorem call_results_reported_witness:
  "fst (wifi_call preex_wireless byte_layouts {} sample_env (Call_Run failing_rand) (unit_stack 20)) =
     Some (Inr (Inl InvalidAction)) \<and> outcome_reported False failing_rand (Inl InvalidAction)"
proof -
  let ?s = "unit_stack 20"
  have r: "stack_ready ?s" by (rule unit_stack_ready) simp
  have "stack_alloc [byte_layout] ?s = Inr (?s\<lparr>ms_bump := (ms_bump ?s)\<lparr>b_offset := 1\<rparr>\<rparr>)"
    using r by (simp add: stack_alloc_fits stack_ready_def byte_need) (simp add: unit_stack_def bump_new_def)
  then have "fst (wifi_call preex_wireless byte_layouts {} sample_env (Call_Run failing_rand) ?s) =
      Some (Inr (Inl InvalidAction))"
    by (simp add: failing_rand_def wifi_call_def wifi_run_def call_guarded saw_def byte_layouts_def
        wifi_stack_task_def poll_phase_nets_def scenario_eval wl_get_def wl_put_def wl_ended_def Let_def)
  with call_results_reported [OF sample_contracts(1)] show ?thesis by blast
qed

section \<open>Network stacks without UDP\<close>

text \<open>
  A task with network tasks: \<open>oper\<close> says where it has them. Without UDP the transport never gets
  beyond its first poll.
\<close>

definition net_waits :: "nets \<Rightarrow> bool" where
  "net_waits n \<longleftrightarrow> nt_net n = Net_Start"

lemma net_waits_new [simp]: "net_waits nets_new"
  by (simp add: net_waits_def nets_new_def)

lemma poll_nets_waits:
  assumes "net_waits n"
  shows "nb_net_polled ob \<Longrightarrow> poll_nets sel False n ob = Inl Unwrap_Failed"
    and "poll_nets sel False n ob = Inr (net, mdns, n') \<Longrightarrow> net_waits n'"
  using assms
  by (auto simp: poll_nets_def poll_net_task_def poll_oper_net_def poll_mdns_task_def net_waits_def
      and_then_Inr_iff split: if_splits sum.splits)

locale udp_task = arena_task task udp
  for task :: "('pc, ('m, 'b, 'i, 'n) mstack, ('q, 'st) stack_obs) stack_task" and udp +
  fixes oper :: "'pc \<Rightarrow> bool" and nets_of :: "'pc \<Rightarrow> nets"
  assumes oper_panics: "oper pc \<Longrightarrow> \<not> udp \<Longrightarrow> net_waits (nets_of pc) \<Longrightarrow> nb_net_polled (so_nets ob) \<Longrightarrow>
      \<exists>t. task pc s ob = (Inl (Inl Unwrap_Failed), t)"
    and task_waits: "net_waits (nets_of pc) \<Longrightarrow> \<not> udp \<Longrightarrow> task pc s ob = (Inr pc', s') \<Longrightarrow> net_waits (nets_of pc')"
    and unwrap_oper: "bump_ok (ms_bump s) \<Longrightarrow> task pc s ob = (Inl (Inl Unwrap_Failed), t) \<Longrightarrow> oper pc"
begin

lemma future_waits:
  "net_waits (nets_of pc) \<Longrightarrow> \<not> udp \<Longrightarrow> run_future task pc s obs = (Inr pc', s') \<Longrightarrow> net_waits (nets_of pc')"
proof (induction obs arbitrary: pc s)
  case Nil
  then show ?case by auto
next
  case (Cons ob obs)
  obtain x t where st: "task pc s ob = (x, t)" by fastforce
  with Cons.prems(3) obtain q where x: "x = Inr q" and r: "run_future task q t obs = (Inr pc', s')"
    by (cases x) simp_all
  from Cons.IH [OF task_waits [OF Cons.prems(1,2) st [unfolded x]] Cons.prems(2) r] show ?case .
qed

lemma unwrap_exactly:
  assumes "net_waits (nets_of start)" and "bump_ok (ms_bump s)" and "run_future task start s obs = (Inr pc, s')"
    and "nb_net_polled (so_nets ob)"
  shows "(\<exists>t. task pc s' ob = (Inl (Inl Unwrap_Failed), t)) \<longleftrightarrow> oper pc \<and> \<not> udp"
proof
  have ok: "bump_ok (ms_bump s')" using future_rel [OF assms(3)] assms(2) by (simp add: stack_rel_def)
  assume "\<exists>t. task pc s' ob = (Inl (Inl Unwrap_Failed), t)"
  then obtain t where t: "task pc s' ob = (Inl (Inl Unwrap_Failed), t)" ..
  from task_panic [OF ok t] unwrap_oper [OF ok t] show "oper pc \<and> \<not> udp"
    by (auto simp: stack_panic_def udp_panic_def)
next
  assume "oper pc \<and> \<not> udp"
  with future_waits [OF assms(1) _ assms(3)] oper_panics [of pc ob s'] assms(4)
  show "\<exists>t. task pc s' ob = (Inl (Inl Unwrap_Failed), t)" by blast
qed

end

fun eth_oper :: "eth_stack_pc \<Rightarrow> bool" where
  "eth_oper Eth_Begin = False"
| "eth_oper (Eth_Tasks n im) = True"

fun eth_nets :: "eth_stack_pc \<Rightarrow> nets" where
  "eth_nets Eth_Begin = nets_new"
| "eth_nets (Eth_Tasks n im) = n"

fun coex_oper :: "coex_stack_pc \<Rightarrow> bool" where
  "coex_oper Coex_Begin = False"
| "coex_oper (Coex_Tasks n g im) = True"

fun coex_nets :: "coex_stack_pc \<Rightarrow> nets" where
  "coex_nets Coex_Begin = nets_new"
| "coex_nets (Coex_Tasks n g im) = n"

definition wl_oper :: "wl_stack_pc \<Rightarrow> bool" where
  "wl_oper pc \<longleftrightarrow> (case fst (fst pc) of Oper _ _ \<Rightarrow> True | _ \<Rightarrow> False)"

lemma stack_alloc_unwrap: "bump_ok (ms_bump s) \<Longrightarrow> stack_alloc Ts s \<noteq> Inl Unwrap_Failed"
  using stack_alloc_oom by blast

lemma im_bump_unwrap:
  "bump_ok (ms_bump s) \<Longrightarrow> run_im_with_bump ly F sel im s ob \<noteq> (Inl Unwrap_Failed, im', s')"
  using run_im_bump_oom by blast

interpretation eth_udp: udp_task "eth_stack_task ly F env" "we_udp env" eth_oper eth_nets for ly F env
proof
  fix pc s ob
  show "\<exists>t. eth_stack_task ly F env pc s ob = (Inl (Inl Unwrap_Failed), t)"
    if "eth_oper pc" "\<not> we_udp env" "net_waits (eth_nets pc)" "nb_net_polled (so_nets ob)"
    using that poll_nets_waits(1) by (cases pc) (simp_all add: eth_stack_task_def)
  show "net_waits (eth_nets pc')"
    if "net_waits (eth_nets pc)" "\<not> we_udp env" "eth_stack_task ly F env pc s ob = (Inr pc', s')"
    for pc' s'
    using that
    by (cases pc) (auto simp: eth_stack_task_def Let_def
        split: option.splits sum.splits prod.splits if_splits dest: poll_nets_waits(2))
  show "eth_oper pc"
    if "bump_ok (ms_bump s)" "eth_stack_task ly F env pc s ob = (Inl (Inl Unwrap_Failed), t)" for t
    using that stack_alloc_unwrap [of s]
    by (cases pc) (auto simp: eth_stack_task_def split: option.splits sum.splits)
qed

interpretation coex_udp: udp_task "wifi_coex_stack_task ly F env" "we_udp env" coex_oper coex_nets for ly F env
proof
  fix pc s ob
  show "\<exists>t. wifi_coex_stack_task ly F env pc s ob = (Inl (Inl Unwrap_Failed), t)"
    if "coex_oper pc" "\<not> we_udp env" "net_waits (coex_nets pc)" "nb_net_polled (so_nets ob)"
    using that poll_nets_waits(1) by (cases pc) (simp_all add: wifi_coex_stack_task_def)
  show "net_waits (coex_nets pc')"
    if "net_waits (coex_nets pc)" "\<not> we_udp env" "wifi_coex_stack_task ly F env pc s ob = (Inr pc', s')"
    for pc' s'
    using that
    by (cases pc) (auto simp: wifi_coex_stack_task_def Let_def
        split: option.splits sum.splits prod.splits if_splits dest: poll_nets_waits(2))
  show "coex_oper pc"
    if "bump_ok (ms_bump s)" "wifi_coex_stack_task ly F env pc s ob = (Inl (Inl Unwrap_Failed), t)" for t
    using that stack_alloc_unwrap [of s]
    by (cases pc) (auto simp: wifi_coex_stack_task_def split: option.splits sum.splits)
qed

interpretation thread_coex_udp: udp_task "thread_coex_stack_task ly F env" "we_udp env" coex_oper coex_nets for ly F env
  unfolding thread_coex_stack_is_wifi by unfold_locales

lemma wl_pc_get: "wl_pc (wl_get pc s) = fst pc"
  by (simp add: wl_get_def)

lemma wl_udp:
  assumes "arena_task task (we_udp env)" and "task = wl_stack_task run ly env"
  shows "udp_task task (we_udp env) wl_oper snd"
  unfolding assms(2)
proof (intro udp_task.intro udp_task_axioms.intro assms(1) [unfolded assms(2)])
  fix pc s ob
  show "\<exists>t. wl_stack_task run ly env pc s ob = (Inl (Inl Unwrap_Failed), t)"
    if "wl_oper pc" "\<not> we_udp env" "net_waits (snd pc)" "nb_net_polled (so_nets ob)"
    using that poll_nets_waits(1) [OF that(3,4)]
    by (auto simp: wl_stack_task_def Let_def wl_pc_get wl_oper_def poll_phase_nets_def split: wl_pc.splits)
  show "net_waits (snd pc')"
    if "net_waits (snd pc)" "\<not> we_udp env" and task: "wl_stack_task run ly env pc s ob = (Inr pc', s')" for pc' s'
    using task
  proof (cases rule: wl_stack_cases)
    case (pending net mdns n w)
    then show ?thesis
      using that(1,2) by (auto simp: poll_phase_nets_def split: wl_pc.splits dest: poll_nets_waits(2))
  qed simp_all
  show "wl_oper pc"
    if "bump_ok (ms_bump s)" and task: "wl_stack_task run ly env pc s ob = (Inl (Inl Unwrap_Failed), t)" for t
    using task
  proof (cases rule: wl_stack_cases)
    case (net_panic p)
    then show ?thesis by (auto simp: poll_phase_nets_def wl_oper_def split: wl_pc.splits)
  next
    case (no_memory net mdns n w p)
    then show ?thesis using stack_alloc_unwrap [of "wl_put w s"] that(1) by simp
  qed simp_all
qed

interpretation wifi_udp: udp_task "wifi_stack_task ly env" "we_udp env" wl_oper snd for ly env
  by (rule wl_udp) (unfold_locales, simp add: wifi_stack_task_wl)

interpretation thread_udp: udp_task "thread_stack_task ly env" "we_udp env" wl_oper snd for ly env
  by (rule wl_udp) (unfold_locales, simp add: thread_stack_task_wl)

text \<open>
  C13. What a network stack without UDP means for a run. In whatever state a run is, over Ethernet,
  with coexistence or without, an evaluation that polls the operational transport panics with the
  failed \<open>unwrap!\<close> exactly when the network stack does not offer UDP and the run is operational: so
  a BLE phase and the connect that follows it are carried out without UDP, and the first evaluation
  that polls the transport of the operational phase is a panic.
\<close>

theorem operational_needs_udp:
  assumes "bump_ok (ms_bump s)" and "bump_ok (ms_bump w)" and "nb_net_polled (so_nets ob)"
  shows "(run_future (eth_stack_task ly F env) Eth_Begin s obs = (Inr epc, s') \<longrightarrow>
      ((\<exists>t. eth_stack_task ly F env epc s' ob = (Inl (Inl Unwrap_Failed), t)) \<longleftrightarrow>
        epc \<noteq> Eth_Begin \<and> \<not> we_udp env)) \<and>
    (run_future (wifi_coex_stack_task ly F env) Coex_Begin s obs = (Inr cpc, s') \<longrightarrow>
      ((\<exists>t. wifi_coex_stack_task ly F env cpc s' ob = (Inl (Inl Unwrap_Failed), t)) \<longleftrightarrow>
        cpc \<noteq> Coex_Begin \<and> \<not> we_udp env)) \<and>
    (run_future (thread_coex_stack_task ly F env) Coex_Begin s obs = (Inr cpc, s') \<longrightarrow>
      ((\<exists>t. thread_coex_stack_task ly F env cpc s' ob = (Inl (Inl Unwrap_Failed), t)) \<longleftrightarrow>
        cpc \<noteq> Coex_Begin \<and> \<not> we_udp env)) \<and>
    (run_future (wifi_stack_task ly env) ((Loop_Head, Mode_None), nets_new) w obs = (Inr pc, w') \<longrightarrow>
      ((\<exists>t. wifi_stack_task ly env pc w' ob = (Inl (Inl Unwrap_Failed), t)) \<longleftrightarrow>
        (\<exists>nx im. fst (fst pc) = Oper nx im) \<and> \<not> we_udp env)) \<and>
    (run_future (thread_stack_task ly env) ((Loop_Head, Mode_None), nets_new) w obs = (Inr pc, w') \<longrightarrow>
      ((\<exists>t. thread_stack_task ly env pc w' ob = (Inl (Inl Unwrap_Failed), t)) \<longleftrightarrow>
        (\<exists>nx im. fst (fst pc) = Oper nx im) \<and> \<not> we_udp env))"
proof -
  have eth: "eth_oper p \<longleftrightarrow> p \<noteq> Eth_Begin" for p by (cases p) simp_all
  have coex: "coex_oper p \<longleftrightarrow> p \<noteq> Coex_Begin" for p by (cases p) simp_all
  have wl: "wl_oper p \<longleftrightarrow> (\<exists>nx im. fst (fst p) = Oper nx im)" for p
    by (simp add: wl_oper_def split: wl_pc.split)
  show ?thesis
    using eth_udp.unwrap_exactly [OF _ assms(1) _ assms(3), of Eth_Begin, unfolded eth]
      coex_udp.unwrap_exactly [OF _ assms(1) _ assms(3), of Coex_Begin, unfolded coex]
      thread_coex_udp.unwrap_exactly [OF _ assms(1) _ assms(3), of Coex_Begin, unfolded coex]
      wifi_udp.unwrap_exactly [OF _ assms(2) _ assms(3), of "((Loop_Head, Mode_None), nets_new)", unfolded wl]
      thread_udp.unwrap_exactly [OF _ assms(2) _ assms(3), of "((Loop_Head, Mode_None), nets_new)", unfolded wl]
    by simp
qed

theorem operational_needs_udp_witness:
  "\<exists>s t. run_future (eth_stack_task byte_layouts {} (sample_env\<lparr>we_udp := False\<rparr>)) Eth_Begin (unit_stack 20)
      [saw (quiet Closed)] = (Inr (Eth_Tasks nets_new Im_Start), s) \<and>
    eth_stack_task byte_layouts {} (sample_env\<lparr>we_udp := False\<rparr>) (Eth_Tasks nets_new Im_Start) s
      (saw (quiet Closed)) = (Inl (Inl Unwrap_Failed), t)"
proof -
  let ?s = "unit_stack 20" and ?e = "sample_env\<lparr>we_udp := False\<rparr>"
  have ok: "bump_ok (ms_bump ?s)" using unit_stack_ready [of 20] by (simp add: stack_ready_def)
  have "total_need [byte_layout, byte_layout, byte_layout, byte_layout] (b_base (ms_bump ?s)) \<le> 20"
    by (subst total_need_bytes) simp_all
  then obtain s where "stack_alloc [byte_layout, byte_layout, byte_layout, byte_layout] ?s = Inr s"
    using ok by (auto simp: stack_alloc_fits unit_stack_def bump_new_def)
  then have s: "run_future (eth_stack_task byte_layouts {} ?e) Eth_Begin ?s [saw (quiet Closed)] =
      (Inr (Eth_Tasks nets_new Im_Start), s)"
    by (simp add: eth_stack_task_def saw_def quiet_def byte_layouts_def)
  have "nb_net_polled (so_nets (saw (quiet Closed)))" by (simp add: saw_def quiet_nets_def)
  from operational_needs_udp [OF ok ok this, of byte_layouts "{}" ?e "[saw (quiet Closed)]"] s show ?thesis by auto
qed

end
