(* ===== verification/Spec2Isabelle.thy ===== *)
theory Spec2Isabelle
  imports Bump_Spec Reseeding_Spec Rng_Adaptor Config Netif_Spec Net_Spec Comm_Spec
    Wireless_Ctl Memory_Spec Wireless_Spec Core_Spec Run_Spec Bump_Tests Netif_Task
    Handover_Spec Calls_Spec Stack_Init_Spec Drivers Fmt
    Live_Net User_Task Window_Polls Commissioning Networks_Store Concurrent Responder Netif_Notify Light
    Requests_Spec Lock_Refinement Results_Spec
begin

text \<open>
  A model of \<^verbatim>\<open>rs-matter-stack\<close>: the crate that runs a Matter device, made of the protocol
  implementation \<^verbatim>\<open>rs-matter\<close>, a network stack, a network interface, a BLE peripheral and
  persistent storage, over Ethernet, Wifi or Thread. The crate itself composes futures: it
  owns no protocol logic, but memory for its futures, the order in which its tasks start, end
  and hand the radio to each other, and the adaptors between its dependencies. These are what
  is modelled.

  The parts, and how they interact (source paths below \<^verbatim>\<open>src/src/\<close>).

  \<^item> \<open>Stack_Base\<close>: errors and panics as values, actions on a world, tasks, the contract of the
    \<open>select\<close> combinator, the two locales \<open>op_machine\<close> (an invariant kept by operations) and
    \<open>op_refinement\<close> (operations refine abstract ones) that the components interpret.

  \<^item> \<open>Bump\<close>, \<open>Bump_Box\<close>, \<open>Bump_Heap\<close>, \<open>Bump_Spec\<close>: \<^verbatim>\<open>bump.rs\<close>. The arena is a map from addresses to
    bytes with an offset; \<open>align_min\<close> and \<open>reserve\<close> follow the code slice by slice, with its
    assertions and checked arithmetic. The locale \<open>slot_provider\<close> is what boxes rely on, and
    is interpreted by \<open>reserve\<close>. A heap of boxes is shown to refine a list of objects.
    \<open>Bump_Tests\<close> has the unit tests of the file as scripts of operations on that heap.

  \<^item> \<open>Reseeding\<close>, \<open>Reseeding_Spec\<close>, \<open>Rng_Adaptor\<close>: \<^verbatim>\<open>rand/reseeding.rs\<close> and \<^verbatim>\<open>rand.rs\<close>. The byte counter
    is a 64 bit word with a signed reading; the reference it is compared with serves requests that
    are marked, by a schedule over the sizes of the requests, for a fresh generator before them. The
    generator and the reseeder are parameters.

  \<^item> \<open>Config\<close>: the sizes that \<^verbatim>\<open>lib.rs\<close> selects by cargo features.

  \<^item> \<open>Netif\<close>, \<open>Netif_Spec\<close>: \<open>run_oper_netif_mdns\<close> of \<^verbatim>\<open>lib.rs\<close>. The enumerations of the driver are a
    list of snapshots; the result is the list of states the mDNS task ran with. \<open>Netif_Task\<close> is the
    same code poll by poll, with the retries of the responder, and refines the loop over snapshots.
    \<open>Netif_Notify\<close> lets interfaces change, and notices be given, between any two steps of the wait.

  \<^item> \<open>Udp\<close>, \<open>Mdns_Host\<close>, \<open>Net_Spec\<close>: \<^verbatim>\<open>udp.rs\<close>, \<open>run_oper_net\<close> of \<^verbatim>\<open>lib.rs\<close> and the built-in responder's
    setup of \<^verbatim>\<open>mdns.rs\<close>, over a socket given by its calls. \<open>Net_Tasks\<close> has \<open>run_oper_net\<close> poll by poll,
    beside the supervision of the interface, as every run polls the two; both unwrap the UDP of the
    network stack, and panic when it offers none.

  \<^item> \<open>Comm_Window\<close>, \<open>Comm_Spec\<close>: the tasks of \<^verbatim>\<open>wireless.rs\<close> that follow the commissioning window.
    \<open>wait_comm_window\<close> is a step relation in which the window is written and notified between
    any two steps of the waiter; the tasks that use it are functions of one observation per
    evaluation of their await point, so that any number of window changes may lie between two.
    \<open>Window_Polls\<close> connects the two: whole polls of the waiter are such evaluations.

  \<^item> \<open>Wireless_Ctl\<close>: \<open>WirelessNetCtl\<close> of \<^verbatim>\<open>wireless.rs\<close>, every method of its five traits.

  \<^item> \<open>Wireless_Phases\<close>, \<open>Wireless_Spec\<close>: the hydration of the interaction model (\<^verbatim>\<open>lib.rs\<close>) and the
    phase loops and tasks of \<^verbatim>\<open>wireless/wifi.rs\<close> and \<^verbatim>\<open>wireless/thread.rs\<close>, as state machines whose
    program counters are the await points. \<open>Handover_Spec\<close> ranks the await points between the
    credentials and the operational phase, and bounds the evaluations of the handover by the rank.
    \<open>Commissioning\<close> puts startup, BLE phase and handover together. \<open>Networks_Store\<close> adds the networks
    store that the phases lend to their handlers, with the loads and updates an evaluation can make
    of it.

  \<^item> \<open>Phase_Handlers\<close>, \<open>Served_Requests\<close>, \<open>Served_Spec\<close>, \<open>Requests_Spec\<close>: the tasks given to a driver and the
    interaction model that each phase builds (\<^verbatim>\<open>eth.rs\<close>, \<^verbatim>\<open>wireless/wifi.rs\<close>, \<^verbatim>\<open>wireless/thread.rs\<close>), and
    the runs without coexistence with the requests that these models serve: the status and the
    deferred connect, observations of the phases above, are here what the controller of the phase
    makes of them. The locale \<open>phase_models\<close> has what the models of a network owe.

  \<^item> \<open>Stack_Core\<close>, \<open>Core_Spec\<close>: startup, reset and the commissioning window of \<^verbatim>\<open>lib.rs\<close>, \<^verbatim>\<open>eth.rs\<close> and
    \<^verbatim>\<open>wireless.rs\<close>, and the Ethernet task.

  \<^item> \<open>Stack_Memory\<close>, \<open>Memory_Spec\<close>: the allocations of the drivers from the bump allocator, in
    their order, and what they need of the arena exactly. \<open>Responder\<close> is the responder of the
    interaction model (\<^verbatim>\<open>lib.rs\<close>) poll by poll, with its handlers; the locale \<open>site_future\<close> is what a
    future that allocates in its first poll promises, \<open>eager_site_future\<close> that it makes all its
    allocations even if it ends there.

  \<^item> \<open>Run_Lock\<close>, \<open>Run_Spec\<close>: calls of \<open>run\<close> that interleave on a shared stack, with the run lock, the
    guard that resets the allocator, cancellation and unwinding.

  \<^item> \<open>Stack_Run\<close>, \<open>Stack_Run_Spec\<close>, \<open>Calls_Spec\<close>, \<open>Stack_Init_Spec\<close>: \<open>MatterStack\<close> as a value, its two
    constructors, and whole calls of \<open>run\<close>, \<open>run_coex\<close> and \<open>run_preex\<close> (\<^verbatim>\<open>eth.rs\<close>, \<^verbatim>\<open>wireless/wifi.rs\<close>,
    \<^verbatim>\<open>wireless/thread.rs\<close>) as functions of it. They compose the parts above: the guard and the
    transport reset, the allocations of a task where it makes them, the phases, and every way a
    call ends. A task panics for lack of bump memory or, its network tasks, for lack of UDP. The
    locale \<open>arena_task\<close> is what a task owes the stack, \<open>call_system\<close> what a kind of
    call owes the next one, \<open>bounded_task\<close> that a task fits an arena, \<open>blind_task\<close> that what it does
    does not depend on the bytes of the arena; each is interpreted on the tasks and calls of the three networks.
    \<open>Results_Spec\<close> is about how a call ends: which results it can report, and what a network stack
    without UDP means for it (the locale \<open>udp_task\<close>, a task with network tasks).
    \<open>Concurrent\<close> has any number of callers on one such stack, with the lock between them: their
    evaluations interleave, and what is shown of sequences of calls holds of them too.
    \<open>Lock_Refinement\<close> shows that they follow the protocol of \<open>Run_Lock\<close>; the locale \<open>allocating_task\<close> is a
    task that changes the allocator by allocations only, \<open>locked_task\<close> a call that begins with one.

  \<^item> \<open>Live_Net\<close>: how the responder follows the interface, and the Ethernet and the coexistence machine
    with their network tasks in place, memory apart. \<open>User_Task\<close> is about the user's task beside
    them; the locale \<open>user_waits\<close> is a phase that waits for it alone.

  \<^item> \<open>Forward\<close>, \<open>Drivers\<close>: every implementation of a trait of the crate for \<open>&mut T\<close>, the drivers
    for an interface that is up already (\<open>PreexistingEthernet\<close>, \<open>PreexistingWireless\<close>), the responders and
    peripherals that hand on to \<^verbatim>\<open>rs-matter\<close> (\<^verbatim>\<open>mdns.rs\<close>, \<^verbatim>\<open>ble.rs\<close>), and the network stacks of
    \<^verbatim>\<open>nal.rs\<close>. A mutable reference is a place in a larger state, with the laws of the locale
    \<open>lawful_place\<close>.

  \<^item> \<open>Fmt\<close>: \<^verbatim>\<open>fmt.rs\<close>, the expansion of the macros by feature, \<open>unwrap!\<close> and the form of \<open>Bytes\<close>.

  \<^item> \<open>Light\<close>: the two examples, \<^verbatim>\<open>src/examples/light.rs\<close> and \<^verbatim>\<open>light_eth.rs\<close>: the node, the chain of
    handlers behind it, and \<open>main\<close> as startup followed by one call on a fresh stack.

  What is a parameter, with its contract. \<open>select_contract\<close>: a combined future is ready exactly
  when a child is, with the result of one that is. \<open>window_contract\<close>: a window open on all
  transports is open. \<open>prov_ready_contract\<close>: no verdict without a networking status.
  \<open>chain_contract\<close>, \<open>handler_chain_contract\<close>: a chained network sends, and a chained handler
  serves, by its predicate. \<open>matter_contract\<close>: what the calls of
  the \<open>Matter\<close> instance do to the window and the fabrics when they succeed. \<open>driver_contract\<close>: a
  driver runs the task it is given, waits, or fails, and leaves the stack alone.
  \<open>net_handler_contract\<close>, \<open>connect_once_contract\<close>: the clusters act on the interface through their
  controller only, and a connect is recorded with its network and outcome.
  \<open>windows_alternate\<close>: the two windows of a scenario are one that is open on all transports and
  one that is not, over a network stack that offers UDP. Futures of \<^verbatim>\<open>rs-matter\<close>, of the driver and
  of the user end with a result or wait; a panic of theirs is, for the stack, a
  call that is dropped. Each of the contracts is shown to hold of a concrete instance where it is used.

  Bounds. Addresses and sizes are naturals below \<open>2 ^ 64\<close> with checked arithmetic, the counter
  of the generator and all protocol fields are words of their width. No fuel is used: the
  loops of the code that never end are driven by the observations they consume, so that a run
  over a list of observations either ends with a result or is pending in a state.

  What is not modelled: the accessors of \<open>MatterStack\<close> (the fields of the record), the metadata
  and root handlers that are macros and functions of \<^verbatim>\<open>rs-matter\<close>, what \<^verbatim>\<open>log\<close> and \<^verbatim>\<open>defmt\<close> do with
  their arguments, and re-exports. Retries and pauses have no duration:
  that a timer has expired is an observation. A driver that runs its task again after the task
  has ended, or that keeps other state of the stack, is out of \<open>driver_contract\<close>.

  What the properties and lemmas show of the code beyond its intention is recorded with them: the
  memory of repeated BLE phases (\<open>reopened_windows_exhaust_arena\<close>), the network stack without UDP that
  the traits allow and the runs do not (\<open>operational_needs_udp\<close>), the peripheral that stays as it is
  over a window replaced between two polls (\<open>gatt_follows_first_open\<close>), the repeated deferred connect
  (\<open>stale_verdict_connects_again\<close>), the startup of the interaction model that failed
  (\<open>failed_startup_is_final\<close>), the user's task over an interface that is down
  (\<open>user_task_while_down\<close>), the first use of a cloned generator (\<open>clone_first_use\<close>), the threshold
  that is said to mean never (\<open>zero_threshold_is_largest\<close>), and the documented form of \<open>Bytes\<close>
  (\<open>bytes_fmt_as_documented\<close>). That \<open>run_preex\<close> over Wifi has to be awaited twice is how
  \<open>wifi_run_preex\<close> is written.
\<close>

end
